(* ===== verification/Prelude.thy ===== *)
theory Prelude
  imports Main "HOL-Library.Word"
begin

text \<open>
  Shared vocabulary of the development: the machine integer types, the result of running C++ code
  that may throw, abort or have undefined behaviour, the unwrapping macros of
  \<open>utils/error_utils.h\<close>, and the generic facts on words and lists that several components use.

  The platform is LP64: \<open>size_t\<close> and \<open>uint64_t\<close> are 64 bits wide, plain \<open>char\<close> is signed.
\<close>

unbundle bit_operations_syntax

named_theorems outcome_simps \<open>rewriting through \<open>obind\<close> and the unwrapping macros\<close>
named_theorems word_facts \<open>bounds and bit facts of machine words\<close>

section \<open>Machine types\<close>

type_synonym u8 = "8 word"
type_synonym u32 = "32 word"
type_synonym u64 = "64 word"
type_synonym bytes = "u8 list"

abbreviation size_max :: nat where "size_max \<equiv> 2 ^ 64 - 1"

section \<open>Outcomes of C++ code\<close>

text \<open>
  A call returns a value, throws a standard exception, terminates the process (\<open>assert\<close>,
  \<open>std::terminate\<close>) or has undefined behaviour. The tag of \<open>Undef\<close> names the rule that is broken.
\<close>

datatype cpp_exception =
    Bad_optional_access
  | Length_error
  | Objc_exception     \<comment> \<open>a message that the class of the receiver does not understand\<close>

datatype undefined_behaviour =
    Shift_width        \<comment> \<open>shift by at least the width of the promoted operand\<close>
  | Out_of_bounds      \<comment> \<open>access outside an object\<close>
  | Ctype_range        \<comment> \<open>\<open><cctype>\<close> function called with a negative character\<close>
  | Null_dereference
  | Division_by_zero
  | Float_range        \<comment> \<open>conversion of a floating-point value that the integer type cannot hold\<close>
  | Use_after_free     \<comment> \<open>use of an object after the end of its lifetime\<close>
  | Type_punning       \<comment> \<open>access to an object as one of an unrelated type\<close>
  | Infinite_loop      \<comment> \<open>a loop without side effects that never ends\<close>

datatype 'a outcome =
    Ret 'a
  | Throw cpp_exception
  | Terminate
  | Undef undefined_behaviour

fun obind :: "'a outcome \<Rightarrow> ('a \<Rightarrow> 'b outcome) \<Rightarrow> 'b outcome" where
  "obind (Ret x) f = f x"
| "obind (Throw e) f = Throw e"
| "obind Terminate f = Terminate"
| "obind (Undef u) f = Undef u"

declare obind.simps [outcome_simps]

lemma concat_replicate_snoc: "concat (replicate (Suc n) b) = concat (replicate n b) @ b"
  by (metis concat_append concat.simps append_Nil2 replicate_Suc replicate_append_same)

lemma obind_cong [fundef_cong]:
  "m = n \<Longrightarrow> (\<And>x. n = Ret x \<Longrightarrow> f x = g x) \<Longrightarrow> obind m f = obind n g"
  by (cases n) auto

lemma obind_assoc: "obind (obind m f) g = obind m (\<lambda>x. obind (f x) g)"
  by (cases m) auto

lemma obind_Ret_right [simp]: "obind m Ret = m"
  by (cases m) auto

lemma obind_eq_Ret [outcome_simps]:
  "obind m f = Ret y \<longleftrightarrow> (\<exists>x. m = Ret x \<and> f x = Ret y)"
  by (cases m) auto

lemma obind_eq_Throw [outcome_simps]:
  "obind m f = Throw e \<longleftrightarrow> m = Throw e \<or> (\<exists>x. m = Ret x \<and> f x = Throw e)"
  by (cases m) auto

lemma obind_eq_Undef [outcome_simps]:
  "obind m f = Undef u \<longleftrightarrow> m = Undef u \<or> (\<exists>x. m = Ret x \<and> f x = Undef u)"
  by (cases m) auto

lemma obind_eq_Terminate [outcome_simps]:
  "obind m f = Terminate \<longleftrightarrow> m = Terminate \<or> (\<exists>x. m = Ret x \<and> f x = Terminate)"
  by (cases m) auto

text \<open>A call is defined when it returns: no exception, no abort, no undefined behaviour.\<close>

fun returns :: "'a outcome \<Rightarrow> bool" where
  "returns (Ret x) = True"
| "returns _ = False"

lemma returns_iff: "returns m \<longleftrightarrow> (\<exists>x. m = Ret x)"
  by (cases m) auto

text \<open>A client that performs one fallible operation for each element of a list.\<close>

fun ofold :: "('s \<Rightarrow> 'x \<Rightarrow> 's outcome) \<Rightarrow> 's \<Rightarrow> 'x list \<Rightarrow> 's outcome" where
  "ofold f s [] = Ret s"
| "ofold f s (x # xs) = obind (f s x) (\<lambda>s. ofold f s xs)"

lemma ofold_append: "ofold f s (xs @ ys) = obind (ofold f s xs) (\<lambda>s. ofold f s ys)"
  by (induction xs arbitrary: s) (simp_all add: obind_assoc)

section \<open>The unwrapping macros of utils/error_utils.h\<close>

text \<open>
  Each macro leaves the enclosing function when its operand has no value. The rest of that
  function is the continuation \<open>k\<close>. \<open>std::expected<T, E>\<close> is \<open>'e + 'a\<close> with \<open>Inl\<close> for the error.
  The \<open>co_\<close> variants differ from the plain ones in \<open>co_return\<close> only.
\<close>

type_synonym ('a, 'e) expected = "'e + 'a"

definition try_unwrap ::
  "('a, 'e) expected \<Rightarrow> ('a \<Rightarrow> ('b, 'e) expected outcome) \<Rightarrow> ('b, 'e) expected outcome" where
  "try_unwrap x k = (case x of Inl e \<Rightarrow> Ret (Inl e) | Inr v \<Rightarrow> k v)"

definition try_unwrap_or ::
  "('a, 'd) expected \<Rightarrow> 'e \<Rightarrow> ('a \<Rightarrow> ('b, 'e) expected outcome) \<Rightarrow> ('b, 'e) expected outcome" where
  "try_unwrap_or x err k = (case x of Inl _ \<Rightarrow> Ret (Inl err) | Inr v \<Rightarrow> k v)"

definition try_unwrap_optional ::
  "'a option \<Rightarrow> ('a \<Rightarrow> 'b option outcome) \<Rightarrow> 'b option outcome" where
  "try_unwrap_optional x k = (case x of None \<Rightarrow> Ret None | Some v \<Rightarrow> k v)"

definition try_unwrap_optional_or ::
  "'a option \<Rightarrow> 'e \<Rightarrow> ('a \<Rightarrow> ('b, 'e) expected outcome) \<Rightarrow> ('b, 'e) expected outcome" where
  "try_unwrap_optional_or x err k = (case x of None \<Rightarrow> Ret (Inl err) | Some v \<Rightarrow> k v)"

lemma try_unwrap_simps [simp, outcome_simps]:
  "try_unwrap (Inl e) k = Ret (Inl e)"
  "try_unwrap (Inr v) k = k v"
  "try_unwrap_or (Inl d) err k = Ret (Inl err)"
  "try_unwrap_or (Inr v) err k = k v"
  "try_unwrap_optional None k' = Ret None"
  "try_unwrap_optional (Some v) k' = k' v"
  "try_unwrap_optional_or None err k = Ret (Inl err)"
  "try_unwrap_optional_or (Some v) err k = k v"
  by (simp_all add: try_unwrap_def try_unwrap_or_def try_unwrap_optional_def
        try_unwrap_optional_or_def)

lemma try_unwrap_optional_cong [fundef_cong]:
  "x = y \<Longrightarrow> (\<And>v. y = Some v \<Longrightarrow> f v = g v) \<Longrightarrow>
     try_unwrap_optional x f = try_unwrap_optional y g"
  by (cases y) auto

section \<open>Words\<close>

lemma u8_bound [word_facts]: "unat (b :: u8) < 256"
  using unsigned_less [of b, where ?'a = nat] by simp

lemma u64_bound [word_facts]: "unat (w :: u64) < 2 ^ 64"
  using unsigned_less [of w, where ?'a = nat] by simp

lemma word_eq_by_bits:
  "(\<And>n. n < LENGTH('a::len) \<Longrightarrow> bit (x :: 'a word) n \<longleftrightarrow> bit y n) \<Longrightarrow> x = y"
  by (rule bit_word_eqI)

section \<open>Lists\<close>

lemma drop_eq_Cons_nth: "n < length xs \<Longrightarrow> drop n xs = xs ! n # drop (Suc n) xs"
  by (rule Cons_nth_drop_Suc [symmetric])

lemma take_drop_append: "length xs = n \<Longrightarrow> take n (drop 0 (xs @ ys)) = xs"
  by simp

section \<open>Laws shared by the components\<close>

text \<open>
  Printing followed by parsing returns the printed value. Whoever prints values that way may rely
  on the text: two well-formed values with the same text are equal.
\<close>

locale print_parse =
  fixes print_fun :: "'a \<Rightarrow> string"
    and parse_fun :: "string \<Rightarrow> 'a option outcome"
    and wf :: "'a \<Rightarrow> bool"
  assumes parse_print: "wf x \<Longrightarrow> parse_fun (print_fun x) = Ret (Some x)"
begin

lemma print_injective: "wf x \<Longrightarrow> wf y \<Longrightarrow> print_fun x = print_fun y \<Longrightarrow> x = y"
  by (metis parse_print outcome.inject option.inject)

lemma print_inj_on: "inj_on print_fun {x. wf x}"
  using print_injective by (auto intro: inj_onI)

end

text \<open>
  A self-delimiting binary code: the decoder finds the end of an encoding in whatever follows it.
  Then no encoding is a prefix of another, and a sequence of encodings has one reading only.
\<close>

locale prefix_codec =
  fixes enc :: "'a \<Rightarrow> bytes"
    and dec :: "bytes \<Rightarrow> ('a \<times> nat) option outcome"
  assumes dec_enc: "dec (enc x @ rest) = Ret (Some (x, length (enc x)))"
begin

lemma enc_prefix_free: "enc x @ r = enc y @ s \<Longrightarrow> x = y \<and> r = s"
  by (metis dec_enc append_eq_append_conv outcome.inject option.inject prod.inject)

lemma enc_injective: "enc x = enc y \<Longrightarrow> x = y"
  using enc_prefix_free [of x "[]" y "[]"] by simp

lemma enc_nonempty_or_unit: "enc x = [] \<Longrightarrow> y = x"
  using enc_prefix_free [of x "enc y" y "[]"] by simp

lemma enc_sequence_unique:
  "concat (map enc xs) = concat (map enc ys) \<Longrightarrow> length xs = length ys \<Longrightarrow> xs = ys"
proof (induction xs arbitrary: ys)
  case Nil
  then show ?case by simp
next
  case (Cons x xs)
  then obtain y ys' where ys: "ys = y # ys'" by (cases ys) auto
  with Cons.prems have "enc x @ concat (map enc xs) = enc y @ concat (map enc ys')" by simp
  then have "x = y" "concat (map enc xs) = concat (map enc ys')"
    using enc_prefix_free by blast+
  with Cons ys show ?case by simp
qed

end

end
