(* ===== verification/Strings.thy ===== *)
theory Strings
  imports Prelude
begin

text \<open>
  Characters and text: the parts of the C++ standard library the sources use on strings
  (\<open>std::isalnum\<close>, \<open>std::to_string\<close>), and decimal and hexadecimal digits.
\<close>

section \<open>Characters\<close>

definition char_code :: "char \<Rightarrow> nat" where
  "char_code c = of_char c"

definition is_digit :: "char \<Rightarrow> bool" where
  "is_digit c \<longleftrightarrow> 48 \<le> char_code c \<and> char_code c \<le> 57"

definition is_letter :: "char \<Rightarrow> bool" where
  "is_letter c \<longleftrightarrow> (65 \<le> char_code c \<and> char_code c \<le> 90) \<or> (97 \<le> char_code c \<and> char_code c \<le> 122)"

text \<open>
  \<open>std::isalnum\<close> in the C locale, called with a signed \<open>char\<close>. The argument has to be
  representable as \<open>unsigned char\<close> or equal to \<open>EOF\<close> (the character 255, which is -1); any other
  negative character is undefined behaviour.
\<close>

definition std_isalnum :: "char \<Rightarrow> bool outcome" where
  "std_isalnum c =
     (if char_code c < 128 then Ret (is_digit c \<or> is_letter c)
      else if char_code c = 255 then Ret False
      else Undef Ctype_range)"

definition digit_char :: "nat \<Rightarrow> char" where
  "digit_char n = char_of (48 + n)"

text \<open>\<open>std::to_string\<close> on an unsigned integer.\<close>

fun std_to_string :: "nat \<Rightarrow> string" where
  "std_to_string n =
     (if n < 10 then [digit_char n] else std_to_string (n div 10) @ [digit_char (n mod 10)])"

declare std_to_string.simps [simp del]

definition dec_value :: "string \<Rightarrow> nat" where
  "dec_value s = foldl (\<lambda>n c. 10 * n + (char_code c - 48)) 0 s"

lemma char_code_bound: "char_code c < 256"
  by (simp add: char_code_def)

lemma char_code_inject: "char_code c = char_code d \<longleftrightarrow> c = d"
  by (simp add: char_code_def)

lemma char_code_char_of: "n < 256 \<Longrightarrow> char_code (char_of n) = n"
  by (simp add: char_code_def)

lemma char_of_char_code: "char_of (char_code c) = c"
  by (simp add: char_code_def)

lemma digit_char_code: "n < 10 \<Longrightarrow> char_code (digit_char n) = 48 + n"
  by (simp add: digit_char_def char_code_char_of)

lemma digit_char_is_digit: "n < 10 \<Longrightarrow> is_digit (digit_char n)"
  by (simp add: is_digit_def digit_char_code)

lemma std_to_string_digits: "\<forall>c \<in> set (std_to_string n). is_digit c"
proof (induction n rule: std_to_string.induct)
  case (1 n)
  show ?case
    by (cases "n < 10") (use 1 in \<open>auto simp: std_to_string.simps [of n] digit_char_is_digit\<close>)
qed

lemma std_to_string_nonempty: "std_to_string n \<noteq> []"
  by (simp add: std_to_string.simps [of n])

lemma dec_value_to_string: "dec_value (std_to_string n) = n"
proof (induction n rule: std_to_string.induct)
  case (1 n)
  show ?case
    by (cases "n < 10")
       (use 1 in \<open>auto simp: std_to_string.simps [of n] dec_value_def digit_char_code\<close>)
qed

section \<open>Hexadecimal digits\<close>

definition hex_digit :: "nat \<Rightarrow> char" where
  "hex_digit n = (if n < 10 then char_of (48 + n) else char_of (87 + n))"

definition hex_value :: "char \<Rightarrow> nat option" where
  "hex_value c =
     (let n = char_code c in
       if 48 \<le> n \<and> n \<le> 57 then Some (n - 48)
       else if 97 \<le> n \<and> n \<le> 102 then Some (n - 87)
       else if 65 \<le> n \<and> n \<le> 70 then Some (n - 55)
       else None)"

definition hex_byte :: "u8 \<Rightarrow> string" where
  "hex_byte b = [hex_digit (unat b div 16), hex_digit (unat b mod 16)]"

definition to_lower :: "char \<Rightarrow> char" where
  "to_lower c = (if 65 \<le> char_code c \<and> char_code c \<le> 90 then char_of (char_code c + 32) else c)"

lemma hex_digit_code: "n < 16 \<Longrightarrow> char_code (hex_digit n) = (if n < 10 then 48 + n else 87 + n)"
  by (simp add: hex_digit_def char_code_char_of)

lemma hex_value_digit: "n < 16 \<Longrightarrow> hex_value (hex_digit n) = Some n"
  by (auto simp: hex_value_def hex_digit_code)

lemma hex_value_bound: "hex_value c = Some n \<Longrightarrow> n < 16"
  by (auto simp: hex_value_def Let_def split: if_splits)

lemma hex_digit_value: "hex_value c = Some n \<Longrightarrow> hex_digit n = to_lower c"
  by (auto simp: hex_value_def hex_digit_def to_lower_def Let_def char_of_char_code
        split: if_splits)

lemma hex_value_alnum: "hex_value c = Some n \<Longrightarrow> char_code c < 128 \<and> (is_digit c \<or> is_letter c)"
  by (auto simp: hex_value_def is_digit_def is_letter_def Let_def split: if_splits)

end
