(* ===== verification/Abseil.thy ===== *)
theory Abseil
  imports Strings
begin

text \<open>
  The contracts of the Abseil functions the sources call. Abseil is not part of the repository, so
  its functions are parameters of every definition that calls them. Each locale states the
  documented behaviour of one function and derives what its callers need; each is satisfied by a
  reference function (\<open>ref_\<dots>\<close>), which the concrete examples of the other theories run. The
  reference functions model no code of the repository.
\<close>

section \<open>absl::StrSplit with a one-character delimiter\<close>

fun join :: "char \<Rightarrow> string list \<Rightarrow> string" where
  "join d [] = []"
| "join d [t] = t"
| "join d (t # u # ts) = t @ d # join d (u # ts)"

text \<open>
  The pieces are in order, separated by the delimiter and free of it; there is always at least one
  (the empty piece for the empty text).
\<close>

locale split_api =
  fixes StrSplit :: "char \<Rightarrow> string \<Rightarrow> string list"
  assumes split_pieces: "join d (StrSplit d s) = s"
    and split_nonempty: "StrSplit d s \<noteq> []"
    and split_delimiter: "t \<in> set (StrSplit d s) \<Longrightarrow> d \<notin> set t"

lemma join_takeWhile:
  "d \<notin> set t \<Longrightarrow> takeWhile (\<lambda>c. c \<noteq> d) (join d (t # ts)) = t"
  by (cases ts) (auto simp: takeWhile_append takeWhile_eq_all_conv)

lemma join_unique:
  "ts \<noteq> [] \<Longrightarrow> us \<noteq> [] \<Longrightarrow> \<forall>t \<in> set ts. d \<notin> set t \<Longrightarrow> \<forall>t \<in> set us. d \<notin> set t \<Longrightarrow>
     join d ts = join d us \<Longrightarrow> ts = us"
proof (induction ts arbitrary: us)
  case Nil
  then show ?case by simp
next
  case (Cons t ts)
  then obtain u us' where us: "us = u # us'" by (cases us) auto
  with Cons.prems have tu: "t = u"
    by (metis join_takeWhile list.set_intros(1))
  show ?case
  proof (cases "ts = [] \<or> us' = []")
    case True
    with Cons.prems us tu show ?thesis by (cases ts; cases us') auto
  next
    case False
    then have "join d (t # ts) = t @ d # join d ts" "join d (u # us') = u @ d # join d us'"
      by (cases ts; cases us'; simp)+
    with Cons.prems us tu have "join d ts = join d us'" by simp
    with Cons us False have "ts = us'" by auto
    with us tu show ?thesis by simp
  qed
qed

lemma set_piece_join: "t \<in> set ts \<Longrightarrow> set t \<subseteq> set (join d ts)"
  by (induction d ts rule: join.induct) auto

context split_api
begin

lemma split_join: "ts \<noteq> [] \<Longrightarrow> \<forall>t \<in> set ts. d \<notin> set t \<Longrightarrow> StrSplit d (join d ts) = ts"
  by (rule join_unique) (auto simp: split_pieces split_nonempty dest: split_delimiter)

lemma split_inverse: "StrSplit d s = ts \<Longrightarrow> s = join d ts"
  using split_pieces by auto

lemma split_empty: "StrSplit d [] = [[]]"
  using split_join [of "[[]]" d] by simp

end

fun ref_StrSplit :: "char \<Rightarrow> string \<Rightarrow> string list" where
  "ref_StrSplit d [] = [[]]"
| "ref_StrSplit d (c # s) =
     (if c = d then [] # ref_StrSplit d s
      else (case ref_StrSplit d s of [] \<Rightarrow> [[c]] | t # ts \<Rightarrow> (c # t) # ts))"

lemma ref_StrSplit_nonempty: "ref_StrSplit d s \<noteq> []"
  by (induction s) (auto split: list.splits)

lemma join_Cons_nonempty: "ts \<noteq> [] \<Longrightarrow> join d (t # ts) = t @ d # join d ts"
  by (cases ts) auto

lemma join_Cons_char: "join d ((c # t) # ts) = c # join d (t # ts)"
  by (cases ts) auto

interpretation ref_split: split_api ref_StrSplit
proof
  fix d s t
  show "join d (ref_StrSplit d s) = s"
    by (induction s)
       (auto simp: join_Cons_nonempty ref_StrSplit_nonempty join_Cons_char split: list.splits)
  show "ref_StrSplit d s \<noteq> []" by (rule ref_StrSplit_nonempty)
  show "t \<in> set (ref_StrSplit d s) \<Longrightarrow> d \<notin> set t"
    by (induction s arbitrary: t) (auto split: list.splits if_splits)
qed

section \<open>absl::SimpleAtoi into a size_t\<close>

text \<open>
  Accepts a decimal number in the range of the type, optionally signed and surrounded by white
  space; returns false on anything else, overflow included.
\<close>

definition is_atoi_char :: "char \<Rightarrow> bool" where
  "is_atoi_char c \<longleftrightarrow> is_digit c \<or> char_code c \<in> {9, 10, 11, 12, 13, 32, 43, 45}"

locale atoi_api =
  fixes SimpleAtoi :: "string \<Rightarrow> u64 option"
  assumes atoi_digits: "s \<noteq> [] \<Longrightarrow> \<forall>c \<in> set s. is_digit c \<Longrightarrow>
      SimpleAtoi s = (if dec_value s < 2 ^ 64 then Some (of_nat (dec_value s)) else None)"
    and atoi_empty: "SimpleAtoi [] = None"
    and atoi_invalid: "c \<in> set s \<Longrightarrow> \<not> is_atoi_char c \<Longrightarrow> SimpleAtoi s = None"
begin

lemma atoi_to_string: "SimpleAtoi (std_to_string (unat n)) = Some n"
  using u64_bound [of n]
  by (simp add: atoi_digits std_to_string_nonempty std_to_string_digits dec_value_to_string)

end

definition is_space :: "char \<Rightarrow> bool" where
  "is_space c \<longleftrightarrow> char_code c \<in> {9, 10, 11, 12, 13, 32}"

definition ref_SimpleAtoi :: "string \<Rightarrow> u64 option" where
  "ref_SimpleAtoi s =
     (let t = rev (dropWhile is_space (rev (dropWhile is_space s)));
          u = (if t \<noteq> [] \<and> char_code (hd t) = 43 then tl t else t)
      in if u \<noteq> [] \<and> list_all is_digit u \<and> dec_value u < 2 ^ 64
         then Some (of_nat (dec_value u)) else None)"

lemma dropWhile_none: "\<forall>c \<in> set s. \<not> P c \<Longrightarrow> dropWhile P s = s"
  by (cases s) auto

interpretation ref_atoi: atoi_api ref_SimpleAtoi
proof
  fix s c
  show "ref_SimpleAtoi [] = None" by (simp add: ref_SimpleAtoi_def)
  show "ref_SimpleAtoi s = (if dec_value s < 2 ^ 64 then Some (of_nat (dec_value s)) else None)"
    if "s \<noteq> []" "\<forall>c \<in> set s. is_digit c"
  proof -
    have "\<forall>c \<in> set s. \<not> is_space c" using that(2) by (auto simp: is_digit_def is_space_def)
    then have "dropWhile is_space s = s" "dropWhile is_space (rev s) = rev s"
      by (simp_all add: dropWhile_none)
    moreover have "char_code (hd s) \<noteq> 43" using that by (cases s) (auto simp: is_digit_def)
    ultimately show ?thesis using that by (simp add: ref_SimpleAtoi_def list_all_iff)
  qed
  show "ref_SimpleAtoi s = None" if "c \<in> set s" "\<not> is_atoi_char c"
  proof -
    define t where "t = rev (dropWhile is_space (rev (dropWhile is_space s)))"
    define u where "u = (if t \<noteq> [] \<and> char_code (hd t) = 43 then tl t else t)"
    have keep: "c \<in> set xs \<Longrightarrow> c \<in> set (dropWhile is_space xs)" for xs
      using that(2) by (induction xs) (auto simp: is_space_def is_atoi_char_def)
    then have "c \<in> set t" using that(1) by (simp add: t_def)
    moreover have "char_code c \<noteq> 43" "\<not> is_digit c"
      using that(2) by (auto simp: is_atoi_char_def)
    ultimately have "c \<in> set u" by (cases t) (auto simp: u_def)
    with \<open>\<not> is_digit c\<close> show ?thesis
      unfolding ref_SimpleAtoi_def Let_def t_def [symmetric] u_def [symmetric]
      by (auto simp: list_all_iff)
  qed
qed

section \<open>absl::HexStringToBytes and the format %02x\<close>

text \<open>
  The decoder turns each pair of hexadecimal digits into a byte and fails on data that is not
  hexadecimal; the format writes a byte as two lower-case hexadecimal digits.
\<close>

locale hex_api =
  fixes HexStringToBytes :: "string \<Rightarrow> string option"
  assumes hex_nil: "HexStringToBytes [] = Some []"
    and hex_pair: "hex_value a = Some x \<Longrightarrow> hex_value b = Some y \<Longrightarrow>
      HexStringToBytes (a # b # s) = map_option (Cons (char_of (16 * x + y))) (HexStringToBytes s)"
    and hex_invalid: "c \<in> set s \<Longrightarrow> hex_value c = None \<Longrightarrow> HexStringToBytes s = None"

locale format_api =
  fixes StrFormat_02x :: "u8 \<Rightarrow> string"
  assumes format_02x: "StrFormat_02x b = hex_byte b"

fun ref_HexStringToBytes :: "string \<Rightarrow> string option" where
  "ref_HexStringToBytes [] = Some []"
| "ref_HexStringToBytes [a] = None"
| "ref_HexStringToBytes (a # b # s) =
     (case (hex_value a, hex_value b, ref_HexStringToBytes s) of
        (Some x, Some y, Some r) \<Rightarrow> Some (char_of (16 * x + y) # r)
      | _ \<Rightarrow> None)"

interpretation ref_hex: hex_api ref_HexStringToBytes
proof
  fix a b x y s c
  show "ref_HexStringToBytes [] = Some []" by simp
  show "hex_value a = Some x \<Longrightarrow> hex_value b = Some y \<Longrightarrow> ref_HexStringToBytes (a # b # s) =
      map_option (Cons (char_of (16 * x + y))) (ref_HexStringToBytes s)"
    by (simp split: option.splits)
  show "c \<in> set s \<Longrightarrow> hex_value c = None \<Longrightarrow> ref_HexStringToBytes s = None"
    by (induction s rule: ref_HexStringToBytes.induct) (auto split: option.splits)
qed

interpretation ref_format: format_api hex_byte
  by unfold_locales simp

end
