(* ===== verification/Uuid.thy ===== *)
theory Uuid
  imports Abseil
begin

text \<open>
  UUIDs (\<open>utils/uuid.h\<close>, \<open>utils/uuid.cpp\<close>): sixteen bytes, read from text in any punctuation and
  printed in the canonical 8-4-4-4-12 form. \<open>absl::HexStringToBytes\<close>, \<open>absl::StrFormat("%02x")\<close>
  and libsodium's \<open>randombytes_buf\<close> are parameters.
\<close>

section \<open>The code\<close>

record uuid =
  uuid_bytes :: bytes

definition uuid_kSize :: nat where "uuid_kSize = 16"

definition zero_uuid :: uuid where
  "zero_uuid = \<lparr>uuid_bytes = replicate uuid_kSize 0\<rparr>"

text \<open>The type invariant: the array has \<open>kSize\<close> elements.\<close>

definition uuid_wf :: "uuid \<Rightarrow> bool" where
  "uuid_wf u \<longleftrightarrow> length (uuid_bytes u) = uuid_kSize"

definition uuid_generate_random :: "(nat \<Rightarrow> bytes) \<Rightarrow> uuid" where
  "uuid_generate_random randombytes_buf = zero_uuid\<lparr>uuid_bytes := randombytes_buf uuid_kSize\<rparr>"

fun uuid_clean :: "string \<Rightarrow> string \<Rightarrow> string outcome" where
  "uuid_clean [] clean = Ret clean"
| "uuid_clean (c # str) clean =
     obind (std_isalnum c) (\<lambda>keep. uuid_clean str (if keep then clean @ [c] else clean))"

definition substr :: "string \<Rightarrow> nat \<Rightarrow> nat \<Rightarrow> string" where
  "substr s pos count = take count (drop pos s)"

function uuid_fill :: "(string \<Rightarrow> string option) \<Rightarrow> string \<Rightarrow> nat \<Rightarrow> uuid \<Rightarrow> uuid option outcome" where
  "uuid_fill HexStringToBytes clean i uuid =
     (if i < 16
      then (case HexStringToBytes (substr clean (i * 2) 2) of
              None \<Rightarrow> Ret None
            | Some byte_result \<Rightarrow>
                if length byte_result \<noteq> 1 then Terminate
                else uuid_fill HexStringToBytes clean (i + 1)
                       (uuid\<lparr>uuid_bytes := (uuid_bytes uuid)[i := of_nat (char_code (byte_result ! 0))]\<rparr>))
      else Ret (Some uuid))"
  by pat_completeness auto
termination
  by (relation "measure (\<lambda>(h, clean, i, uuid). 16 - i)") auto

declare uuid_fill.simps [simp del]

definition uuid_parse :: "(string \<Rightarrow> string option) \<Rightarrow> string \<Rightarrow> uuid option outcome" where
  "uuid_parse HexStringToBytes str =
     obind (uuid_clean str []) (\<lambda>clean.
       if length clean \<noteq> 32 then Ret None
       else uuid_fill HexStringToBytes clean 0 zero_uuid)"

definition uuid_parse_raw :: "bytes \<Rightarrow> uuid option" where
  "uuid_parse_raw bs =
     (if length bs \<noteq> uuid_kSize then None else Some (zero_uuid\<lparr>uuid_bytes := bs\<rparr>))"

definition uuid_to_string :: "(u8 \<Rightarrow> string) \<Rightarrow> uuid \<Rightarrow> string" where
  "uuid_to_string StrFormat_02x u =
     foldl (\<lambda>out i. (if i = 4 \<or> i = 6 \<or> i = 8 \<or> i = 10 then out @ ''-'' else out)
                     @ StrFormat_02x (uuid_bytes u ! i))
       [] [0..<length (uuid_bytes u)]"

section \<open>Cleaning\<close>

definition alnum :: "char \<Rightarrow> bool" where
  "alnum c \<longleftrightarrow> is_digit c \<or> is_letter c"

text \<open>The characters \<open>std::isalnum\<close> may be called with.\<close>

definition ctype_ok :: "char \<Rightarrow> bool" where
  "ctype_ok c \<longleftrightarrow> char_code c < 128 \<or> char_code c = 255"

lemma std_isalnum_ok: "ctype_ok c \<Longrightarrow> std_isalnum c = Ret (alnum c)"
  by (auto simp: ctype_ok_def std_isalnum_def alnum_def is_digit_def is_letter_def)

lemma std_isalnum_not_ok: "\<not> ctype_ok c \<Longrightarrow> std_isalnum c = Undef Ctype_range"
  by (auto simp: ctype_ok_def std_isalnum_def)

lemma uuid_clean_eq:
  "uuid_clean str clean =
     (if list_all ctype_ok str then Ret (clean @ filter alnum str) else Undef Ctype_range)"
proof (induction str arbitrary: clean)
  case Nil
  then show ?case by simp
next
  case (Cons c str)
  then show ?case
    by (cases "ctype_ok c") (simp_all add: std_isalnum_ok std_isalnum_not_ok)
qed

lemma hex_digit_alnum: "n < 16 \<Longrightarrow> alnum (hex_digit n) \<and> ctype_ok (hex_digit n)"
  using hex_value_alnum [OF hex_value_digit [of n]] by (simp add: alnum_def ctype_ok_def)

section \<open>Pairs of digits\<close>

definition is_hex :: "char \<Rightarrow> bool" where
  "is_hex c \<longleftrightarrow> hex_value c \<noteq> None"

fun pair_bytes :: "string \<Rightarrow> bytes" where
  "pair_bytes (a # b # s) = of_nat (16 * the (hex_value a) + the (hex_value b)) # pair_bytes s"
| "pair_bytes _ = []"

lemma pair_value_bound:
  "hex_value a = Some x \<Longrightarrow> hex_value b = Some y \<Longrightarrow> 16 * x + y < 256"
  using hex_value_bound [of a x] hex_value_bound [of b y] by linarith

lemma pair_bytes_hex_byte: "pair_bytes (hex_byte b @ s) = b # pair_bytes s"
  using u8_bound [of b]
  by (simp add: hex_byte_def hex_value_digit less_mult_imp_div_less)

lemma pair_bytes_concat: "pair_bytes (concat (map hex_byte bs)) = bs"
  by (induction bs) (simp_all add: pair_bytes_hex_byte)

lemma length_pair_bytes: "length (pair_bytes s) = length s div 2"
  by (induction s rule: pair_bytes.induct) simp_all

lemma hex_byte_pair:
  assumes "hex_value a = Some x" and "hex_value b = Some y"
  shows "hex_byte (of_nat (16 * x + y)) = [to_lower a, to_lower b]"
proof -
  have "unat (of_nat (16 * x + y) :: u8) = 16 * x + y"
    using pair_value_bound [OF assms] by (simp add: unat_of_nat del: of_nat_add of_nat_mult)
  then show ?thesis
    using assms hex_value_bound [OF assms(1)] hex_value_bound [OF assms(2)]
      hex_digit_value [OF assms(1)] hex_digit_value [OF assms(2)]
    by (simp add: hex_byte_def del: of_nat_add of_nat_mult)
qed

lemma concat_hex_pair_bytes:
  "list_all is_hex s \<Longrightarrow> even (length s) \<Longrightarrow> concat (map hex_byte (pair_bytes s)) = map to_lower s"
  by (induction s rule: pair_bytes.induct) (auto simp: is_hex_def hex_byte_pair simp del: of_nat_add of_nat_mult)

lemma is_hex_alnum: "is_hex c \<Longrightarrow> alnum c \<and> ctype_ok c"
  using hex_value_alnum by (auto simp: is_hex_def alnum_def ctype_ok_def)

section \<open>Parsing\<close>

context hex_api
begin

lemma decode_pair:
  "HexStringToBytes [a, b] =
     (if is_hex a \<and> is_hex b
      then Some [char_of (16 * the (hex_value a) + the (hex_value b))] else None)"
  using hex_pair [of a _ b _ "[]"] hex_invalid [of _ "[a, b]"]
  by (auto simp: is_hex_def hex_nil)

lemma uuid_fill_spec:
  assumes "length clean = 32" and "i \<le> 16" and "length (uuid_bytes u) = 16"
  shows "uuid_fill HexStringToBytes clean i u =
    (if list_all is_hex (drop (i * 2) clean)
     then Ret (Some (u\<lparr>uuid_bytes := take i (uuid_bytes u) @ pair_bytes (drop (i * 2) clean)\<rparr>))
     else Ret None)"
  using assms(2, 3)
proof (induction "16 - i" arbitrary: i u)
  case 0
  with assms(1) show ?case by (simp add: uuid_fill.simps)
next
  case (Suc n)
  then have i: "i < 16" by simp
  define a b where "a = clean ! (i * 2)" and "b = clean ! (i * 2 + 1)"
  have split: "drop (i * 2) clean = a # b # drop (Suc i * 2) clean"
    using i assms(1) by (simp add: a_def b_def Cons_nth_drop_Suc [symmetric])
  then have pair: "substr clean (i * 2) 2 = [a, b]" by (simp add: substr_def)
  show ?case
  proof (cases "is_hex a \<and> is_hex b")
    case False
    then show ?thesis by (subst uuid_fill.simps) (auto simp: i pair decode_pair split)
  next
    case True
    then obtain x y where xy: "hex_value a = Some x" "hex_value b = Some y"
      by (auto simp: is_hex_def)
    define v where "v = (of_nat (16 * x + y) :: u8)"
    define u' where "u' = u\<lparr>uuid_bytes := (uuid_bytes u)[i := v]\<rparr>"
    have "uuid_fill HexStringToBytes clean i u = uuid_fill HexStringToBytes clean (Suc i) u'"
      using True xy pair_value_bound [OF xy]
      by (subst uuid_fill.simps)
         (simp add: i pair decode_pair char_code_char_of u'_def v_def del: of_nat_add of_nat_mult)
    also have "\<dots> = (if list_all is_hex (drop (Suc i * 2) clean)
        then Ret (Some (u'\<lparr>uuid_bytes := take (Suc i) (uuid_bytes u') @
                          pair_bytes (drop (Suc i * 2) clean)\<rparr>))
        else Ret None)"
      by (rule Suc.hyps(1)) (use Suc.hyps(2) Suc.prems i in \<open>simp_all add: u'_def\<close>)
    also have "take (Suc i) (uuid_bytes u') = take i (uuid_bytes u) @ [v]"
      using i Suc.prems by (simp add: u'_def take_Suc_conv_app_nth)
    finally show ?thesis
      using True xy by (simp add: split v_def u'_def del: of_nat_add of_nat_mult)
  qed
qed

lemma uuid_parse_spec:
  "uuid_parse HexStringToBytes str =
    (if \<not> list_all ctype_ok str then Undef Ctype_range
     else if length (filter alnum str) = 32 \<and> list_all is_hex (filter alnum str)
     then Ret (Some \<lparr>uuid_bytes = pair_bytes (filter alnum str)\<rparr>)
     else Ret None)"
  by (simp add: uuid_parse_def uuid_clean_eq uuid_fill_spec zero_uuid_def uuid_kSize_def)

end

section \<open>Printing\<close>

definition dash :: "nat \<Rightarrow> string" where
  "dash i = (if i = 4 \<or> i = 6 \<or> i = 8 \<or> i = 10 then ''-'' else [])"

lemma not_alnum_dash: "\<not> alnum CHR ''-''" "ctype_ok CHR ''-''"
  by (simp_all add: alnum_def is_digit_def is_letter_def ctype_ok_def char_code_def)

lemma filter_alnum_hex_byte: "filter alnum (hex_byte b) = hex_byte b"
  using u8_bound [of b] by (simp add: hex_byte_def hex_digit_alnum less_mult_imp_div_less)

lemma is_hex_hex_byte: "list_all is_hex (hex_byte b)"
  using u8_bound [of b]
  by (simp add: hex_byte_def is_hex_def hex_value_digit less_mult_imp_div_less)

lemma foldl_append_concat: "foldl (\<lambda>out i. (out @ f i) @ g i) out xs = out @ concat (map (\<lambda>i. f i @ g i) xs)"
  by (induction xs arbitrary: out) simp_all

context format_api
begin

lemma uuid_to_string_concat:
  "uuid_to_string StrFormat_02x u =
     concat (map (\<lambda>i. dash i @ hex_byte (uuid_bytes u ! i)) [0..<length (uuid_bytes u)])"
proof -
  have "(\<lambda>out i. (if i = 4 \<or> i = 6 \<or> i = 8 \<or> i = 10 then out @ ''-'' else out)
           @ StrFormat_02x (uuid_bytes u ! i))
      = (\<lambda>out i. (out @ dash i) @ hex_byte (uuid_bytes u ! i))"
    by (auto simp: dash_def fun_eq_iff format_02x)
  then show ?thesis by (simp only: uuid_to_string_def foldl_append_concat append_Nil)
qed

lemma alnum_of_string:
  "filter alnum (uuid_to_string StrFormat_02x u) = concat (map hex_byte (uuid_bytes u))"
proof -
  have "filter alnum (dash i @ hex_byte b) = hex_byte b" for i b
    by (simp add: dash_def not_alnum_dash filter_alnum_hex_byte)
  then have "filter alnum (uuid_to_string StrFormat_02x u) =
      concat (map (\<lambda>i. hex_byte (uuid_bytes u ! i)) [0..<length (uuid_bytes u)])"
    by (simp add: uuid_to_string_concat filter_concat comp_def)
  also have "map (\<lambda>i. hex_byte (uuid_bytes u ! i)) [0..<length (uuid_bytes u)]
      = map hex_byte (map (nth (uuid_bytes u)) [0..<length (uuid_bytes u)])"
    by simp
  finally show ?thesis by (simp only: map_nth)
qed

lemma ctype_ok_of_string: "list_all ctype_ok (uuid_to_string StrFormat_02x u)"
proof -
  have "list_all ctype_ok (dash i @ hex_byte b)" for i b
    using is_hex_hex_byte [of b] is_hex_alnum
    by (auto simp: dash_def not_alnum_dash list_all_iff)
  then show ?thesis by (auto simp: uuid_to_string_concat list_all_iff)
qed

lemma uuid_to_string_layout:
  "uuid_wf u \<Longrightarrow> uuid_to_string StrFormat_02x u =
     join CHR ''-'' (map (\<lambda>(i, n). concat (map hex_byte (take n (drop i (uuid_bytes u)))))
       [(0, 4), (4, 2), (6, 2), (8, 2), (10, 6)])"
  unfolding uuid_wf_def uuid_kSize_def uuid_to_string_concat
  by (auto simp: dash_def length_Suc_conv numeral_eq_Suc)

end

lemma length_concat_hex: "length (concat (map hex_byte bs)) = 2 * length bs"
  by (induction bs) (simp_all add: hex_byte_def)

lemma list_all_is_hex_concat: "list_all is_hex (concat (map hex_byte bs))"
  by (induction bs) (simp_all add: is_hex_hex_byte)

text \<open>Digits in either case.\<close>

lemma to_lower_code:
  "char_code (to_lower c) = (if 65 \<le> char_code c \<and> char_code c \<le> 90 then char_code c + 32 else char_code c)"
  by (simp add: to_lower_def char_code_char_of)

lemma to_lower_classes [simp]:
  "alnum (to_lower c) = alnum c" "ctype_ok (to_lower c) = ctype_ok c" "is_hex (to_lower c) = is_hex c"
  by (auto simp: to_lower_code alnum_def is_digit_def is_letter_def ctype_ok_def is_hex_def hex_value_def Let_def)

lemma filter_to_lower: "filter alnum (map to_lower s) = map to_lower (filter alnum s)"
  by (induction s) simp_all

lemma pair_bytes_to_lower:
  assumes "map to_lower s = concat (map hex_byte bs)" "list_all is_hex s"
  shows "pair_bytes s = bs"
proof -
  have "length s = 2 * length bs" using arg_cong [OF assms(1), of length] by (simp add: length_concat_hex)
  then have "concat (map hex_byte (pair_bytes s)) = concat (map hex_byte bs)"
    using concat_hex_pair_bytes [OF assms(2)] assms(1) by simp
  from arg_cong [OF this, of pair_bytes] show ?thesis by (simp add: pair_bytes_concat)
qed

section \<open>The text interface\<close>

locale uuid_text = hex_api + format_api
begin

lemma uuid_parse_to_string:
  assumes "uuid_wf u"
  shows "uuid_parse HexStringToBytes (uuid_to_string StrFormat_02x u) = Ret (Some u)"
  using assms
  by (simp add: uuid_parse_spec ctype_ok_of_string alnum_of_string length_concat_hex
        list_all_is_hex_concat pair_bytes_concat uuid_wf_def uuid_kSize_def)

lemma uuid_parse_sound:
  assumes "uuid_parse HexStringToBytes str = Ret (Some u)"
  shows "uuid_wf u"
    and "filter alnum (uuid_to_string StrFormat_02x u) = map to_lower (filter alnum str)"
  using assms
  by (auto simp: uuid_parse_spec alnum_of_string uuid_wf_def uuid_kSize_def length_pair_bytes
        concat_hex_pair_bytes split: if_splits)

text \<open>The texts of a UUID: its 32 digits in either case, among any other characters.\<close>

lemma uuid_parse_iff:
  assumes "uuid_wf u"
  shows "uuid_parse HexStringToBytes str = Ret (Some u) \<longleftrightarrow>
    list_all ctype_ok str \<and> map to_lower (filter alnum str) = filter alnum (uuid_to_string StrFormat_02x u)"
proof
  assume p: "uuid_parse HexStringToBytes str = Ret (Some u)"
  then have "list_all ctype_ok str" by (auto simp: uuid_parse_spec split: if_splits)
  then show "list_all ctype_ok str \<and> map to_lower (filter alnum str) = filter alnum (uuid_to_string StrFormat_02x u)"
    using uuid_parse_sound(2) [OF p] by simp
next
  assume a: "list_all ctype_ok str \<and> map to_lower (filter alnum str) = filter alnum (uuid_to_string StrFormat_02x u)"
  let ?s = "filter alnum str"
  have s: "map to_lower ?s = concat (map hex_byte (uuid_bytes u))" using a by (simp add: alnum_of_string)
  then have "list_all is_hex (map to_lower ?s)" by (simp add: list_all_is_hex_concat)
  then have hex: "list_all is_hex ?s" by (simp add: list.pred_map comp_def)
  have "length ?s = 32" using arg_cong [OF s, of length] assms
    by (simp add: length_concat_hex uuid_wf_def uuid_kSize_def)
  then show "uuid_parse HexStringToBytes str = Ret (Some u)"
    using a hex pair_bytes_to_lower [OF s hex] by (simp add: uuid_parse_spec)
qed

end

sublocale uuid_text \<subseteq> uuid: print_parse "uuid_to_string StrFormat_02x" "uuid_parse HexStringToBytes" uuid_wf
  by unfold_locales (rule uuid_parse_to_string)

interpretation ref_uuid: uuid_text ref_HexStringToBytes hex_byte
  by unfold_locales

section \<open>Properties\<close>

definition sample_uuid :: uuid where
  "sample_uuid = \<lparr>uuid_bytes = [0x12, 0x3e, 0x45, 0x67, 0xe8, 0x9b, 0x12, 0xd3,
                               0xa4, 0x56, 0x42, 0x66, 0x14, 0x17, 0x40, 0x00]\<rparr>"

lemma sample_uuid_wf: "uuid_wf sample_uuid"
  by (simp add: uuid_wf_def uuid_kSize_def sample_uuid_def)

lemma sample_uuid_text:
  "uuid_to_string hex_byte sample_uuid = ''123e4567-e89b-12d3-a456-426614174000''"
  by code_simp

text \<open>Parsing the printed form of a UUID returns the UUID, for every implementation of the
  hexadecimal conversions that keeps their documentation.\<close>

theorem uuid_text_roundtrip:
  assumes "uuid_text HexStringToBytes StrFormat_02x" and "uuid_wf u"
  shows "uuid_parse HexStringToBytes (uuid_to_string StrFormat_02x u) = Ret (Some u)"
  using assms(2) by (rule uuid_text.uuid_parse_to_string [OF assms(1)])

lemma uuid_text_roundtrip_witness:
  "uuid_parse ref_HexStringToBytes ''123e4567-e89b-12d3-a456-426614174000'' = Ret (Some sample_uuid)"
  using uuid_text_roundtrip [OF ref_uuid.uuid_text_axioms sample_uuid_wf]
  by (simp only: sample_uuid_text)

text \<open>UUID::parse accepts exactly the texts whose letters and digits are 32 hexadecimal digits,
  in any punctuation; it rejects every other text over the characters that isalnum may be called
  with, and is undefined on a text with any other character (a byte from 0x80 to 0xFE).\<close>

theorem uuid_parse_decides:
  assumes "hex_api HexStringToBytes"
  shows "uuid_parse HexStringToBytes str =
    (if \<not> list_all ctype_ok str then Undef Ctype_range
     else if length (filter alnum str) = 32 \<and> list_all is_hex (filter alnum str)
     then Ret (Some \<lparr>uuid_bytes = pair_bytes (filter alnum str)\<rparr>)
     else Ret None)"
  by (rule hex_api.uuid_parse_spec [OF assms])

lemma uuid_parse_decides_witness:
  "uuid_parse ref_HexStringToBytes ''123e4567-e89b-12d3-a45!-42661417400z'' = Ret None \<and>
   uuid_parse ref_HexStringToBytes [char_of (0xE9 :: nat)] = Undef Ctype_range"
proof -
  note decides = uuid_parse_decides [OF ref_hex.hex_api_axioms]
  have "\<not> list_all ctype_ok [char_of (0xE9 :: nat)]" by code_simp
  moreover have "list_all ctype_ok ''123e4567-e89b-12d3-a45!-42661417400z'' \<and>
      \<not> list_all is_hex (filter alnum ''123e4567-e89b-12d3-a45!-42661417400z'')" by code_simp
  ultimately show ?thesis
    using decides [of "[char_of (0xE9 :: nat)]"]
      decides [of "''123e4567-e89b-12d3-a45!-42661417400z''"] by presburger
qed

text \<open>The UUID that parse returns has sixteen bytes, and its printed form carries the digits
  of the parsed text, in order and in lower case.\<close>

theorem uuid_parse_normalises:
  assumes "uuid_text HexStringToBytes StrFormat_02x"
    and "uuid_parse HexStringToBytes str = Ret (Some u)"
  shows "uuid_wf u \<and>
    filter alnum (uuid_to_string StrFormat_02x u) = map to_lower (filter alnum str)"
  using uuid_text.uuid_parse_sound [OF assms] by simp

lemma uuid_parse_normalises_witness:
  "filter alnum (uuid_to_string hex_byte sample_uuid) =
     map to_lower (filter alnum ''{123E4567-E89B-12D3-A456-426614174000}'')"
proof -
  have "uuid_parse ref_HexStringToBytes ''{123E4567-E89B-12D3-A456-426614174000}''
      = Ret (Some sample_uuid)"
  proof -
    define s where "s = ''{123E4567-E89B-12D3-A456-426614174000}''"
    have "list_all ctype_ok s \<and> length (filter alnum s) = 32 \<and> list_all is_hex (filter alnum s)"
      unfolding s_def by code_simp
    moreover have "pair_bytes (filter alnum s) = uuid_bytes sample_uuid"
      unfolding s_def by code_simp
    ultimately show ?thesis
      by (simp only: ref_hex.uuid_parse_spec s_def [symmetric]) simp
  qed
  with uuid_parse_normalises [OF ref_uuid.uuid_text_axioms] show ?thesis by blast
qed

text \<open>C38: The texts of a UUID. It is printed in groups of 8, 4, 4, 4 and 12 digits, and that text is parsed to
  it again; and the texts that are parsed to it are exactly those with its 32 digits, in either case
  and with any punctuation, over the characters that isalnum may be called with.\<close>

theorem uuid_texts:
  assumes "uuid_text HexStringToBytes StrFormat_02x" and "uuid_wf u"
  shows "uuid_to_string StrFormat_02x u =
      join CHR ''-'' (map (\<lambda>(i, n). concat (map hex_byte (take n (drop i (uuid_bytes u)))))
        [(0, 4), (4, 2), (6, 2), (8, 2), (10, 6)]) \<and>
    uuid_parse HexStringToBytes (uuid_to_string StrFormat_02x u) = Ret (Some u) \<and>
    (uuid_parse HexStringToBytes str = Ret (Some u) \<longleftrightarrow>
      list_all ctype_ok str \<and> map to_lower (filter alnum str) = concat (map hex_byte (uuid_bytes u)))"
proof -
  have "format_api StrFormat_02x" using assms(1) by (simp add: uuid_text_def)
  then show ?thesis
    using uuid_text.uuid_parse_to_string [OF assms] uuid_text.uuid_parse_iff [OF assms, of str]
    by (simp only: format_api.uuid_to_string_layout assms(2) format_api.alnum_of_string flip: format_api.uuid_to_string_layout)
qed

theorem uuid_texts_witness:
  "uuid_parse ref_HexStringToBytes ''{123E4567e89b12d3A456426614174000}'' = Ret (Some sample_uuid)"
proof -
  have "list_all ctype_ok ''{123E4567e89b12d3A456426614174000}'' \<and>
      map to_lower (filter alnum ''{123E4567e89b12d3A456426614174000}'') = concat (map hex_byte (uuid_bytes sample_uuid))"
    by code_simp
  then show ?thesis using uuid_texts [OF ref_uuid.uuid_text_axioms sample_uuid_wf] by blast
qed

end
