(* ===== verification/Semver.thy ===== *)
theory Semver
  imports Abseil
begin

text \<open>
  Semantic versions (\<open>utils/semantic_version.h\<close>, \<open>utils/semantic_version.cpp\<close>, \<open>utils/error.h\<close>):
  three 64-bit numbers, their text form and their order. \<open>absl::StrSplit\<close> and \<open>absl::SimpleAtoi\<close>
  are parameters.
\<close>

section \<open>The code\<close>

datatype parse_error = InvalidFormat | ConversionFailed

datatype semantic_version =
  SemanticVersion (sv_major: u64) (sv_minor: u64) (sv_patch: u64)

definition semver_parse ::
  "(char \<Rightarrow> string \<Rightarrow> string list) \<Rightarrow> (string \<Rightarrow> u64 option) \<Rightarrow> string
     \<Rightarrow> (semantic_version, parse_error) expected" where
  "semver_parse StrSplit SimpleAtoi str =
     (let parts = StrSplit CHR ''.'' str in
      if length parts \<noteq> 3 then Inl InvalidFormat
      else
        (case SimpleAtoi (parts ! 0) of None \<Rightarrow> Inl InvalidFormat | Some major \<Rightarrow>
        (case SimpleAtoi (parts ! 1) of None \<Rightarrow> Inl InvalidFormat | Some minor \<Rightarrow>
        (case SimpleAtoi (parts ! 2) of None \<Rightarrow> Inl InvalidFormat | Some patch \<Rightarrow>
           Inr (SemanticVersion major minor patch)))))"

definition semver_to_string :: "semantic_version \<Rightarrow> string" where
  "semver_to_string v =
     std_to_string (unat (sv_major v)) @ ''.'' @ std_to_string (unat (sv_minor v)) @ ''.''
       @ std_to_string (unat (sv_patch v))"

text \<open>The defaulted \<open>operator<=>\<close>: the fields in declaration order, the first difference decides.\<close>

datatype strong_ordering = Less | Equal | Greater

definition compare_u64 :: "u64 \<Rightarrow> u64 \<Rightarrow> strong_ordering" where
  "compare_u64 a b = (if a < b then Less else if a = b then Equal else Greater)"

definition semver_compare :: "semantic_version \<Rightarrow> semantic_version \<Rightarrow> strong_ordering" where
  "semver_compare v w =
     (case compare_u64 (sv_major v) (sv_major w) of
        Equal \<Rightarrow>
          (case compare_u64 (sv_minor v) (sv_minor w) of
             Equal \<Rightarrow> compare_u64 (sv_patch v) (sv_patch w)
           | r \<Rightarrow> r)
      | r \<Rightarrow> r)"

section \<open>Versions are linearly ordered\<close>

definition sv_key :: "semantic_version \<Rightarrow> nat" where
  "sv_key v = (unat (sv_major v) * 2 ^ 64 + unat (sv_minor v)) * 2 ^ 64 + unat (sv_patch v)"

lemma radix_inject:
  "b < n \<Longrightarrow> d < n \<Longrightarrow> a * n + b = c * n + d \<longleftrightarrow> a = c \<and> b = (d :: nat)"
proof
  assume lt: "b < n" "d < n" and eq: "a * n + b = c * n + d"
  then have "(a * n + b) div n = (c * n + d) div n" by simp
  with lt have "a = c" by simp
  with eq show "a = c \<and> b = d" by simp
qed simp

lemma radix_less:
  assumes "b < n" and "d < n"
  shows "a * n + b < c * n + d \<longleftrightarrow> a < c \<or> a = c \<and> b < (d :: nat)"
proof (cases "a < c")
  case True
  then have "Suc a * n \<le> c * n" by (intro mult_le_mono1) simp
  with assms True show ?thesis by simp
next
  case False
  show ?thesis
  proof (cases "a = c")
    case False
    with \<open>\<not> a < c\<close> have "Suc c * n \<le> a * n" by (intro mult_le_mono1) simp
    with assms False \<open>\<not> a < c\<close> show ?thesis by simp
  qed simp
qed

lemma sv_key_inject: "sv_key v = sv_key w \<longleftrightarrow> v = w"
  by (cases v; cases w)
     (simp add: sv_key_def radix_inject u64_bound word_unat_eq_iff del: power_numeral)

instantiation semantic_version :: linorder
begin

definition less_eq_semantic_version :: "semantic_version \<Rightarrow> semantic_version \<Rightarrow> bool" where
  "v \<le> w \<longleftrightarrow> sv_key v \<le> sv_key w"

definition less_semantic_version :: "semantic_version \<Rightarrow> semantic_version \<Rightarrow> bool" where
  "v < w \<longleftrightarrow> sv_key v < sv_key w"

instance
  by standard (auto simp: less_eq_semantic_version_def less_semantic_version_def sv_key_inject)

end

lemma semver_less_iff:
  "v < w \<longleftrightarrow> sv_major v < sv_major w \<or> sv_major v = sv_major w \<and>
     (sv_minor v < sv_minor w \<or> sv_minor v = sv_minor w \<and> sv_patch v < sv_patch w)"
  by (auto simp: less_semantic_version_def sv_key_def radix_less radix_inject u64_bound
        word_less_nat_alt word_unat_eq_iff simp del: power_numeral)

section \<open>The text interface\<close>

lemma dot_not_digit: "\<not> is_digit CHR ''.''"
  by (simp add: is_digit_def char_code_def)

lemma dot_notin_to_string: "CHR ''.'' \<notin> set (std_to_string n)"
  using std_to_string_digits [of n] dot_not_digit by blast

lemma semver_to_string_join:
  "semver_to_string v = join CHR ''.''
     (map (\<lambda>f. std_to_string (unat (f v))) [sv_major, sv_minor, sv_patch])"
  by (simp add: semver_to_string_def)

locale semver_text = split_api + atoi_api
begin

lemma semver_parse_join:
  assumes "CHR ''.'' \<notin> set a" and "CHR ''.'' \<notin> set b" and "CHR ''.'' \<notin> set c"
  shows "semver_parse StrSplit SimpleAtoi (join CHR ''.'' [a, b, c]) =
    (case (SimpleAtoi a, SimpleAtoi b, SimpleAtoi c) of
       (Some x, Some y, Some z) \<Rightarrow> Inr (SemanticVersion x y z)
     | _ \<Rightarrow> Inl InvalidFormat)"
proof -
  have "StrSplit CHR ''.'' (join CHR ''.'' [a, b, c]) = [a, b, c]"
    by (rule split_join) (use assms in auto)
  then show ?thesis by (simp add: semver_parse_def split: option.splits)
qed

lemma semver_parse_to_string:
  "semver_parse StrSplit SimpleAtoi (semver_to_string v) = Inr v"
  unfolding semver_to_string_join list.map
  by (simp only: semver_parse_join dot_notin_to_string not_False_eq_True atoi_to_string) simp

lemma semver_parse_InrD:
  assumes "semver_parse StrSplit SimpleAtoi s = Inr v"
  obtains a b c where "s = join CHR ''.'' [a, b, c]"
    "SimpleAtoi a = Some (sv_major v)" "SimpleAtoi b = Some (sv_minor v)"
    "SimpleAtoi c = Some (sv_patch v)"
proof -
  from assms have "length (StrSplit CHR ''.'' s) = 3"
    by (simp add: semver_parse_def Let_def split: if_splits)
  then obtain a b c where parts: "StrSplit CHR ''.'' s = [a, b, c]"
    by (auto simp: numeral_eq_Suc length_Suc_conv)
  then have "SimpleAtoi a = Some (sv_major v) \<and> SimpleAtoi b = Some (sv_minor v) \<and>
      SimpleAtoi c = Some (sv_patch v)"
    using assms by (auto simp: semver_parse_def Let_def split: option.splits)
  with split_inverse [OF parts] show ?thesis using that by blast
qed

lemma semver_parse_error: "semver_parse StrSplit SimpleAtoi s = Inl e \<Longrightarrow> e = InvalidFormat"
  by (auto simp: semver_parse_def Let_def split: if_splits option.splits)

end

sublocale semver_text \<subseteq> semver: print_parse semver_to_string
  "\<lambda>s. Ret (case semver_parse StrSplit SimpleAtoi s of Inl _ \<Rightarrow> None | Inr v \<Rightarrow> Some v)" "\<lambda>_. True"
  by unfold_locales (simp add: semver_parse_to_string)

interpretation ref_semver: semver_text ref_StrSplit ref_SimpleAtoi
  by unfold_locales

section \<open>Properties\<close>

text \<open>The order the defaulted three-way comparison computes is the linear order of the
  versions, that is, of the triples (major, minor, patch).\<close>

theorem semver_compare_is_linear_order:
  "semver_compare v w = (if v < w then Less else if v = w then Equal else Greater)"
  by (cases v; cases w) (auto simp: semver_compare_def compare_u64_def semver_less_iff)

text \<open>Parsing a printed version returns it.\<close>

theorem semver_text_roundtrip:
  assumes "semver_text StrSplit SimpleAtoi"
  shows "semver_parse StrSplit SimpleAtoi (semver_to_string v) = Inr v"
  by (rule semver_text.semver_parse_to_string [OF assms])

lemma sample_version_text: "semver_to_string (SemanticVersion 1 2 3) = ''1.2.3''"
  by code_simp

lemma semver_text_roundtrip_witness:
  "semver_parse ref_StrSplit ref_SimpleAtoi ''1.2.3'' = Inr (SemanticVersion 1 2 3)"
  using semver_text_roundtrip [OF ref_semver.semver_text_axioms, of "SemanticVersion 1 2 3"]
  by (simp only: sample_version_text)

text \<open>Three groups of digits separated by dots are a version exactly when every group is
  non-empty and below 2^64; the version has the numbers the groups denote, leading zeros allowed,
  and everything else is InvalidFormat.\<close>

theorem semver_parse_digit_groups:
  assumes "semver_text StrSplit SimpleAtoi" and "\<forall>c \<in> set (x @ y @ z). is_digit c"
  shows "semver_parse StrSplit SimpleAtoi (join CHR ''.'' [x, y, z]) =
    (if list_all (\<lambda>g. g \<noteq> [] \<and> dec_value g < 2 ^ 64) [x, y, z]
     then Inr (SemanticVersion (of_nat (dec_value x)) (of_nat (dec_value y)) (of_nat (dec_value z)))
     else Inl InvalidFormat)"
proof -
  note atoi = semver_text.axioms(2) [OF assms(1)]
  have free: "CHR ''.'' \<notin> set x" "CHR ''.'' \<notin> set y" "CHR ''.'' \<notin> set z"
    using assms(2) dot_not_digit by auto
  have group: "SimpleAtoi g =
      (if g \<noteq> [] \<and> dec_value g < 2 ^ 64 then Some (of_nat (dec_value g)) else None)"
    if "\<forall>c \<in> set g. is_digit c" for g
    using atoi_api.atoi_digits [OF atoi, of g] atoi_api.atoi_empty [OF atoi] that
    by (cases "g = []") auto
  from assms(2) have digits: "\<forall>c \<in> set x. is_digit c" "\<forall>c \<in> set y. is_digit c"
    "\<forall>c \<in> set z. is_digit c" by auto
  show ?thesis
    unfolding semver_text.semver_parse_join [OF assms(1) free] group [OF digits(1)]
      group [OF digits(2)] group [OF digits(3)]
    by auto
qed

lemma semver_parse_digit_groups_witness:
  "semver_parse ref_StrSplit ref_SimpleAtoi ''1.02.18446744073709551615'' =
     Inr (SemanticVersion 1 2 18446744073709551615) \<and>
   semver_parse ref_StrSplit ref_SimpleAtoi ''1.02.18446744073709551616'' = Inl InvalidFormat"
proof -
  note groups = semver_parse_digit_groups [OF ref_semver.semver_text_axioms]
  have digits: "\<forall>c \<in> set (''1'' @ ''02'' @ ''18446744073709551615''). is_digit c"
      "\<forall>c \<in> set (''1'' @ ''02'' @ ''18446744073709551616''). is_digit c"
    by code_simp+
  have nums: "dec_value ''1'' = 1" "dec_value ''02'' = 2"
      "dec_value ''18446744073709551615'' = 18446744073709551615"
      "dec_value ''18446744073709551616'' = 18446744073709551616"
    by (simp_all add: dec_value_def char_code_def)
  show ?thesis
    using groups [OF digits(1)] groups [OF digits(2)] by (simp add: nums)
qed

lemma count_join:
  "ts \<noteq> [] \<Longrightarrow> \<forall>t \<in> set ts. d \<notin> set t \<Longrightarrow> Suc (count_list (join d ts) d) = length ts"
  by (induction d ts rule: join.induct) (auto simp: count_notin)

lemma set_join: "c \<in> set (join d ts) \<Longrightarrow> c \<noteq> d \<Longrightarrow> \<exists>t \<in> set ts. c \<in> set t"
  by (induction d ts rule: join.induct) auto

text \<open>A text without exactly two dots, or with a character that no number can contain, is
  rejected with InvalidFormat.\<close>

theorem semver_parse_rejects:
  assumes "semver_text StrSplit SimpleAtoi"
    and "count_list s CHR ''.'' \<noteq> 2 \<or> (\<exists>c \<in> set s. c \<noteq> CHR ''.'' \<and> \<not> is_atoi_char c)"
  shows "semver_parse StrSplit SimpleAtoi s = Inl InvalidFormat"
proof (cases "semver_parse StrSplit SimpleAtoi s")
  case (Inl e)
  then show ?thesis using semver_text.semver_parse_error [OF assms(1)] by simp
next
  case (Inr v)
  note pieces = semver_text.axioms(1) [OF assms(1)] and atoi = semver_text.axioms(2) [OF assms(1)]
  from Inr have "length (StrSplit CHR ''.'' s) = 3"
    by (simp add: semver_parse_def Let_def split: if_splits)
  moreover have "Suc (count_list s CHR ''.'') = length (StrSplit CHR ''.'' s)"
    using count_join [of "StrSplit CHR ''.'' s" "CHR ''.''"] split_api.split_nonempty [OF pieces]
      split_api.split_delimiter [OF pieces] by (auto simp: split_api.split_pieces [OF pieces])
  ultimately obtain c where c: "c \<in> set s" "c \<noteq> CHR ''.''" "\<not> is_atoi_char c"
    using assms(2) by auto
  obtain x y z where "s = join CHR ''.'' [x, y, z]" and
    num: "SimpleAtoi x = Some (sv_major v)" "SimpleAtoi y = Some (sv_minor v)"
      "SimpleAtoi z = Some (sv_patch v)"
    using semver_text.semver_parse_InrD [OF assms(1) Inr] .
  with set_join c obtain t where "t \<in> set [x, y, z]" "c \<in> set t" by metis
  with atoi_api.atoi_invalid [OF atoi, of c t] c num show ?thesis by auto
qed

lemma semver_parse_rejects_witness:
  "semver_parse ref_StrSplit ref_SimpleAtoi ''1.2.b'' = Inl InvalidFormat \<and>
   semver_parse ref_StrSplit ref_SimpleAtoi [] = Inl InvalidFormat"
proof -
  note rejects = semver_parse_rejects [OF ref_semver.semver_text_axioms]
  have "\<exists>c \<in> set ''1.2.b''. c \<noteq> CHR ''.'' \<and> \<not> is_atoi_char c" by code_simp
  then show ?thesis using rejects [of "''1.2.b''"] rejects [of "[]"] by simp
qed

text \<open>A number in a text: digits that 64 bits can hold, leading zeros allowed.\<close>

definition number :: "string \<Rightarrow> bool" where
  "number g \<longleftrightarrow> g \<noteq> [] \<and> list_all is_digit g \<and> dec_value g < 2 ^ 64"

lemma semver_parse_numbers:
  assumes "semver_text StrSplit SimpleAtoi" and "list_all number [x, y, z]"
  shows "semver_parse StrSplit SimpleAtoi (join CHR ''.'' [x, y, z]) =
    Inr (SemanticVersion (of_nat (dec_value x)) (of_nat (dec_value y)) (of_nat (dec_value z)))"
proof -
  have "\<forall>c \<in> set (x @ y @ z). is_digit c" using assms(2) by (auto simp: number_def list_all_iff)
  from semver_parse_digit_groups [OF assms(1) this] show ?thesis using assms(2) by (simp add: number_def)
qed

lemma number_unat: "number g \<Longrightarrow> unat (of_nat (dec_value g) :: u64) = dec_value g"
  by (simp add: number_def unat_of_nat)

text \<open>C40: Texts of versions compare as their numbers do: two texts of three numbers are parsed, the first
  number that differs decides, whatever the leading zeros, and the version of each text is printed to a
  text that is parsed to it again.\<close>

theorem semver_texts_compare:
  assumes "semver_text StrSplit SimpleAtoi" and "list_all number [x, y, z]" and "list_all number [x', y', z']"
  shows "\<exists>v w. semver_parse StrSplit SimpleAtoi (join CHR ''.'' [x, y, z]) = Inr v \<and>
    semver_parse StrSplit SimpleAtoi (join CHR ''.'' [x', y', z']) = Inr w \<and>
    semver_parse StrSplit SimpleAtoi (semver_to_string v) = Inr v \<and>
    semver_compare v w =
      (if dec_value x < dec_value x' \<or> dec_value x = dec_value x' \<and>
          (dec_value y < dec_value y' \<or> dec_value y = dec_value y' \<and> dec_value z < dec_value z') then Less
       else if dec_value x = dec_value x' \<and> dec_value y = dec_value y' \<and> dec_value z = dec_value z' then Equal
       else Greater)"
proof -
  let ?v = "SemanticVersion (of_nat (dec_value x)) (of_nat (dec_value y)) (of_nat (dec_value z))"
  let ?w = "SemanticVersion (of_nat (dec_value x')) (of_nat (dec_value y')) (of_nat (dec_value z'))"
  have "unat (of_nat (dec_value g) :: u64) = dec_value g" if "g \<in> {x, y, z, x', y', z'}" for g
    using that assms(2,3) by (intro number_unat) auto
  then have "semver_compare ?v ?w =
      (if dec_value x < dec_value x' \<or> dec_value x = dec_value x' \<and>
          (dec_value y < dec_value y' \<or> dec_value y = dec_value y' \<and> dec_value z < dec_value z') then Less
       else if dec_value x = dec_value x' \<and> dec_value y = dec_value y' \<and> dec_value z = dec_value z' then Equal
       else Greater)"
    by (simp add: semver_compare_is_linear_order semver_less_iff word_less_nat_alt word_unat_eq_iff)
  then show ?thesis
    using semver_parse_numbers [OF assms(1,2)] semver_parse_numbers [OF assms(1,3)]
      semver_text.semver_parse_to_string [OF assms(1), of ?v] by blast
qed

theorem semver_texts_compare_witness:
  "\<exists>v w. semver_parse ref_StrSplit ref_SimpleAtoi ''1.09.3'' = Inr v \<and>
    semver_parse ref_StrSplit ref_SimpleAtoi ''1.10.0'' = Inr w \<and> semver_compare v w = Less"
proof -
  have nums: "list_all number [''1'', ''09'', ''3'']" "list_all number [''1'', ''10'', ''0'']"
    by (simp_all add: number_def is_digit_def dec_value_def char_code_def)
  show ?thesis using semver_texts_compare [OF ref_semver.semver_text_axioms nums]
    by (simp add: dec_value_def char_code_def) blast
qed

end
