(* ===== verification/Multiaddr.thy ===== *)
theory Multiaddr
  imports Uuid Semver
begin

text \<open>
  Multiaddresses and their text form (\<open>utils/multiaddr.h\<close>, \<open>utils/multiaddr.cpp\<close>): a list of
  protocols, of which Bluetooth LE is the only one, and an optional version. The binary form is in
  the theory \<open>Multiaddr_Raw\<close>.

  An iterator into the vector of tokens is represented by the tokens from its position to the end.
  A \<open>std::unique_ptr<Protocol>\<close> is represented by the object it owns; its only dynamic type is
  \<open>BluetoothAddress\<close>, a record that extends \<open>Protocol\<close> as the struct does. \<open>%s\<close> in a format string
  is concatenation.
\<close>

section \<open>The code: data\<close>

record protocol =
  protocol_name :: string
  protocol_code :: u8

record bluetooth_address = protocol +
  address :: uuid

record multiaddr =
  protocols :: "bluetooth_address list"
  multiaddr_identifier :: bytes
  version :: "semantic_version option"

definition BluetoothAddress :: "uuid \<Rightarrow> bluetooth_address" where
  "BluetoothAddress addr = \<lparr>protocol_name = ''btle'', protocol_code = 98, address = addr\<rparr>"

definition bluetooth_to_string :: "(u8 \<Rightarrow> string) \<Rightarrow> bluetooth_address \<Rightarrow> string" where
  "bluetooth_to_string StrFormat_02x p = uuid_to_string StrFormat_02x (address p)"

definition bluetooth_raw :: "bluetooth_address \<Rightarrow> bytes" where
  "bluetooth_raw p = uuid_bytes (address p)"

definition empty_multiaddr :: multiaddr where
  "empty_multiaddr = \<lparr>protocols = [], multiaddr_identifier = [], version = None\<rparr>"

section \<open>The code: MultiaddrStringTokenizer\<close>

record string_tokenizer =
  remaining_tokens :: "string list"

definition string_tokenizer :: "(char \<Rightarrow> string \<Rightarrow> string list) \<Rightarrow> string \<Rightarrow> string_tokenizer" where
  "string_tokenizer StrSplit str = \<lparr>remaining_tokens = StrSplit CHR ''/'' str\<rparr>"

definition st_next :: "string_tokenizer \<Rightarrow> string option \<times> string_tokenizer" where
  "st_next t =
     (case remaining_tokens t of
        [] \<Rightarrow> (None, t)
      | x # xs \<Rightarrow> (Some x, t\<lparr>remaining_tokens := xs\<rparr>))"

definition st_is_done :: "string_tokenizer \<Rightarrow> bool" where
  "st_is_done t \<longleftrightarrow> remaining_tokens t = [] \<or> tl (remaining_tokens t) = []"

section \<open>The code: parsing and printing\<close>

text \<open>\<open>iter.next().value()\<close> throws when there is no next token.\<close>

definition parse_to_protocol ::
  "(string \<Rightarrow> string option) \<Rightarrow> string_tokenizer \<Rightarrow>
     (bluetooth_address option \<times> string_tokenizer) outcome" where
  "parse_to_protocol HexStringToBytes iter =
     (case st_next iter of
        (None, iter') \<Rightarrow> Throw Bad_optional_access
      | (Some str, iter') \<Rightarrow>
          obind (uuid_parse HexStringToBytes str) (\<lambda>r. Ret (map_option BluetoothAddress r, iter')))"

definition protocol_parsers ::
  "(string \<Rightarrow> string option) \<Rightarrow> string \<rightharpoonup>
     (string_tokenizer \<Rightarrow> (bluetooth_address option \<times> string_tokenizer) outcome)" where
  "protocol_parsers HexStringToBytes = [''btle'' \<mapsto> parse_to_protocol HexStringToBytes]"

function multiaddr_parse_loop ::
  "(char \<Rightarrow> string \<Rightarrow> string list) \<Rightarrow> (string \<Rightarrow> u64 option) \<Rightarrow> (string \<Rightarrow> string option) \<Rightarrow>
     string_tokenizer \<Rightarrow> multiaddr \<Rightarrow> multiaddr option outcome" where
  "multiaddr_parse_loop StrSplit SimpleAtoi HexStringToBytes tokenizer multiaddr =
     (case st_next tokenizer of
        (None, t) \<Rightarrow> Ret (Some multiaddr)
      | (Some protocol, t) \<Rightarrow>
          if protocol = []
          then multiaddr_parse_loop StrSplit SimpleAtoi HexStringToBytes t multiaddr
          else
            (case protocol_parsers HexStringToBytes protocol of
               Some parser \<Rightarrow>
                 obind (parser t) (\<lambda>(protocol_opt, t').
                   try_unwrap_optional protocol_opt (\<lambda>protocol_result.
                     multiaddr_parse_loop StrSplit SimpleAtoi HexStringToBytes t'
                       (multiaddr\<lparr>protocols := protocols multiaddr @ [protocol_result]\<rparr>)))
             | None \<Rightarrow>
                 if st_is_done t
                 then (case semver_parse StrSplit SimpleAtoi protocol of
                         Inl e \<Rightarrow> Ret None
                       | Inr v \<Rightarrow> Ret (Some (multiaddr\<lparr>version := Some v\<rparr>)))
                 else Ret None))"
  by pat_completeness auto
termination
proof (relation "measure (\<lambda>(sp, at, h, t, m). length (remaining_tokens t))", goal_cases)
  case 1
  show ?case by simp
next
  case 2
  then show ?case by (auto simp: st_next_def split: list.splits)
next
  case 3
  then show ?case
    by (auto simp: st_next_def protocol_parsers_def parse_to_protocol_def outcome_simps
          split: list.splits if_splits)
qed

declare multiaddr_parse_loop.simps [simp del]

definition multiaddr_parse ::
  "(char \<Rightarrow> string \<Rightarrow> string list) \<Rightarrow> (string \<Rightarrow> u64 option) \<Rightarrow> (string \<Rightarrow> string option) \<Rightarrow>
     string \<Rightarrow> multiaddr option outcome" where
  "multiaddr_parse StrSplit SimpleAtoi HexStringToBytes str =
     multiaddr_parse_loop StrSplit SimpleAtoi HexStringToBytes
       (string_tokenizer StrSplit str) empty_multiaddr"

definition multiaddr_to_string :: "(u8 \<Rightarrow> string) \<Rightarrow> multiaddr \<Rightarrow> string" where
  "multiaddr_to_string StrFormat_02x m =
     (let result = foldl (\<lambda>result protocol. result @ ''/'' @ protocol_name protocol @ ''/''
                            @ bluetooth_to_string StrFormat_02x protocol) [] (protocols m)
      in case version m of
           None \<Rightarrow> result
         | Some v \<Rightarrow> result @ ''/'' @ semver_to_string v)"

section \<open>The loop, one token at a time\<close>

abbreviation parse_tokens ::
  "(char \<Rightarrow> string \<Rightarrow> string list) \<Rightarrow> (string \<Rightarrow> u64 option) \<Rightarrow> (string \<Rightarrow> string option) \<Rightarrow>
     string list \<Rightarrow> multiaddr \<Rightarrow> multiaddr option outcome" where
  "parse_tokens StrSplit SimpleAtoi HexStringToBytes ts m \<equiv>
     multiaddr_parse_loop StrSplit SimpleAtoi HexStringToBytes \<lparr>remaining_tokens = ts\<rparr> m"

lemma parse_tokens_Nil: "parse_tokens sp at hx [] m = Ret (Some m)"
  by (subst multiaddr_parse_loop.simps) (simp add: st_next_def)

lemma parse_tokens_empty: "parse_tokens sp at hx ([] # ts) m = parse_tokens sp at hx ts m"
  by (subst multiaddr_parse_loop.simps) (simp add: st_next_def)

lemma parse_tokens_btle_last: "parse_tokens sp at hx [''btle''] m = Throw Bad_optional_access"
  by (subst multiaddr_parse_loop.simps)
     (simp add: st_next_def protocol_parsers_def parse_to_protocol_def)

lemma parse_tokens_btle:
  "parse_tokens sp at hx (''btle'' # t # ts) m =
     obind (uuid_parse hx t) (\<lambda>r.
       case r of None \<Rightarrow> Ret None
       | Some u \<Rightarrow> parse_tokens sp at hx ts (m\<lparr>protocols := protocols m @ [BluetoothAddress u]\<rparr>))"
  by (subst multiaddr_parse_loop.simps, cases "uuid_parse hx t")
     (auto simp: st_next_def protocol_parsers_def parse_to_protocol_def split: option.splits)

lemma parse_tokens_other:
  "t \<noteq> [] \<Longrightarrow> t \<noteq> ''btle'' \<Longrightarrow> parse_tokens sp at hx (t # ts) m =
     (if length ts \<le> 1
      then (case semver_parse sp at t of Inl e \<Rightarrow> Ret None
            | Inr v \<Rightarrow> Ret (Some (m\<lparr>version := Some v\<rparr>)))
      else Ret None)"
proof -
  assume t: "t \<noteq> []" "t \<noteq> ''btle''"
  then have "protocol_parsers hx t = None" by (simp add: protocol_parsers_def)
  moreover have "st_is_done \<lparr>remaining_tokens = ts\<rparr> \<longleftrightarrow> length ts \<le> 1"
    by (cases ts) (auto simp: st_is_done_def le_Suc_eq)
  ultimately show ?thesis
    using t(1) by (subst multiaddr_parse_loop.simps) (simp add: st_next_def)
qed

lemmas parse_tokens_simps =
  parse_tokens_Nil parse_tokens_empty parse_tokens_btle_last parse_tokens_btle parse_tokens_other

text \<open>Case analysis on the head of the token list, with induction hypotheses for the two
  recursive cases.\<close>

lemma parse_tokens_induct [case_names Nil Empty Btle_last Btle Other]:
  assumes "\<And>m. P [] m"
    and "\<And>ts m. P ts m \<Longrightarrow> P ([] # ts) m"
    and "\<And>m. P [''btle''] m"
    and "\<And>t ts m. (\<And>u. P ts (m\<lparr>protocols := protocols m @ [BluetoothAddress u]\<rparr>)) \<Longrightarrow>
           P (''btle'' # t # ts) m"
    and "\<And>t ts m. t \<noteq> [] \<Longrightarrow> t \<noteq> ''btle'' \<Longrightarrow> P (t # ts) m"
  shows "P ts m"
proof (induction "length ts" arbitrary: ts m rule: less_induct)
  case (less ts m)
  show ?case
  proof (cases ts)
    case Nil
    with assms(1) show ?thesis by simp
  next
    case (Cons t us)
    consider "t = []" | "t = ''btle''" "us = []" | u vs where "t = ''btle''" "us = u # vs"
      | "t \<noteq> []" "t \<noteq> ''btle''" by (cases us) auto
    then show ?thesis
    proof cases
      case 1
      have "P us m" by (rule less) (simp add: Cons)
      with Cons 1 assms(2) show ?thesis by simp
    next
      case 2
      with Cons assms(3) show ?thesis by simp
    next
      case 3
      have "P vs n" for n by (rule less) (simp add: Cons 3)
      with Cons 3 assms(4) show ?thesis by simp
    next
      case 4
      with Cons assms(5) show ?thesis by simp
    qed
  qed
qed

section \<open>Well-formed addresses and their tokens\<close>

definition bluetooth_wf :: "bluetooth_address \<Rightarrow> bool" where
  "bluetooth_wf p \<longleftrightarrow> p = BluetoothAddress (address p) \<and> uuid_wf (address p)"

definition multiaddr_wf :: "multiaddr \<Rightarrow> bool" where
  "multiaddr_wf m \<longleftrightarrow> multiaddr_identifier m = [] \<and> list_all bluetooth_wf (protocols m)"

lemma bluetooth_wfD:
  assumes "bluetooth_wf p"
  shows "BluetoothAddress (address p) = p" and "uuid_wf (address p)"
  using assms unfolding bluetooth_wf_def by (rule conjunct1 [THEN sym], blast)

lemma bluetooth_wf_name: "bluetooth_wf p \<Longrightarrow> protocol_name p = ''btle''"
  by (metis bluetooth_wf_def BluetoothAddress_def protocol.select_convs(1))

lemma bluetooth_wf_BluetoothAddress: "bluetooth_wf (BluetoothAddress u) \<longleftrightarrow> uuid_wf u"
  by (simp add: bluetooth_wf_def BluetoothAddress_def)

definition protocol_tokens :: "(u8 \<Rightarrow> string) \<Rightarrow> bluetooth_address list \<Rightarrow> string list" where
  "protocol_tokens f ps = concat (map (\<lambda>p. [protocol_name p, bluetooth_to_string f p]) ps)"

definition version_tokens :: "semantic_version option \<Rightarrow> string list" where
  "version_tokens v = (case v of None \<Rightarrow> [] | Some v \<Rightarrow> [semver_to_string v])"

abbreviation slashed :: "string list \<Rightarrow> string" where
  "slashed ts \<equiv> concat (map (Cons CHR ''/'') ts)"

lemma join_slashed: "join CHR ''/'' (t # ts) = t @ slashed ts"
  by (induction ts arbitrary: t) simp_all

lemma multiaddr_to_string_slashed:
  "multiaddr_to_string f m = slashed (protocol_tokens f (protocols m) @ version_tokens (version m))"
proof -
  have fold: "foldl (\<lambda>result protocol. result @ ''/'' @ protocol_name protocol @ ''/''
        @ bluetooth_to_string f protocol) r ps = r @ slashed (protocol_tokens f ps)" for r ps
    by (induction ps arbitrary: r) (simp_all add: protocol_tokens_def)
  show ?thesis
    unfolding multiaddr_to_string_def Let_def fold
    by (simp add: version_tokens_def split: option.split)
qed

lemma slash_notin_semver: "CHR ''/'' \<notin> set (semver_to_string v)"
proof -
  have "CHR ''/'' \<notin> set (std_to_string n)" for n
    using std_to_string_digits [of n] by (auto simp: is_digit_def char_code_def)
  then show ?thesis by (simp add: semver_to_string_def)
qed

lemma semver_token: "semver_to_string v \<noteq> [] \<and> semver_to_string v \<noteq> ''btle''"
proof -
  have "CHR ''.'' \<in> set (semver_to_string v)" by (simp add: semver_to_string_def)
  then show ?thesis by auto
qed

section \<open>The text interface\<close>

locale multiaddr_text = uuid_text + semver_text
begin

abbreviation parse :: "string \<Rightarrow> multiaddr option outcome" where
  "parse \<equiv> multiaddr_parse StrSplit SimpleAtoi HexStringToBytes"

abbreviation ptokens :: "string list \<Rightarrow> multiaddr \<Rightarrow> multiaddr option outcome" where
  "ptokens \<equiv> parse_tokens StrSplit SimpleAtoi HexStringToBytes"

abbreviation show_addr :: "multiaddr \<Rightarrow> string" where
  "show_addr \<equiv> multiaddr_to_string StrFormat_02x"

lemma slash_notin_uuid: "CHR ''/'' \<notin> set (uuid_to_string StrFormat_02x u)"
proof -
  have "hex_value CHR ''/'' = None" by (simp add: hex_value_def char_code_def)
  then have "CHR ''/'' \<notin> set (dash i @ hex_byte b)" for i b
    using is_hex_hex_byte [of b] by (auto simp: dash_def list_all_iff is_hex_def)
  then show ?thesis by (auto simp: uuid_to_string_concat)
qed

lemma slash_notin_tokens:
  "list_all bluetooth_wf ps \<Longrightarrow> t \<in> set (protocol_tokens StrFormat_02x ps) \<Longrightarrow> CHR ''/'' \<notin> set t"
  by (auto simp: protocol_tokens_def list_all_iff bluetooth_wf_name bluetooth_to_string_def
        slash_notin_uuid split: if_splits)

lemma parse_slashed:
  "\<forall>t \<in> set ts. CHR ''/'' \<notin> set t \<Longrightarrow> parse (slashed ts) = ptokens ts empty_multiaddr"
proof -
  assume "\<forall>t \<in> set ts. CHR ''/'' \<notin> set t"
  then have "StrSplit CHR ''/'' (join CHR ''/'' ([] # ts)) = [] # ts"
    by (intro split_join) auto
  then show ?thesis
    by (simp add: multiaddr_parse_def string_tokenizer_def join_slashed parse_tokens_empty)
qed

lemma ptokens_protocols:
  "list_all bluetooth_wf ps \<Longrightarrow> ptokens (protocol_tokens StrFormat_02x ps @ ts) m =
     ptokens ts (m\<lparr>protocols := protocols m @ ps\<rparr>)"
proof (induction ps arbitrary: m)
  case Nil
  then show ?case by (simp add: protocol_tokens_def)
next
  case (Cons p ps)
  then have p: "protocol_name p = ''btle''" "uuid_wf (address p)" "BluetoothAddress (address p) = p"
    by (simp_all add: bluetooth_wf_name bluetooth_wfD)
  have "ptokens (protocol_tokens StrFormat_02x (p # ps) @ ts) m =
      ptokens (protocol_tokens StrFormat_02x ps @ ts) (m\<lparr>protocols := protocols m @ [p]\<rparr>)"
    using p by (simp add: protocol_tokens_def bluetooth_to_string_def parse_tokens_btle
                  uuid_parse_to_string)
  with Cons show ?case by simp
qed

text \<open>What follows the protocols of an address: nothing, or one more component and a rest.\<close>

lemma parse_tail:
  assumes "multiaddr_wf m" and "version m = None" and "\<forall>t \<in> set ts. CHR ''/'' \<notin> set t"
  shows "parse (show_addr m @ slashed ts) = ptokens ts m"
proof -
  from assms have ps: "list_all bluetooth_wf (protocols m)" by (simp add: multiaddr_wf_def)
  have "show_addr m @ slashed ts = slashed (protocol_tokens StrFormat_02x (protocols m) @ ts)"
    using assms(2) by (simp add: multiaddr_to_string_slashed version_tokens_def)
  moreover have "\<forall>t \<in> set (protocol_tokens StrFormat_02x (protocols m) @ ts). CHR ''/'' \<notin> set t"
    using slash_notin_tokens [OF ps] assms(3) by auto
  ultimately have "parse (show_addr m @ slashed ts) =
      ptokens (protocol_tokens StrFormat_02x (protocols m) @ ts) empty_multiaddr"
    by (simp only: parse_slashed)
  also have "\<dots> = ptokens ts (empty_multiaddr\<lparr>protocols := [] @ protocols m\<rparr>)"
    by (simp add: ptokens_protocols [OF ps] empty_multiaddr_def)
  also have "empty_multiaddr\<lparr>protocols := [] @ protocols m\<rparr> = m"
    using assms by (simp add: multiaddr_wf_def empty_multiaddr_def)
  finally show ?thesis .
qed

lemma parse_to_string:
  assumes "multiaddr_wf m"
  shows "parse (show_addr m) = Ret (Some m)"
proof -
  define base where "base = m\<lparr>version := None\<rparr>"
  have base: "multiaddr_wf base" "version base = None"
    using assms by (simp_all add: base_def multiaddr_wf_def)
  have "show_addr m = show_addr base @ slashed (version_tokens (version m))"
    by (simp add: multiaddr_to_string_slashed base_def version_tokens_def split: option.split)
  then have "parse (show_addr m) = ptokens (version_tokens (version m)) base"
    by (simp only:, intro parse_tail [OF base])
       (auto simp: version_tokens_def slash_notin_semver split: option.splits)
  also have "\<dots> = Ret (Some m)"
    using semver_token
    by (cases "version m")
       (simp_all add: version_tokens_def parse_tokens_simps semver_parse_to_string base_def)
  finally show ?thesis .
qed

lemma ptokens_wf: "ptokens ts m = Ret (Some m') \<Longrightarrow> multiaddr_wf m \<Longrightarrow> multiaddr_wf m'"
proof (induction ts m rule: parse_tokens_induct)
  case (Btle t ts m)
  then obtain u where u: "uuid_parse HexStringToBytes t = Ret (Some u)"
      "ptokens ts (m\<lparr>protocols := protocols m @ [BluetoothAddress u]\<rparr>) = Ret (Some m')"
    by (auto simp: parse_tokens_btle outcome_simps split: option.splits)
  moreover have "uuid_wf u" using uuid_parse_sound(1) [OF u(1)] .
  ultimately show ?case
    using Btle by (simp add: multiaddr_wf_def bluetooth_wf_BluetoothAddress)
qed (auto simp: parse_tokens_simps multiaddr_wf_def split: if_splits sum.splits)

lemma parse_wf: "parse s = Ret (Some m) \<Longrightarrow> multiaddr_wf m"
  unfolding multiaddr_parse_def string_tokenizer_def
  by (erule ptokens_wf) (simp add: multiaddr_wf_def empty_multiaddr_def)

lemma ptokens_outcome:
  "\<forall>t \<in> set ts. list_all ctype_ok t \<Longrightarrow>
     returns (ptokens ts m) \<or>
     ptokens ts m = Throw Bad_optional_access \<and> ts \<noteq> [] \<and> last ts = ''btle''"
proof (induction ts m rule: parse_tokens_induct)
  case (Btle t ts m)
  then have "uuid_parse HexStringToBytes t \<noteq> Undef Ctype_range" by (simp add: uuid_parse_spec)
  then consider "uuid_parse HexStringToBytes t = Ret None"
    | u where "uuid_parse HexStringToBytes t = Ret (Some u)"
    by (auto simp: uuid_parse_spec split: if_splits)
  then show ?case using Btle by cases (auto simp: parse_tokens_btle)
qed (auto simp: parse_tokens_simps split: sum.splits)

end

sublocale multiaddr_text \<subseteq> multiaddr: print_parse
  "multiaddr_to_string StrFormat_02x" "multiaddr_parse StrSplit SimpleAtoi HexStringToBytes"
  multiaddr_wf
  by unfold_locales (rule parse_to_string)

interpretation ref_multiaddr: multiaddr_text ref_HexStringToBytes hex_byte ref_StrSplit ref_SimpleAtoi
  by unfold_locales

section \<open>Properties\<close>

definition sample_multiaddr :: multiaddr where
  "sample_multiaddr =
     \<lparr>protocols = [BluetoothAddress sample_uuid], multiaddr_identifier = [],
      version = Some (SemanticVersion 1 2 3)\<rparr>"

lemma sample_multiaddr_wf: "multiaddr_wf sample_multiaddr"
  by (simp add: sample_multiaddr_def multiaddr_wf_def bluetooth_wf_BluetoothAddress sample_uuid_wf)

lemma sample_multiaddr_text:
  "multiaddr_to_string hex_byte sample_multiaddr =
     ''/btle/123e4567-e89b-12d3-a456-426614174000/1.2.3''"
  by (simp add: multiaddr_to_string_def sample_multiaddr_def bluetooth_to_string_def
        BluetoothAddress_def sample_uuid_text sample_version_text)

text \<open>C1: parsing the printed form of a well-formed address, with any number of Bluetooth
  components and with or without a version, returns the address.\<close>

theorem multiaddr_text_roundtrip:
  assumes "multiaddr_text HexStringToBytes StrFormat_02x StrSplit SimpleAtoi"
    and "multiaddr_wf m"
  shows "multiaddr_parse StrSplit SimpleAtoi HexStringToBytes (multiaddr_to_string StrFormat_02x m)
     = Ret (Some m)"
  using assms(2) by (rule multiaddr_text.parse_to_string [OF assms(1)])

lemma multiaddr_text_roundtrip_witness:
  "multiaddr_parse ref_StrSplit ref_SimpleAtoi ref_HexStringToBytes
     ''/btle/123e4567-e89b-12d3-a456-426614174000/1.2.3'' = Ret (Some sample_multiaddr)"
  using multiaddr_text_roundtrip [OF ref_multiaddr.multiaddr_text_axioms sample_multiaddr_wf]
  by (simp only: sample_multiaddr_text)

text \<open>C32: whatever text parse accepts, the address it returns is well-formed: every component is a
  \<open>btle\<close> component with a sixteen-byte UUID, and the identifier is empty. Printing and parsing it
  again changes nothing.\<close>

theorem multiaddr_parse_normalises:
  assumes "multiaddr_text HexStringToBytes StrFormat_02x StrSplit SimpleAtoi"
    and "multiaddr_parse StrSplit SimpleAtoi HexStringToBytes s = Ret (Some m)"
  shows "multiaddr_wf m \<and>
    multiaddr_parse StrSplit SimpleAtoi HexStringToBytes (multiaddr_to_string StrFormat_02x m)
      = Ret (Some m)"
  using multiaddr_text.parse_wf [OF assms] multiaddr_text.parse_to_string [OF assms(1)] by blast

text \<open>How parse treats what follows the Bluetooth components. A component other than \<open>btle\<close> is
  read as the version when at most one component follows it, and that following component is
  ignored whatever it is; with two or more following components the text is rejected.\<close>

theorem multiaddr_parse_after_protocols:
  assumes "multiaddr_text HexStringToBytes StrFormat_02x StrSplit SimpleAtoi"
    and "multiaddr_wf m" and "version m = None"
    and "t \<noteq> []" and "t \<noteq> ''btle''" and "\<forall>x \<in> set (t # rest). CHR ''/'' \<notin> set x"
  shows "multiaddr_parse StrSplit SimpleAtoi HexStringToBytes
      (multiaddr_to_string StrFormat_02x m @ concat (map (Cons CHR ''/'') (t # rest))) =
    (if length rest \<le> 1
     then (case semver_parse StrSplit SimpleAtoi t of
             Inl e \<Rightarrow> Ret None
           | Inr v \<Rightarrow> Ret (Some (m\<lparr>version := Some v\<rparr>)))
     else Ret None)"
  unfolding multiaddr_text.parse_tail [OF assms(1-3, 6)] by (rule parse_tokens_other [OF assms(4, 5)])

definition junk_uuid_text :: string where
  "junk_uuid_text = ''/btle/123e4567-e89b-12d3-a456-426614174000/1.2.3/whatever''"

lemma multiaddr_parse_after_protocols_witness:
  "multiaddr_parse ref_StrSplit ref_SimpleAtoi ref_HexStringToBytes junk_uuid_text
     = Ret (Some sample_multiaddr)"
proof -
  define m where "m = sample_multiaddr\<lparr>version := None\<rparr>"
  have m: "multiaddr_wf m" "version m = None"
    using sample_multiaddr_wf by (simp_all add: m_def multiaddr_wf_def)
  have shown: "multiaddr_to_string hex_byte m = ''/btle/123e4567-e89b-12d3-a456-426614174000''"
    by (simp add: multiaddr_to_string_def m_def sample_multiaddr_def bluetooth_to_string_def
          BluetoothAddress_def sample_uuid_text)
  have ver: "semver_parse ref_StrSplit ref_SimpleAtoi ''1.2.3'' = Inr (SemanticVersion 1 2 3)"
    using ref_semver.semver_parse_to_string [of "SemanticVersion 1 2 3"]
    by (simp only: sample_version_text)
  have junk: "junk_uuid_text = multiaddr_to_string hex_byte m
      @ concat (map (Cons CHR ''/'') (''1.2.3'' # [''whatever'']))"
    by (simp add: junk_uuid_text_def shown)
  show ?thesis
    unfolding junk
    by (subst multiaddr_parse_after_protocols [OF ref_multiaddr.multiaddr_text_axioms m])
       (simp_all add: ver m_def sample_multiaddr_def)
qed

text \<open>On text without the characters that isalnum may not be called with, parse either returns
  or throws \<open>std::bad_optional_access\<close>, and it throws only when \<open>btle\<close> is the last component.\<close>

theorem multiaddr_parse_outcomes:
  assumes "multiaddr_text HexStringToBytes StrFormat_02x StrSplit SimpleAtoi"
    and "list_all ctype_ok s"
  shows "returns (multiaddr_parse StrSplit SimpleAtoi HexStringToBytes s) \<or>
    multiaddr_parse StrSplit SimpleAtoi HexStringToBytes s = Throw Bad_optional_access \<and>
    last (StrSplit CHR ''/'' s) = ''btle''"
proof -
  note pieces = multiaddr_text.axioms(2) [OF assms(1), THEN semver_text.axioms(1)]
  have "\<forall>t \<in> set (StrSplit CHR ''/'' s). list_all ctype_ok t"
  proof
    fix t assume "t \<in> set (StrSplit CHR ''/'' s)"
    then have "set t \<subseteq> set (join CHR ''/'' (StrSplit CHR ''/'' s))" by (rule set_piece_join)
    with assms(2) show "list_all ctype_ok t"
      by (auto simp: list_all_iff split_api.split_pieces [OF pieces])
  qed
  from multiaddr_text.ptokens_outcome [OF assms(1) this, of empty_multiaddr] show ?thesis
    by (auto simp: multiaddr_parse_def string_tokenizer_def)
qed

lemma multiaddr_parse_outcomes_witness:
  "returns (multiaddr_parse ref_StrSplit ref_SimpleAtoi ref_HexStringToBytes
     ''/1.2.3/btle/123e4567-e89b-12d3-a456-426614174000'')"
proof -
  define s where "s = ''/1.2.3/btle/123e4567-e89b-12d3-a456-426614174000''"
  have "list_all ctype_ok s" unfolding s_def by code_simp
  moreover have "last (ref_StrSplit CHR ''/'' s) \<noteq> ''btle''" unfolding s_def by code_simp
  ultimately show ?thesis
    using multiaddr_parse_outcomes [OF ref_multiaddr.multiaddr_text_axioms, of s]
    unfolding s_def by blast
qed

text \<open>An address followed by a bare \<open>/btle\<close> makes parse throw instead of returning nullopt,
  because the missing token is unwrapped without a check.\<close>

theorem multiaddr_parse_missing_address_throws:
  assumes "multiaddr_text HexStringToBytes StrFormat_02x StrSplit SimpleAtoi"
    and "multiaddr_wf m" and "version m = None"
  shows "multiaddr_parse StrSplit SimpleAtoi HexStringToBytes
      (multiaddr_to_string StrFormat_02x m @ ''/btle'') = Throw Bad_optional_access"
proof -
  have "multiaddr_parse StrSplit SimpleAtoi HexStringToBytes
      (multiaddr_to_string StrFormat_02x m @ slashed [''btle''])
      = parse_tokens StrSplit SimpleAtoi HexStringToBytes [''btle''] m"
    by (rule multiaddr_text.parse_tail [OF assms]) simp
  then show ?thesis by (simp add: parse_tokens_btle_last)
qed

lemma multiaddr_parse_missing_address_throws_witness:
  "multiaddr_parse ref_StrSplit ref_SimpleAtoi ref_HexStringToBytes ''/btle''
     = Throw Bad_optional_access"
proof -
  have "multiaddr_wf empty_multiaddr" "version empty_multiaddr = None"
    "multiaddr_to_string hex_byte empty_multiaddr = []"
    by (simp_all add: multiaddr_wf_def empty_multiaddr_def multiaddr_to_string_def)
  then show ?thesis
    using multiaddr_parse_missing_address_throws
      [OF ref_multiaddr.multiaddr_text_axioms, of empty_multiaddr] by simp
qed

lemma multiaddr_parse_normalises_witness:
  "multiaddr_parse ref_StrSplit ref_SimpleAtoi ref_HexStringToBytes
     (multiaddr_to_string hex_byte sample_multiaddr) = Ret (Some sample_multiaddr)"
  using multiaddr_parse_normalises [OF ref_multiaddr.multiaddr_text_axioms, of
      "multiaddr_to_string hex_byte sample_multiaddr" sample_multiaddr]
    ref_multiaddr.parse_to_string [OF sample_multiaddr_wf] by blast

end
