(* ===== verification/Varint.thy ===== *)
theory Varint
  imports Prelude
begin

text \<open>
  The variable-length integers of \<open>utils/varint.h\<close>: seven bits per byte, least significant group
  first, the top bit set on every byte but the last.
\<close>

section \<open>The code\<close>

function encode_varuint :: "u64 \<Rightarrow> bytes" where
  "encode_varuint val =
     (if 0x80 \<le> val
      then ucast ((val AND 0xFF) OR 0x80) # encode_varuint (drop_bit 7 val)
      else [ucast (val AND 0xFF)])"
  by pat_completeness auto
termination
proof (relation "measure unat", simp)
  fix val :: u64
  assume "0x80 \<le> val"
  then have "128 \<le> unat val" by (simp add: word_le_nat_alt)
  moreover have "unat (drop_bit 7 val) = unat val div 128"
    by (simp only: unat_drop_bit_eq) (simp add: drop_bit_eq_div)
  ultimately show "(drop_bit 7 val, val) \<in> measure unat"
    by (simp only: in_measure)
qed

declare encode_varuint.simps [simp del]

lemma encode_varuint_step:
  "val < 0x80 \<Longrightarrow> encode_varuint val = [ucast (val AND 0xFF)]"
  "0x80 \<le> val \<Longrightarrow>
     encode_varuint val = ucast ((val AND 0xFF) OR 0x80) # encode_varuint (drop_bit 7 val)"
  by (auto simp: encode_varuint.simps [of val])

text \<open>
  The loop of \<open>decode_varuint\<close>: the remaining bytes, the index \<open>read\<close> and the value so far. The
  shift count is \<open>read * 7\<close>; shifting a 64-bit operand by 64 or more is undefined.
\<close>

fun decode_varuint_loop :: "bytes \<Rightarrow> nat \<Rightarrow> u64 \<Rightarrow> (u64 \<times> nat) option outcome" where
  "decode_varuint_loop [] read result = Ret None"
| "decode_varuint_loop (current # rest) read result =
     (if 64 \<le> read * 7 then Undef Shift_width
      else
        (let result' = result OR push_bit (read * 7) (ucast (current AND NOT 0x80))
         in if current AND 0x80 = 0 then Ret (Some (result', read + 1))
            else decode_varuint_loop rest (read + 1) result'))"

definition decode_varuint :: "bytes \<Rightarrow> (u64 \<times> nat) option outcome" where
  "decode_varuint bs = decode_varuint_loop bs 0 0"

section \<open>Meaning of a byte sequence\<close>

text \<open>
  A byte is a continuation byte when its top bit is set; a sequence of bytes denotes the number
  whose base-128 digits are its low seven bits, least significant first.
\<close>

definition is_continuation :: "u8 \<Rightarrow> bool" where
  "is_continuation b \<longleftrightarrow> b AND 0x80 \<noteq> 0"

fun leb_value :: "bytes \<Rightarrow> nat" where
  "leb_value [] = 0"
| "leb_value (b # bs) = unat b mod 128 + 128 * leb_value bs"

lemma is_continuation_iff: "is_continuation b \<longleftrightarrow> 128 \<le> unat b"
proof -
  have "b AND 0x80 \<noteq> 0 \<longleftrightarrow> bit b 7"
    using and_exp_eq_0_iff_not_bit [of b 7] by simp
  also have "\<dots> \<longleftrightarrow> bit (unat b) 7"
    by (simp add: bit_unsigned_iff)
  also have "\<dots> \<longleftrightarrow> odd (unat b div 128)"
    by (simp add: bit_iff_odd)
  also have "unat b div 128 = (if 128 \<le> unat b then 1 else 0)"
    using u8_bound [of b] by (auto intro: div_nat_eqI)
  also have "odd (if 128 \<le> unat b then 1 else 0 :: nat) \<longleftrightarrow> 128 \<le> unat b"
    by simp
  finally show ?thesis by (simp add: is_continuation_def)
qed

lemma low_bits_value: "unat (b AND NOT 0x80 :: u8) = unat b mod 128"
proof -
  have "(NOT 0x80 :: u8) = mask 7" by code_simp
  then have "(b AND NOT 0x80 :: u8) = take_bit 7 b"
    by (simp only: take_bit_eq_mask)
  then have "unat (b AND NOT 0x80) = take_bit 7 (unat b)"
    by (simp only: unsigned_take_bit_eq)
  then show ?thesis by (simp only: take_bit_eq_mod) simp
qed

lemma digit_or_push:
  "(of_nat (unat (b :: u8) mod 128 + 128 * v) :: u64)
     = ucast (b AND NOT 0x80) OR push_bit 7 (of_nat v)"
proof -
  have "unat b mod 128 + 128 * v = take_bit 7 (unat b) + push_bit 7 v"
    by (simp add: take_bit_eq_mod push_bit_eq_mult)
  also have "\<dots> = take_bit 7 (unat b) OR push_bit 7 v"
    by (rule disjunctive_add_eq_or) (auto simp: bit_eq_iff bit_simps)
  finally have "(of_nat (unat b mod 128 + 128 * v) :: u64)
      = of_nat (take_bit 7 (unat b)) OR of_nat (push_bit 7 v)"
    by (simp add: of_nat_or_eq)
  moreover have "take_bit 7 (unat b) = unat (b AND NOT 0x80)"
    by (simp only: low_bits_value take_bit_eq_mod) simp
  then have "of_nat (take_bit 7 (unat b)) = (ucast (b AND NOT 0x80) :: u64)"
    by (simp only: of_nat_unat)
  ultimately show ?thesis by (simp add: of_nat_push_bit)
qed

section \<open>The decoder on every input\<close>

lemma decode_varuint_loop_spec:
  assumes "n = length (takeWhile is_continuation bs)" and "read \<le> 10"
  shows "decode_varuint_loop bs read result =
    (if n < length bs \<and> read + n \<le> 9
     then Ret (Some (result OR push_bit (read * 7) (of_nat (leb_value (take (Suc n) bs))),
                     read + Suc n))
     else if n = length bs \<and> read + n \<le> 10 then Ret None
     else Undef Shift_width)"
  using assms
proof (induction bs arbitrary: n read result)
  case Nil
  then show ?case by simp
next
  case (Cons b bs)
  have digit: "(result OR push_bit (read * 7) (ucast (b AND NOT 0x80))) OR
      push_bit (Suc read * 7) (of_nat v) =
      result OR push_bit (read * 7) (of_nat (unat b mod 128 + 128 * v))" for v
    by (simp only: digit_or_push push_bit_or push_bit_push_bit or.assoc)
       (simp add: add.commute)
  show ?case
  proof (cases "read = 10")
    case True
    with Cons.prems show ?thesis by auto
  next
    case False
    with Cons.prems have read: "read \<le> 9" by simp
    show ?thesis
    proof (cases "is_continuation b")
      case True
      with Cons.prems obtain m where m: "n = Suc m" "m = length (takeWhile is_continuation bs)"
        by simp
      show ?thesis
        using True read m Cons.IH [OF m(2), of "Suc read"] digit
        by (simp add: is_continuation_def Let_def del: push_bit_numeral)
    next
      case False
      with Cons.prems have "n = 0" by simp
      with False read digit [of 0] show ?thesis
        by (simp add: is_continuation_def Let_def)
    qed
  qed
qed

section \<open>The encoder\<close>

lemma encoded_byte_value:
  "unat (ucast ((val AND 0xFF) OR 0x80 :: u64) :: u8) = unat val mod 128 + 128"
proof -
  have "(ucast ((val AND 0xFF) OR 0x80 :: u64) :: u8) = ucast (take_bit 7 val) OR 0x80"
  proof (rule bit_word_eqI)
    fix n assume n: "n < LENGTH(8)"
    then have "n \<in> {0, 1, 2, 3, 4, 5, 6, 7}" by auto
    then show "bit (ucast ((val AND 0xFF) OR 0x80 :: u64) :: u8) n
        \<longleftrightarrow> bit (ucast (take_bit 7 val) OR 0x80 :: u8) n"
      by (auto simp: bit_simps)
  qed
  also have "\<dots> = ucast (take_bit 7 val) + 0x80"
    by (rule disjunctive_add_eq_or [symmetric])
       (auto intro!: bit_word_eqI simp: bit_simps less_Suc_eq numeral_eq_Suc)
  finally have sum: "(ucast ((val AND 0xFF) OR 0x80 :: u64) :: u8) = ucast (take_bit 7 val) + 0x80" .
  have low: "unat (take_bit 7 val) = unat val mod 128"
    by (simp only: unsigned_take_bit_eq) (simp add: take_bit_eq_mod)
  have "unat val mod 128 < 128" by simp
  then show ?thesis
    unfolding sum by (simp only: unat_word_ariths unsigned_ucast_eq low) (simp add: take_bit_eq_mod)
qed

lemma last_byte_value: "val < 0x80 \<Longrightarrow> unat (ucast (val AND 0xFF :: u64) :: u8) = unat val"
proof -
  assume "val < 0x80"
  then have "unat val < 128" by (simp add: word_less_nat_alt)
  moreover have "(val AND 0xFF :: u64) = take_bit 8 val"
    by (simp add: take_bit_eq_mask mask_eq_exp_minus_1)
  then have "unat (ucast (val AND 0xFF :: u64) :: u8) = take_bit 8 (take_bit 8 (unat val))"
    by (simp only: unsigned_ucast_eq unsigned_take_bit_eq) simp
  ultimately show ?thesis by (simp add: take_bit_eq_mod)
qed

lemma drop_bit_7_value: "unat (drop_bit 7 val :: u64) = unat val div 128"
  by (simp only: unat_drop_bit_eq) (simp add: drop_bit_eq_div)

text \<open>The shape of an encoding: continuation bytes followed by one final byte.\<close>

lemma encode_varuint_shape:
  "encode_varuint val \<noteq> [] \<and>
   (\<forall>b \<in> set (butlast (encode_varuint val)). is_continuation b) \<and>
   \<not> is_continuation (last (encode_varuint val))"
proof (induction val rule: encode_varuint.induct)
  case (1 val)
  show ?case
  proof (cases "0x80 \<le> val")
    case True
    with 1 show ?thesis
      by (simp add: encode_varuint_step is_continuation_iff encoded_byte_value)
  next
    case False
    then have "val < 0x80" by simp
    moreover from this have "unat val < 128" by (simp add: word_less_nat_alt)
    ultimately show ?thesis
      by (simp add: encode_varuint_step is_continuation_iff last_byte_value)
  qed
qed

lemma leb_value_encode: "leb_value (encode_varuint val) = unat val"
proof (induction val rule: encode_varuint.induct)
  case (1 val)
  show ?case
  proof (cases "0x80 \<le> val")
    case True
    with 1 have "leb_value (encode_varuint (drop_bit 7 val)) = unat val div 128"
      by (simp only: drop_bit_7_value)
    with True show ?thesis
      by (simp add: encode_varuint_step encoded_byte_value)
  next
    case False
    then have "val < 0x80" by simp
    moreover from this have "unat val < 128" by (simp add: word_less_nat_alt)
    ultimately show ?thesis
      by (simp add: encode_varuint_step last_byte_value)
  qed
qed

text \<open>An encoding has no leading zero group, so its length is the number of base-128 digits.\<close>

lemma encode_varuint_length:
  "unat val < 128 ^ length (encode_varuint val) \<and>
   (length (encode_varuint val) = 1 \<or> 128 ^ (length (encode_varuint val) - 1) \<le> unat val)"
proof (induction val rule: encode_varuint.induct)
  case (1 val)
  show ?case
  proof (cases "0x80 \<le> val")
    case True
    then have ge: "128 \<le> unat val" by (simp add: word_le_nat_alt)
    define n where "n = length (encode_varuint (drop_bit 7 val))"
    have len: "length (encode_varuint val) = Suc n"
      using True by (simp add: encode_varuint_step n_def)
    from 1 True have IH: "unat val div 128 < 128 ^ n"
        "n = 1 \<or> 128 ^ (n - 1) \<le> unat val div 128"
      by (simp_all only: drop_bit_7_value n_def)
    have "n \<noteq> 0" using encode_varuint_shape by (simp add: n_def)
    have "unat val < 128 * 128 ^ n"
      using IH(1) by (simp add: less_mult_imp_div_less div_less_iff_less_mult mult.commute)
    moreover have "128 ^ n \<le> unat val"
    proof (cases "n = 1")
      case True
      with ge show ?thesis by simp
    next
      case False
      with IH(2) have "128 * 128 ^ (n - 1) \<le> unat val"
        by (simp add: less_eq_div_iff_mult_less_eq mult.commute)
      with \<open>n \<noteq> 0\<close> show ?thesis by (cases n) simp_all
    qed
    ultimately show ?thesis by (simp add: len)
  next
    case False
    then have "val < 0x80" by simp
    moreover from this have "unat val < 128" by (simp add: word_less_nat_alt)
    ultimately show ?thesis by (simp add: encode_varuint_step)
  qed
qed

lemma encode_varuint_at_most_10: "length (encode_varuint val) \<le> 10"
proof (rule ccontr)
  assume "\<not> ?thesis"
  then have "10 \<le> length (encode_varuint val) - 1" "length (encode_varuint val) \<noteq> 1" by auto
  then have "(128::nat) ^ 10 \<le> unat val"
    using encode_varuint_length [of val] power_increasing [of 10 _ "128::nat"]
    by (meson order_trans one_le_numeral)
  with u64_bound [of val] show False by simp
qed

lemma takeWhile_encode:
  "takeWhile is_continuation (encode_varuint val @ rest) = butlast (encode_varuint val)"
proof -
  define e where "e = encode_varuint val"
  have e: "e \<noteq> []" "\<forall>b \<in> set (butlast e). is_continuation b" "\<not> is_continuation (last e)"
    using encode_varuint_shape [of val] by (auto simp: e_def)
  then have split: "e @ rest = butlast e @ last e # rest" by simp
  show ?thesis
    unfolding e_def [symmetric] split using e by (simp add: takeWhile_append2)
qed

section \<open>Properties\<close>

text \<open>C7: what decode_varuint does on every byte sequence. With \<open>n\<close> leading continuation bytes it
  returns the 64-bit truncation of the denoted number and the bytes used if the final byte is among
  the first ten, nothing if the input ends before a final byte within ten bytes, and in every other
  case, that is when the first ten bytes are all continuation bytes and an eleventh follows, it
  shifts a 64-bit value by 70, which is undefined behaviour.\<close>

theorem decode_varuint_every_input:
  "decode_varuint bs =
    (let n = length (takeWhile is_continuation bs) in
       if n < length bs \<and> n \<le> 9
       then Ret (Some (of_nat (leb_value (take (Suc n) bs)), Suc n))
       else if n = length bs \<and> n \<le> 10 then Ret None
       else Undef Shift_width)"
  unfolding decode_varuint_def Let_def
  by (subst decode_varuint_loop_spec [OF refl]) simp_all

lemma decode_varuint_encode:
  "decode_varuint (encode_varuint val @ rest) = Ret (Some (val, length (encode_varuint val)))"
proof -
  define e where "e = encode_varuint val"
  have "e \<noteq> []" using encode_varuint_shape by (simp add: e_def)
  then have len: "Suc (length e - 1) = length e" by (cases e) simp_all
  moreover have "length e \<le> 10" using encode_varuint_at_most_10 by (simp add: e_def)
  ultimately have bound: "length e - 1 < length (e @ rest) \<and> length e - 1 \<le> 9" by simp
  have "decode_varuint (e @ rest) = Ret (Some (of_nat (leb_value e), length e))"
    unfolding decode_varuint_def
    by (subst decode_varuint_loop_spec [OF refl], simp)
       (use bound len in \<open>simp add: takeWhile_encode [of val, folded e_def]\<close>)
  then show ?thesis by (simp add: e_def leb_value_encode)
qed

interpretation varint: prefix_codec encode_varuint decode_varuint
  by unfold_locales (rule decode_varuint_encode)

text \<open>C2: encoding and decoding round-trip: whatever bytes follow an encoding, decode_varuint
  returns the encoded value and exactly the number of bytes of the encoding.\<close>

theorem decode_encode_varuint:
  "decode_varuint (encode_varuint val @ rest) = Ret (Some (val, length (encode_varuint val)))"
  by (rule varint.dec_enc)

text \<open>Encode_varuint emits the shortest representation: one byte per base-128 digit of the
  value and at least one, never more than ten, with the top bit clear on the last byte only.\<close>

theorem encode_varuint_shortest:
  "length (encode_varuint val) = (LEAST k. 1 \<le> k \<and> unat val < 128 ^ k) \<and>
   length (encode_varuint val) \<le> 10 \<and>
   map is_continuation (encode_varuint val) =
     replicate (length (encode_varuint val) - 1) True @ [False]"
proof -
  define e where "e = encode_varuint val"
  have e: "e \<noteq> []" "\<forall>b \<in> set (butlast e). is_continuation b" "\<not> is_continuation (last e)"
    using encode_varuint_shape [of val] by (auto simp: e_def)
  have len: "unat val < 128 ^ length e" "length e = 1 \<or> 128 ^ (length e - 1) \<le> unat val"
    using encode_varuint_length [of val] by (auto simp: e_def)
  have "(LEAST k. 1 \<le> k \<and> unat val < 128 ^ k) = length e"
  proof (rule Least_equality)
    show "1 \<le> length e \<and> unat val < 128 ^ length e" using e(1) len(1) by (cases e) simp_all
  next
    fix k assume k: "1 \<le> k \<and> unat val < 128 ^ k"
    show "length e \<le> k"
    proof (rule ccontr)
      assume "\<not> length e \<le> k"
      then have "k \<le> length e - 1" "length e \<noteq> 1" using k by auto
      then have "(128::nat) ^ k \<le> 128 ^ (length e - 1)"
        by (intro power_increasing) simp_all
      with len(2) \<open>length e \<noteq> 1\<close> have "128 ^ k \<le> unat val" by linarith
      with k show False by simp
    qed
  qed
  moreover have "map is_continuation (butlast e) = replicate (length e - 1) True"
    by (rule replicate_eqI) (use e in auto)
  then have "map is_continuation (butlast e @ [last e]) = replicate (length e - 1) True @ [False]"
    using e(3) by simp
  then have "map is_continuation e = replicate (length e - 1) True @ [False]"
    by (simp only: append_butlast_last_id [OF e(1)])
  ultimately show ?thesis
    using e(1) encode_varuint_at_most_10 [of val] by (simp add: e_def)
qed

text \<open>The decoder looks at the bytes it reports as used, and at no others.\<close>

lemma decode_varuint_loop_local:
  "decode_varuint_loop bs read result = Ret (Some (v, n)) \<Longrightarrow>
     read < n \<and> n - read \<le> length bs \<and>
     decode_varuint_loop (take (n - read) bs @ xs) read result = Ret (Some (v, n))"
proof (induction bs arbitrary: read result)
  case Nil
  then show ?case by simp
next
  case (Cons b bs)
  show ?case
  proof (cases "64 \<le> read * 7 \<or> b AND 0x80 = 0")
    case True
    with Cons.prems show ?thesis by (auto simp: Let_def split: if_splits)
  next
    case False
    with Cons.prems have rec: "decode_varuint_loop bs (Suc read)
        (result OR push_bit (read * 7) (ucast (b AND NOT 0x80))) = Ret (Some (v, n))"
      by (simp add: Let_def)
    from Cons.IH [OF rec] have n: "Suc read < n" "n - Suc read \<le> length bs"
      "decode_varuint_loop (take (n - Suc read) bs @ xs) (Suc read)
        (result OR push_bit (read * 7) (ucast (b AND NOT 0x80))) = Ret (Some (v, n))"
      by simp_all
    then have "n - read = Suc (n - Suc read)" by simp
    with n False show ?thesis by (simp add: Let_def)
  qed
qed

lemma decode_varuint_local:
  "decode_varuint bs = Ret (Some (v, n)) \<Longrightarrow>
     1 \<le> n \<and> n \<le> length bs \<and> decode_varuint (take n bs @ xs) = Ret (Some (v, n))"
  unfolding decode_varuint_def using decode_varuint_loop_local [of bs 0 0 v n xs] by simp

end
