(* ===== verification/Multiaddr_Raw.thy ===== *)
theory Multiaddr_Raw
  imports Multiaddr Varint
begin

text \<open>
  The binary form of multiaddresses (\<open>MultiaddrRawTokenizer\<close> in \<open>utils/multiaddr.h\<close> and
  \<open>Multiaddr::parse_raw\<close> in \<open>utils/multiaddr.cpp\<close>).

  A span is the list of the bytes it views. Positions are natural numbers. The additions in the
  bounds checks are on \<open>size_t\<close> and wrap around modulo 2^64, which is written out; \<open>current_\<close>
  itself never wraps, since it is advanced past bytes of the span only.
\<close>

section \<open>The code: the tokenizer\<close>

record raw_tokenizer =
  raw_bytes :: bytes
  raw_current :: nat

definition raw_tokenizer :: "bytes \<Rightarrow> raw_tokenizer" where
  "raw_tokenizer bs = \<lparr>raw_bytes = bs, raw_current = 0\<rparr>"

definition raw_wf :: "raw_tokenizer \<Rightarrow> bool" where
  "raw_wf t \<longleftrightarrow> raw_current t \<le> length (raw_bytes t) \<and> length (raw_bytes t) \<le> size_max"

definition size_add :: "nat \<Rightarrow> nat \<Rightarrow> nat" where
  "size_add a b = (a + b) mod 2 ^ 64"

text \<open>A subspan of \<open>count\<close> bytes from a position; undefined when it leaves the span.\<close>

definition subspan :: "bytes \<Rightarrow> nat \<Rightarrow> nat \<Rightarrow> bytes outcome" where
  "subspan bs pos count =
     (if pos + count \<le> length bs then Ret (take count (drop pos bs)) else Undef Out_of_bounds)"

text \<open>
  \<open>read<T>\<close> for the two types it is used with, \<open>uint64_t\<close> and \<open>uint32_t\<close>. The pointer to a byte of the span
  is cast to a pointer to \<open>T\<close> and dereferenced, where there is no object of that type and the address
  need not be aligned for one: when the check of the size passes, the behaviour is undefined.
\<close>

definition raw_read :: "nat \<Rightarrow> raw_tokenizer \<Rightarrow> ('t option \<times> raw_tokenizer) outcome" where
  "raw_read size_T t =
     (if length (raw_bytes t) \<le> size_add (raw_current t) size_T then Ret (None, t)
      else if raw_current t < length (raw_bytes t) then Undef Type_punning
      else Undef Out_of_bounds)"

definition raw_uint64 :: "raw_tokenizer \<Rightarrow> (u64 option \<times> raw_tokenizer) outcome" where
  "raw_uint64 t = raw_read 8 t"

definition raw_uint32 :: "raw_tokenizer \<Rightarrow> (u32 option \<times> raw_tokenizer) outcome" where
  "raw_uint32 t = raw_read 4 t"

definition read_uleb128 :: "raw_tokenizer \<Rightarrow> (u64 option \<times> raw_tokenizer) outcome" where
  "read_uleb128 t =
     (if length (raw_bytes t) < raw_current t then Undef Out_of_bounds
      else
        obind (decode_varuint (drop (raw_current t) (raw_bytes t))) (\<lambda>r.
          case r of
            None \<Rightarrow> Ret (None, t)
          | Some (value, read) \<Rightarrow> Ret (Some value, t\<lparr>raw_current := raw_current t + read\<rparr>)))"

definition read_bytes :: "nat \<Rightarrow> raw_tokenizer \<Rightarrow> (bytes option \<times> raw_tokenizer) outcome" where
  "read_bytes count t =
     (if length (raw_bytes t) < size_add (raw_current t) count then Ret (None, t)
      else
        obind (subspan (raw_bytes t) (raw_current t) count) (\<lambda>result.
          Ret (Some result, t\<lparr>raw_current := raw_current t + count\<rparr>)))"

definition varuint32 :: "raw_tokenizer \<Rightarrow> (u32 option \<times> raw_tokenizer) outcome" where
  "varuint32 t =
     obind (read_uleb128 t) (\<lambda>(r, t').
       case r of
         None \<Rightarrow> Ret (None, t')
       | Some value \<Rightarrow> Ret (if value < 0xFFFFFFFF then Some (ucast value) else None, t'))"

section \<open>The code: parsing\<close>

definition parse_raw_to_protocol ::
  "raw_tokenizer \<Rightarrow> (bluetooth_address option \<times> raw_tokenizer) outcome" where
  "parse_raw_to_protocol t =
     obind (read_bytes uuid_kSize t) (\<lambda>(r, t').
       Ret (case r of
              None \<Rightarrow> None
            | Some bs \<Rightarrow> map_option BluetoothAddress (uuid_parse_raw bs), t'))"

definition raw_protocol_parsers ::
  "u64 \<rightharpoonup> (raw_tokenizer \<Rightarrow> (bluetooth_address option \<times> raw_tokenizer) outcome)" where
  "raw_protocol_parsers = [150 \<mapsto> parse_raw_to_protocol]"

lemma decode_varuint_progress:
  "decode_varuint bs = Ret (Some (v, n)) \<Longrightarrow> 1 \<le> n \<and> n \<le> length bs"
  using decode_varuint_local by blast

lemma read_uleb128_progress:
  "read_uleb128 t = Ret (Some v, t') \<Longrightarrow>
     raw_bytes t' = raw_bytes t \<and> raw_current t < raw_current t' \<and>
     raw_current t' \<le> length (raw_bytes t)"
  by (auto simp: read_uleb128_def outcome_simps dest!: decode_varuint_progress
        split: if_splits option.splits)

lemma parse_raw_to_protocol_progress:
  "parse_raw_to_protocol t = Ret (p, t') \<Longrightarrow>
     raw_bytes t' = raw_bytes t \<and> raw_current t \<le> raw_current t'"
  by (auto simp: parse_raw_to_protocol_def read_bytes_def outcome_simps split: if_splits)

function multiaddr_parse_raw_loop :: "raw_tokenizer \<Rightarrow> multiaddr \<Rightarrow> multiaddr option outcome" where
  "multiaddr_parse_raw_loop tokenizer multiaddr =
     obind (read_uleb128 tokenizer) (\<lambda>(protocol_opt, t).
       case protocol_opt of
         None \<Rightarrow> Ret (Some multiaddr)
       | Some protocol \<Rightarrow>
           (case raw_protocol_parsers protocol of
              Some parser \<Rightarrow>
                obind (parser t) (\<lambda>(result_opt, t').
                  try_unwrap_optional result_opt (\<lambda>protocol_result.
                    multiaddr_parse_raw_loop t'
                      (multiaddr\<lparr>protocols := protocols multiaddr @ [protocol_result]\<rparr>)))
            | None \<Rightarrow> Ret None))"
  by pat_completeness auto
termination
proof (relation "measure (\<lambda>(t, m). length (raw_bytes t) - raw_current t)", goal_cases)
  case 1
  show ?case by simp
next
  case 2
  then show ?case
    by (auto simp: raw_protocol_parsers_def split: if_splits
          dest!: read_uleb128_progress parse_raw_to_protocol_progress)
qed

declare multiaddr_parse_raw_loop.simps [simp del]

definition multiaddr_parse_raw :: "bytes \<Rightarrow> multiaddr option outcome" where
  "multiaddr_parse_raw bs = multiaddr_parse_raw_loop (raw_tokenizer bs) empty_multiaddr"

section \<open>The tokenizer on every argument\<close>

lemma read_bytes_spec:
  assumes "raw_wf t" and "count \<le> size_max"
  shows "read_bytes count t =
    (if raw_current t + count \<le> length (raw_bytes t)
     then Ret (Some (take count (drop (raw_current t) (raw_bytes t))),
               t\<lparr>raw_current := raw_current t + count\<rparr>)
     else if raw_current t + count < 2 ^ 64 then Ret (None, t)
     else Undef Out_of_bounds)"
proof (cases "raw_current t + count < 2 ^ 64")
  case True
  then show ?thesis using assms by (auto simp: read_bytes_def size_add_def subspan_def)
next
  case False
  with assms have "size_add (raw_current t) count = raw_current t + count - 2 ^ 64"
    unfolding size_add_def raw_wf_def by (subst le_mod_geq) auto
  with False assms show ?thesis by (auto simp: read_bytes_def subspan_def raw_wf_def)
qed

lemma raw_read_spec:
  assumes "raw_wf t" and "raw_current t + n < 2 ^ 64"
  shows "raw_read n t =
    (if raw_current t + n < length (raw_bytes t) then Undef Type_punning else Ret (None, t))"
  using assms by (auto simp: raw_read_def size_add_def)

lemma parse_raw_to_protocol_spec:
  assumes "raw_wf t"
  shows "parse_raw_to_protocol t =
    (if raw_current t + 16 \<le> length (raw_bytes t)
     then Ret (Some (BluetoothAddress \<lparr>uuid_bytes = take 16 (drop (raw_current t) (raw_bytes t))\<rparr>),
               t\<lparr>raw_current := raw_current t + 16\<rparr>)
     else if raw_current t + 16 < 2 ^ 64 then Ret (None, t)
     else Undef Out_of_bounds)"
  using read_bytes_spec [OF assms, of 16]
  by (simp add: parse_raw_to_protocol_def uuid_kSize_def uuid_parse_raw_def zero_uuid_def)

section \<open>The loop as a recursion on the remaining bytes\<close>

definition prepend_protocols ::
  "bluetooth_address list \<Rightarrow> multiaddr option outcome \<Rightarrow> multiaddr option outcome" where
  "prepend_protocols ps r =
     obind r (\<lambda>v. Ret (map_option (\<lambda>m. m\<lparr>protocols := ps @ protocols m\<rparr>) v))"

lemma prepend_prepend: "prepend_protocols ps (prepend_protocols qs r) = prepend_protocols (ps @ qs) r"
  by (cases r) (auto simp: prepend_protocols_def map_option_case split: option.split)

text \<open>Below, \<open>length bs \<le> size_max - 16\<close>: no object of the platform comes near that size.\<close>

definition next_address :: "bytes \<Rightarrow> bluetooth_address" where
  "next_address bs = BluetoothAddress \<lparr>uuid_bytes = take 16 bs\<rparr>"

lemma raw_loop_step:
  assumes "pos \<le> length bs" and "length bs \<le> size_max - 16"
  shows "multiaddr_parse_raw_loop \<lparr>raw_bytes = bs, raw_current = pos\<rparr> m =
    obind (decode_varuint (drop pos bs)) (\<lambda>r.
      case r of
        None \<Rightarrow> Ret (Some m)
      | Some (v, n) \<Rightarrow>
          if v = 150 \<and> n + 16 \<le> length bs - pos
          then multiaddr_parse_raw_loop \<lparr>raw_bytes = bs, raw_current = pos + (n + 16)\<rparr>
                 (m\<lparr>protocols := protocols m @ [next_address (drop (pos + n) bs)]\<rparr>)
          else Ret None)"
proof (cases "decode_varuint (drop pos bs)")
  case (Ret r)
  show ?thesis
  proof (cases r)
    case None
    with Ret assms show ?thesis
      by (subst multiaddr_parse_raw_loop.simps) (simp add: read_uleb128_def)
  next
    case (Some vn)
    obtain v n where vn: "vn = (v, n)" by (cases vn)
    with Ret Some have n: "n \<le> length bs - pos" using decode_varuint_progress by fastforce
    define t where "t = \<lparr>raw_bytes = bs, raw_current = pos + n\<rparr>"
    have t: "raw_wf t" "raw_current t + 16 < 2 ^ 64"
      using assms n by (simp_all add: t_def raw_wf_def)
    have "read_uleb128 \<lparr>raw_bytes = bs, raw_current = pos\<rparr> = Ret (Some v, t)"
      using Ret Some vn assms(1) by (simp add: read_uleb128_def t_def)
    moreover have "n + 16 \<le> length bs - pos \<longleftrightarrow> raw_current t + 16 \<le> length (raw_bytes t)"
      using assms(1) by (simp add: t_def le_diff_conv2 ac_simps)
    ultimately show ?thesis
      using t Ret Some vn
      by (subst multiaddr_parse_raw_loop.simps)
         (simp add: raw_protocol_parsers_def parse_raw_to_protocol_spec t_def next_address_def
            add.assoc)
  qed
qed (use assms in \<open>simp_all add: multiaddr_parse_raw_loop.simps [of "\<lparr>raw_bytes = bs, raw_current = pos\<rparr>"]
                       read_uleb128_def\<close>)

lemma raw_loop_suffix:
  assumes "pos \<le> length bs" and "length bs \<le> size_max - 16"
  shows "multiaddr_parse_raw_loop \<lparr>raw_bytes = bs, raw_current = pos\<rparr> (empty_multiaddr\<lparr>protocols := ps\<rparr>)
    = prepend_protocols ps (multiaddr_parse_raw (drop pos bs))"
  using assms
proof (induction "length bs - pos" arbitrary: bs pos ps rule: less_induct)
  case less
  have start: "multiaddr_parse_raw (drop pos bs) =
      multiaddr_parse_raw_loop \<lparr>raw_bytes = drop pos bs, raw_current = 0\<rparr> empty_multiaddr"
    by (simp add: multiaddr_parse_raw_def raw_tokenizer_def)
  show ?case
  proof (cases "\<exists>n. decode_varuint (drop pos bs) = Ret (Some (150, n)) \<and> n + 16 \<le> length bs - pos")
    case True
    then obtain n where dec: "decode_varuint (drop pos bs) = Ret (Some (150, n))"
      and n: "n + 16 \<le> length bs - pos" by blast
    define a where "a = next_address (drop (pos + n) bs)"
    have "multiaddr_parse_raw_loop \<lparr>raw_bytes = bs, raw_current = pos\<rparr> (empty_multiaddr\<lparr>protocols := ps\<rparr>)
        = multiaddr_parse_raw_loop \<lparr>raw_bytes = bs, raw_current = pos + (n + 16)\<rparr>
            (empty_multiaddr\<lparr>protocols := ps @ [a]\<rparr>)"
      using less.prems dec n by (simp add: raw_loop_step a_def)
    also have "\<dots> = prepend_protocols (ps @ [a]) (multiaddr_parse_raw (drop (pos + (n + 16)) bs))"
      by (rule less.hyps) (use less.prems n in auto)
    finally have lhs: "multiaddr_parse_raw_loop \<lparr>raw_bytes = bs, raw_current = pos\<rparr>
        (empty_multiaddr\<lparr>protocols := ps\<rparr>)
      = prepend_protocols (ps @ [a]) (multiaddr_parse_raw (drop (pos + (n + 16)) bs))" .
    have "multiaddr_parse_raw (drop pos bs)
        = multiaddr_parse_raw_loop \<lparr>raw_bytes = drop pos bs, raw_current = n + 16\<rparr>
            (empty_multiaddr\<lparr>protocols := [a]\<rparr>)"
      unfolding start using less.prems dec n
      by (subst raw_loop_step) (simp_all add: a_def empty_multiaddr_def add.commute)
    also have "\<dots> = prepend_protocols [a] (multiaddr_parse_raw (drop (n + 16) (drop pos bs)))"
      by (rule less.hyps) (use less.prems n in auto)
    finally show ?thesis
      by (simp add: lhs prepend_prepend add.commute add.left_commute)
  next
    case False
    then show ?thesis
      unfolding start using less.prems
      by (cases "decode_varuint (drop pos bs)")
         (auto simp: raw_loop_step prepend_protocols_def empty_multiaddr_def split: option.splits)
  qed
qed

lemma multiaddr_parse_raw_step:
  assumes "length bs \<le> size_max - 16"
  shows "multiaddr_parse_raw bs =
    obind (decode_varuint bs) (\<lambda>r.
      case r of
        None \<Rightarrow> Ret (Some empty_multiaddr)
      | Some (v, n) \<Rightarrow>
          if v = 150 \<and> n + 16 \<le> length bs
          then prepend_protocols [next_address (drop n bs)] (multiaddr_parse_raw (drop (n + 16) bs))
          else Ret None)"
proof -
  have "multiaddr_parse_raw_loop \<lparr>raw_bytes = bs, raw_current = n + 16\<rparr>
      (empty_multiaddr\<lparr>protocols := [a]\<rparr>) = prepend_protocols [a] (multiaddr_parse_raw (drop (n + 16) bs))"
    if "n + 16 \<le> length bs" for n a
    using raw_loop_suffix that assms by blast
  then show ?thesis
    using raw_loop_step [of 0 bs empty_multiaddr] assms
    by (cases "decode_varuint bs")
       (auto simp: multiaddr_parse_raw_def raw_tokenizer_def empty_multiaddr_def split: option.splits)
qed

section \<open>Properties\<close>

text \<open>The packed form of a list of addresses, as the test of the repository builds it.\<close>

definition pack :: "uuid list \<Rightarrow> bytes" where
  "pack us = concat (map (\<lambda>u. encode_varuint 150 @ uuid_bytes u) us)"

lemma uuid_eq_bytes: "\<lparr>uuid_bytes = uuid_bytes u\<rparr> = (u :: uuid)"
  by (cases u) simp

lemma next_address_uuid: "uuid_wf u \<Longrightarrow> next_address (uuid_bytes u @ rest) = BluetoothAddress u"
  by (simp add: next_address_def uuid_wf_def uuid_kSize_def uuid_eq_bytes)

lemma multiaddr_parse_raw_chunk:
  assumes "uuid_wf u" and "length (encode_varuint 150 @ uuid_bytes u @ rest) \<le> size_max - 16"
  shows "multiaddr_parse_raw (encode_varuint 150 @ uuid_bytes u @ rest) =
    prepend_protocols [BluetoothAddress u] (multiaddr_parse_raw rest)"
proof -
  define e where "e = encode_varuint 150"
  have dec: "decode_varuint (e @ xs) = Ret (Some (150, length e))" for xs
    by (simp add: e_def decode_varuint_encode)
  have len: "length (uuid_bytes u) = 16" using assms(1) by (simp add: uuid_wf_def uuid_kSize_def)
  show ?thesis
    using assms len by (subst multiaddr_parse_raw_step)
      (simp_all add: e_def [symmetric] dec next_address_uuid)
qed

lemma multiaddr_parse_raw_pack:
  "list_all uuid_wf us \<Longrightarrow> length (pack us @ rest) \<le> size_max - 16 \<Longrightarrow>
     multiaddr_parse_raw (pack us @ rest) =
       prepend_protocols (map BluetoothAddress us) (multiaddr_parse_raw rest)"
proof (induction us)
  case Nil
  then show ?case
    by (cases "multiaddr_parse_raw rest") (auto simp: pack_def prepend_protocols_def map_option_case split: option.split)
next
  case (Cons u us)
  have "pack (u # us) @ rest = encode_varuint 150 @ uuid_bytes u @ (pack us @ rest)"
    by (simp add: pack_def)
  with Cons show ?case
    by (simp add: multiaddr_parse_raw_chunk prepend_prepend)
qed

lemma multiaddr_parse_raw_packed:
  assumes "list_all uuid_wf us" and "length (pack us) \<le> size_max - 16"
  shows "multiaddr_parse_raw (pack us) =
    Ret (Some (empty_multiaddr\<lparr>protocols := map BluetoothAddress us\<rparr>))"
proof -
  have "multiaddr_parse_raw [] = Ret (Some empty_multiaddr)"
    by (simp add: multiaddr_parse_raw_step decode_varuint_def)
  with multiaddr_parse_raw_pack [of us "[]"] assms show ?thesis
    by (simp add: prepend_protocols_def empty_multiaddr_def)
qed

lemma pack_one_length: "uuid_wf u \<Longrightarrow> length (pack [u]) \<le> size_max - 16"
  using encode_varuint_at_most_10 [of 150] by (simp add: pack_def uuid_wf_def uuid_kSize_def)

text \<open>C9: the binary form round-trips. Any number of UUIDs, each after the varint 150, parse to the
  address with these components in order.\<close>

theorem multiaddr_raw_roundtrip:
  assumes "list_all uuid_wf us" and "length (pack us) \<le> size_max - 16"
  shows "multiaddr_parse_raw (pack us) =
    Ret (Some (empty_multiaddr\<lparr>protocols := map BluetoothAddress us\<rparr>))"
  using assms by (rule multiaddr_parse_raw_packed)

lemma multiaddr_raw_roundtrip_witness:
  "multiaddr_parse_raw (pack [sample_uuid, zero_uuid]) =
     Ret (Some (empty_multiaddr\<lparr>protocols := [BluetoothAddress sample_uuid, BluetoothAddress zero_uuid]\<rparr>))"
proof -
  have "uuid_wf zero_uuid" by (simp add: uuid_wf_def zero_uuid_def)
  moreover have "length (pack [sample_uuid, zero_uuid]) \<le> size_max - 16"
    using encode_varuint_at_most_10 [of 150] by (simp add: pack_def sample_uuid_def zero_uuid_def uuid_kSize_def)
  ultimately show ?thesis
    using multiaddr_raw_roundtrip [of "[sample_uuid, zero_uuid]"] sample_uuid_wf by simp
qed

text \<open>C34: what parse_raw does on every byte sequence, one component at a time. An incomplete varint
  ends the address and is accepted as if it were not there; a code other than 150 and a UUID with
  fewer than sixteen bytes reject the input.\<close>

theorem multiaddr_parse_raw_every_input:
  assumes "length bs \<le> size_max - 16"
  shows "multiaddr_parse_raw bs =
    (case decode_varuint bs of
       Ret None \<Rightarrow> Ret (Some empty_multiaddr)
     | Ret (Some (code, n)) \<Rightarrow>
         if code = 150 \<and> n + 16 \<le> length bs
         then prepend_protocols [next_address (drop n bs)] (multiaddr_parse_raw (drop (n + 16) bs))
         else Ret None
     | Throw e \<Rightarrow> Throw e
     | Terminate \<Rightarrow> Terminate
     | Undef u \<Rightarrow> Undef u)"
  unfolding multiaddr_parse_raw_step [OF assms]
  by (cases "decode_varuint bs") (auto split: option.split)

lemma multiaddr_parse_raw_every_input_witness:
  "multiaddr_parse_raw [0xE2] = Ret (Some empty_multiaddr) \<and>
   multiaddr_parse_raw (replicate 11 0x80) = Undef Shift_width"
proof -
  have "decode_varuint [0xE2] = Ret None" by code_simp
  moreover have "decode_varuint (replicate 11 0x80) = Undef Shift_width" by code_simp
  ultimately show ?thesis
    using multiaddr_parse_raw_every_input [of "[0xE2]"]
      multiaddr_parse_raw_every_input [of "replicate 11 0x80"] by simp
qed

definition raw_chunks :: "(bytes \<times> bluetooth_address) list \<Rightarrow> bytes" where
  "raw_chunks cs = concat (map (\<lambda>(k, p). k @ bluetooth_raw p) cs)"

definition is_code_150 :: "bytes \<Rightarrow> bool" where
  "is_code_150 k \<longleftrightarrow> decode_varuint k = Ret (Some (150, length k))"

text \<open>A successful parse_raw has taken the input apart: varints that denote 150 (in any, also
  overlong, encoding), each followed by the sixteen bytes of one component, and an incomplete
  varint or nothing at the end; the address is well-formed and has no version.\<close>

theorem multiaddr_parse_raw_sound:
  "length bs \<le> size_max - 16 \<Longrightarrow> multiaddr_parse_raw bs = Ret (Some m) \<Longrightarrow>
     multiaddr_wf m \<and> version m = None \<and>
     (\<exists>cs rest. bs = raw_chunks cs @ rest \<and> map snd cs = protocols m \<and>
        list_all (is_code_150 \<circ> fst) cs \<and> decode_varuint rest = Ret None)"
proof (induction "length bs" arbitrary: bs m rule: less_induct)
  case less
  from less.prems obtain r where r: "decode_varuint bs = Ret r"
    by (subst (asm) multiaddr_parse_raw_step) (auto simp: outcome_simps)
  show ?case
  proof (cases r)
    case None
    with r less.prems have "m = empty_multiaddr" by (simp add: multiaddr_parse_raw_step)
    with r None show ?thesis
      by (auto simp: multiaddr_wf_def empty_multiaddr_def raw_chunks_def intro: exI [of _ "[]"])
  next
    case (Some vn)
    obtain v n where vn: "vn = (v, n)" by (cases vn)
    define p where "p = next_address (drop n bs)"
    from r Some vn less.prems have v: "v = 150" "n + 16 \<le> length bs"
      by (auto simp: multiaddr_parse_raw_step split: if_splits)
    with r Some vn less.prems obtain m' where
      m': "multiaddr_parse_raw (drop (n + 16) bs) = Ret (Some m')"
        "m = m'\<lparr>protocols := p # protocols m'\<rparr>"
      by (auto simp: multiaddr_parse_raw_step [of bs] prepend_protocols_def p_def outcome_simps
            map_option_case split: option.splits)
    have n: "1 \<le> n" "n \<le> length bs" "decode_varuint (take n bs) = Ret (Some (150, n))"
      using decode_varuint_local [of bs 150 n "[]"] r Some vn v(1) by simp_all
    have "multiaddr_wf m' \<and> version m' = None \<and>
       (\<exists>cs rest. drop (n + 16) bs = raw_chunks cs @ rest \<and> map snd cs = protocols m' \<and>
          list_all (is_code_150 \<circ> fst) cs \<and> decode_varuint rest = Ret None)"
      by (rule less.hyps [OF _ _ m'(1)]) (use less.prems v n in auto)
    then obtain cs rest where IH: "multiaddr_wf m'" "version m' = None"
      "drop (n + 16) bs = raw_chunks cs @ rest" "map snd cs = protocols m'"
      "list_all (is_code_150 \<circ> fst) cs" "decode_varuint rest = Ret None" by blast
    have p: "bluetooth_raw p = take 16 (drop n bs)" "bluetooth_wf p"
      using v n by (simp_all add: p_def next_address_def bluetooth_raw_def BluetoothAddress_def
          bluetooth_wf_def uuid_wf_def uuid_kSize_def)
    have "bs = take n bs @ take 16 (drop n bs) @ drop (n + 16) bs"
      by (metis append_take_drop_id drop_drop add.commute)
    also have "\<dots> = raw_chunks ((take n bs, p) # cs) @ rest"
      by (simp add: raw_chunks_def p IH(3) [unfolded raw_chunks_def])
    finally have "bs = raw_chunks ((take n bs, p) # cs) @ rest" .
    moreover have "list_all (is_code_150 \<circ> fst) ((take n bs, p) # cs)"
      using IH n by (simp add: is_code_150_def min_absorb2)
    ultimately show ?thesis
      using IH p m'(2) by (auto simp: multiaddr_wf_def intro!: exI [of _ "(take n bs, p) # cs"])
  qed
qed

lemma list_all_takeWhile_10: "10 \<le> length (takeWhile P xs) \<Longrightarrow> list_all P (take 10 xs)"
proof -
  assume "10 \<le> length (takeWhile P xs)"
  then have "take 10 xs = take 10 (takeWhile P xs)"
    by (metis append_take_drop_id take_append takeWhile_dropWhile_id diff_is_0_eq take_0
        append_Nil2)
  then show ?thesis by (auto simp: list_all_iff dest: in_set_takeD set_takeWhileD)
qed

text \<open>The only input parse_raw does not return on is one in which ten continuation bytes and
  another byte follow each other: no exception, no abort and no access outside the input.\<close>

theorem multiaddr_parse_raw_outcomes:
  assumes "length bs \<le> size_max - 16" and "\<not> returns (multiaddr_parse_raw bs)"
  shows "multiaddr_parse_raw bs = Undef Shift_width \<and>
    (\<exists>k. k + 10 < length bs \<and> list_all is_continuation (take 10 (drop k bs)))"
  using assms
proof (induction "length bs" arbitrary: bs rule: less_induct)
  case less
  show ?case
  proof (cases "returns (decode_varuint bs)")
    case False
    then have dec: "decode_varuint bs = Undef Shift_width"
      and many: "\<not> length (takeWhile is_continuation bs) \<le> 9" "10 < length bs"
      using length_takeWhile_le [of is_continuation bs]
      by (auto simp: decode_varuint_every_input Let_def split: if_splits)
    then have "list_all is_continuation (take 10 bs)"
      by (intro list_all_takeWhile_10) simp
    with many dec less.prems show ?thesis
      by (auto simp: multiaddr_parse_raw_step intro!: exI [of _ 0])
  next
    case True
    then obtain r where r: "decode_varuint bs = Ret r" by (auto simp: returns_iff)
    with less.prems obtain n where n: "r = Some (150, n)" "n + 16 \<le> length bs"
      by (auto simp: multiaddr_parse_raw_step split: option.splits if_splits)
    define rest where "rest = drop (n + 16) bs"
    have eq: "multiaddr_parse_raw bs =
        prepend_protocols [next_address (drop n bs)] (multiaddr_parse_raw rest)"
      using r n less.prems by (simp add: multiaddr_parse_raw_step [of bs] rest_def)
    with less.prems have "\<not> returns (multiaddr_parse_raw rest)"
      by (cases "multiaddr_parse_raw rest") (auto simp: prepend_protocols_def)
    then have IH: "multiaddr_parse_raw rest = Undef Shift_width \<and>
        (\<exists>k. k + 10 < length rest \<and> list_all is_continuation (take 10 (drop k rest)))"
      by (intro less.hyps) (use less.prems n in \<open>auto simp: rest_def\<close>)
    then obtain k where k: "k + 10 < length rest" "list_all is_continuation (take 10 (drop k rest))"
      by blast
    then have "k + (n + 16) + 10 < length bs \<and>
        list_all is_continuation (take 10 (drop (k + (n + 16)) bs))"
      by (simp add: rest_def)
    then have "\<exists>k. k + 10 < length bs \<and> list_all is_continuation (take 10 (drop k bs))" by blast
    moreover have "multiaddr_parse_raw bs = Undef Shift_width"
      using IH eq by (simp add: prepend_protocols_def)
    ultimately show ?thesis by simp
  qed
qed

lemma multiaddr_parse_raw_sound_witness:
  "multiaddr_wf (empty_multiaddr\<lparr>protocols := [BluetoothAddress sample_uuid]\<rparr>)"
  using multiaddr_parse_raw_packed [of "[sample_uuid]"] pack_one_length [OF sample_uuid_wf]
    sample_uuid_wf multiaddr_parse_raw_sound [of "pack [sample_uuid]"] by simp

lemma multiaddr_parse_raw_outcomes_witness:
  "multiaddr_parse_raw (replicate 11 0xFF) = Undef Shift_width"
proof -
  have "decode_varuint (replicate 11 0xFF) = Undef Shift_width" by code_simp
  then have "\<not> returns (multiaddr_parse_raw (replicate 11 0xFF))"
    by (simp add: multiaddr_parse_raw_step)
  then show ?thesis using multiaddr_parse_raw_outcomes [of "replicate 11 0xFF"] by simp
qed

text \<open>Read_bytes returns exactly the next \<open>count\<close> bytes when they are there and advances past
  them, and returns nothing and stays where it is when they are not, as long as position plus
  count is below 2^64. Past that the sum wraps around, the check passes, and the returned span
  leaves the buffer.\<close>

theorem read_bytes_every_count:
  assumes "raw_wf t" and "count < 2 ^ 64"
  shows "read_bytes count t =
    (if raw_current t + count \<le> length (raw_bytes t)
     then Ret (Some (take count (drop (raw_current t) (raw_bytes t))),
               t\<lparr>raw_current := raw_current t + count\<rparr>)
     else if raw_current t + count < 2 ^ 64 then Ret (None, t)
     else Undef Out_of_bounds)"
  by (rule read_bytes_spec) (use assms in auto)

lemma read_bytes_every_count_witness:
  "read_bytes 18446744073709551615 \<lparr>raw_bytes = [1, 2, 3], raw_current = 1\<rparr> = Undef Out_of_bounds \<and>
   read_bytes 2 \<lparr>raw_bytes = [1, 2, 3], raw_current = 1\<rparr> =
     Ret (Some [2, 3], \<lparr>raw_bytes = [1, 2, 3], raw_current = 3\<rparr>)"
  using read_bytes_every_count [of "\<lparr>raw_bytes = [1, 2, 3], raw_current = 1\<rparr>" 18446744073709551615]
    read_bytes_every_count [of "\<lparr>raw_bytes = [1, 2, 3], raw_current = 1\<rparr>" 2]
  by (simp add: raw_wf_def)

text \<open>The fixed-width reads never give out a number: uint32 and uint64 refuse a value that ends exactly
  at the end of the input, and the access to one that has a byte left over after it is undefined.\<close>

theorem raw_uint_needs_spare_byte:
  assumes "raw_wf t" and "length (raw_bytes t) < 2 ^ 64 - 8"
  shows "raw_uint32 t =
      (if raw_current t + 4 < length (raw_bytes t) then Undef Type_punning else Ret (None, t)) \<and>
    raw_uint64 t =
      (if raw_current t + 8 < length (raw_bytes t) then Undef Type_punning else Ret (None, t))"
proof -
  have "raw_current t + 4 < 2 ^ 64" "raw_current t + 8 < 2 ^ 64"
    using assms by (auto simp: raw_wf_def)
  then show ?thesis
    using raw_read_spec [OF assms(1), of 4] raw_read_spec [OF assms(1), of 8]
    by (simp add: raw_uint32_def raw_uint64_def)
qed

lemma raw_uint_needs_spare_byte_witness:
  "raw_uint32 (raw_tokenizer [1, 0, 0, 0]) = Ret (None, raw_tokenizer [1, 0, 0, 0]) \<and>
   raw_uint32 (raw_tokenizer [1, 0, 0, 0, 9]) = Undef Type_punning"
  using raw_uint_needs_spare_byte [of "raw_tokenizer [1, 0, 0, 0]"]
    raw_uint_needs_spare_byte [of "raw_tokenizer [1, 0, 0, 0, 9]"]
  by (simp add: raw_wf_def raw_tokenizer_def)

text \<open>Varuint32 returns every value below 2^32 - 1, refuses larger ones and also 2^32 - 1 itself,
  the greatest \<open>uint32_t\<close>; the varint is consumed either way.\<close>

theorem varuint32_after_encode:
  assumes "drop (raw_current t) (raw_bytes t) = encode_varuint v @ rest" and "raw_wf t"
  shows "varuint32 t =
    Ret (if unat v < 2 ^ 32 - 1 then Some (ucast v) else None,
         t\<lparr>raw_current := raw_current t + length (encode_varuint v)\<rparr>)"
proof -
  have "v < 0xFFFFFFFF \<longleftrightarrow> unat v < 2 ^ 32 - 1" by (simp add: word_less_nat_alt)
  then show ?thesis
    using assms by (simp add: varuint32_def read_uleb128_def decode_varuint_encode raw_wf_def)
qed

lemma varuint32_after_encode_witness:
  "fst (case varuint32 (raw_tokenizer (encode_varuint 0xFFFFFFFF)) of Ret x \<Rightarrow> x) = None"
  using varuint32_after_encode [of "raw_tokenizer (encode_varuint 0xFFFFFFFF)" "0xFFFFFFFF" "[]"]
    encode_varuint_at_most_10 [of "0xFFFFFFFF"]
  by (simp add: raw_tokenizer_def raw_wf_def)

text \<open>Parse_raw does not know the code that \<open>BluetoothAddress\<close> objects carry: the code of every
  well-formed component followed by its raw bytes is rejected, whatever comes after.\<close>

theorem bluetooth_code_not_parsed:
  assumes "bluetooth_wf p" and "bs = protocol_code p # bluetooth_raw p @ rest"
    and "length bs \<le> size_max - 16"
  shows "multiaddr_parse_raw bs = Ret None"
proof -
  have code: "protocol_code p = 98"
    using bluetooth_wfD(1) [OF assms(1)] by (metis BluetoothAddress_def protocol.select_convs(2))
  have "decode_varuint (98 # xs) = Ret (Some (98, 1))" for xs
    by (simp add: decode_varuint_def)
  then show ?thesis using assms code by (simp add: multiaddr_parse_raw_step)
qed

lemma bluetooth_code_not_parsed_witness:
  "multiaddr_parse_raw (98 # uuid_bytes sample_uuid) = Ret None"
proof -
  have wf: "bluetooth_wf (BluetoothAddress sample_uuid)"
    by (simp add: bluetooth_wf_BluetoothAddress sample_uuid_wf)
  have bs: "98 # uuid_bytes sample_uuid = protocol_code (BluetoothAddress sample_uuid)
      # bluetooth_raw (BluetoothAddress sample_uuid) @ []"
    by (simp add: BluetoothAddress_def bluetooth_raw_def)
  show ?thesis by (rule bluetooth_code_not_parsed [OF wf bs]) (simp add: sample_uuid_def)
qed

end
