(* ===== verification/Raw_Cursor.thy ===== *)
theory Raw_Cursor
  imports Multiaddr_Raw
begin

text \<open>
  The binary tokenizer of \<open>utils/multiaddr.h\<close> as a whole: whatever is read from it, in any order, is what a
  cursor on the list of the remaining bytes gives. The tokenizer of a vector, whose bytes are gone when
  the constructor ends.
\<close>

section \<open>Sequences of operations\<close>

fun op_run :: "('o \<Rightarrow> 's \<Rightarrow> ('v \<times> 's) outcome) \<Rightarrow> 'o list \<Rightarrow> 's \<Rightarrow> ('v list \<times> 's) outcome" where
  "op_run f [] s = Ret ([], s)"
| "op_run f (x # xs) s = obind (f x s) (\<lambda>(v, s). obind (op_run f xs s) (\<lambda>(vs, s). Ret (v # vs, s)))"

definition seen :: "('s \<Rightarrow> 'a) \<Rightarrow> ('v \<times> 's) outcome \<Rightarrow> ('v \<times> 'a) outcome" where
  "seen f r = obind r (\<lambda>(v, s). Ret (v, f s))"

lemma seen_Ret: "seen f r = Ret (v, a) \<Longrightarrow> \<exists>s. r = Ret (v, s) \<and> f s = a"
  by (auto simp: seen_def obind_eq_Ret)

text \<open>Operations on concrete states that commute with operations on abstract ones.\<close>

locale op_refinement =
  fixes conc :: "'o \<Rightarrow> 's \<Rightarrow> ('v \<times> 's) outcome"
    and spec :: "'o \<Rightarrow> 'a \<Rightarrow> ('v \<times> 'a) outcome"
    and abst :: "'s \<Rightarrow> 'a"
    and inv :: "'s \<Rightarrow> bool"
    and allowed :: "'o \<Rightarrow> bool"
  assumes commutes: "inv s \<Longrightarrow> allowed x \<Longrightarrow> seen abst (conc x s) = spec x (abst s)"
    and keeps: "inv s \<Longrightarrow> allowed x \<Longrightarrow> conc x s = Ret (v, s') \<Longrightarrow> inv s'"
begin

lemma run_keeps: "inv s \<Longrightarrow> list_all allowed xs \<Longrightarrow> op_run conc xs s = Ret (vs, s') \<Longrightarrow> inv s'"
  by (induction xs arbitrary: s vs) (auto simp: obind_eq_Ret dest: keeps)

lemma run_commutes:
  "inv s \<Longrightarrow> list_all allowed xs \<Longrightarrow> seen abst (op_run conc xs s) = op_run spec xs (abst s)"
proof (induction xs arbitrary: s)
  case (Cons x xs)
  have step: "seen abst (conc x s) = spec x (abst s)" using Cons.prems by (simp add: commutes)
  show ?case
  proof (cases "conc x s")
    case (Ret p)
    then obtain v s1 where p: "conc x s = Ret (v, s1)" by (cases p) auto
    have "inv s1" using Cons.prems p keeps by auto
    then have IH: "op_run spec xs (abst s1) = seen abst (op_run conc xs s1)" using Cons by simp
    have "spec x (abst s) = Ret (v, abst s1)" using step p by (simp add: seen_def)
    then show ?thesis using p IH by (cases "op_run conc xs s1") (auto simp: seen_def)
  qed (use step in \<open>auto simp: seen_def simp flip: step\<close>)
qed (simp add: seen_def)

end

section \<open>The operations of the tokenizer\<close>

datatype token_op = Op_uint64 | Op_uint32 | Op_uleb128 | Op_varuint32 | Op_bytes nat

datatype token = Number64 u64 | Number32 u32 | Span bytes

definition as_token :: "('v \<Rightarrow> token) \<Rightarrow> ('v option \<times> 's) outcome \<Rightarrow> (token option \<times> 's) outcome" where
  "as_token f r = obind r (\<lambda>(v, t). Ret (map_option f v, t))"

fun tokenizer_op :: "token_op \<Rightarrow> raw_tokenizer \<Rightarrow> (token option \<times> raw_tokenizer) outcome" where
  "tokenizer_op Op_uint64 t = as_token Number64 (raw_uint64 t)"
| "tokenizer_op Op_uint32 t = as_token Number32 (raw_uint32 t)"
| "tokenizer_op Op_uleb128 t = as_token Number64 (read_uleb128 t)"
| "tokenizer_op Op_varuint32 t = as_token Number32 (varuint32 t)"
| "tokenizer_op (Op_bytes count) t = as_token Span (read_bytes count t)"

section \<open>The cursor\<close>

text \<open>
  Its state is the list of the bytes that are left. A number of fixed width is not given out when no byte
  is left over after it, and cannot be read otherwise; a variable one that 32 bits cannot hold is consumed
  and not given out.
\<close>

definition peel :: "nat \<Rightarrow> bytes \<Rightarrow> (bytes \<Rightarrow> token) \<Rightarrow> token option \<times> bytes" where
  "peel n bs f = (Some (f (take n bs)), drop n bs)"

definition cursor_varuint :: "bytes \<Rightarrow> (u64 \<Rightarrow> token option) \<Rightarrow> (token option \<times> bytes) outcome" where
  "cursor_varuint bs f = obind (decode_varuint bs) (\<lambda>r. case r of
     None \<Rightarrow> Ret (None, bs)
   | Some (v, n) \<Rightarrow> Ret (f v, drop n bs))"

fun cursor_op :: "token_op \<Rightarrow> bytes \<Rightarrow> (token option \<times> bytes) outcome" where
  "cursor_op Op_uint64 bs = (if 8 < length bs then Undef Type_punning else Ret (None, bs))"
| "cursor_op Op_uint32 bs = (if 4 < length bs then Undef Type_punning else Ret (None, bs))"
| "cursor_op Op_uleb128 bs = cursor_varuint bs (\<lambda>v. Some (Number64 v))"
| "cursor_op Op_varuint32 bs = cursor_varuint bs (\<lambda>v. if v < 0xFFFFFFFF then Some (Number32 (ucast v)) else None)"
| "cursor_op (Op_bytes count) bs = Ret (if count \<le> length bs then peel count bs Span else (None, bs))"

section \<open>The refinement\<close>

definition remaining :: "raw_tokenizer \<Rightarrow> bytes" where
  "remaining t = drop (raw_current t) (raw_bytes t)"

text \<open>The tokenizer is one of \<open>bs\<close>, and no sum of a position and a count wraps around.\<close>

definition over :: "bytes \<Rightarrow> raw_tokenizer \<Rightarrow> bool" where
  "over bs t \<longleftrightarrow> raw_bytes t = bs \<and> raw_current t \<le> length bs \<and> length bs + 8 < 2 ^ 64"

fun in_range :: "bytes \<Rightarrow> token_op \<Rightarrow> bool" where
  "in_range bs (Op_bytes count) \<longleftrightarrow> length bs + count < 2 ^ 64"
| "in_range bs _ \<longleftrightarrow> True"

lemma over_wf: "over bs t \<Longrightarrow> raw_wf t"
  by (auto simp: over_def raw_wf_def)

lemma fixed_width_commutes:
  assumes "over bs t" "n \<le> 8"
  shows "seen remaining (as_token f (raw_read n t :: ('a option \<times> raw_tokenizer) outcome)) =
    (if n < length (remaining t) then Undef Type_punning else Ret (None, remaining t))"
proof -
  have "raw_current t + n < 2 ^ 64" using assms by (simp add: over_def)
  from raw_read_spec [OF over_wf [OF assms(1)] this, where ?'a = 'a]
  show ?thesis using assms(1) by (auto simp: over_def remaining_def as_token_def seen_def)
qed

lemma raw_read_keeps: "raw_read n t = Ret (w, t') \<Longrightarrow> w = None \<and> t' = t"
  by (simp add: raw_read_def split: if_splits)

lemma uleb128_result:
  assumes "over bs t"
  shows "read_uleb128 t = obind (decode_varuint (remaining t)) (\<lambda>r. case r of
     None \<Rightarrow> Ret (None, t) | Some (v, n) \<Rightarrow> Ret (Some v, t\<lparr>raw_current := raw_current t + n\<rparr>))"
  using assms by (simp add: read_uleb128_def over_def remaining_def)

lemma tokenizer_commutes:
  assumes "over bs t" "in_range bs x"
  shows "seen remaining (tokenizer_op x t) = cursor_op x (remaining t)"
proof (cases x)
  case Op_uint64
  then show ?thesis using fixed_width_commutes [OF assms(1), of 8 Number64] by (simp add: raw_uint64_def)
next
  case Op_uint32
  then show ?thesis using fixed_width_commutes [OF assms(1), of 4 Number32] by (simp add: raw_uint32_def)
next
  case Op_uleb128
  then show ?thesis
    by (cases "decode_varuint (remaining t)")
      (auto simp: uleb128_result [OF assms(1)] cursor_varuint_def as_token_def seen_def remaining_def add.commute split: option.splits)
next
  case Op_varuint32
  then show ?thesis
    by (cases "decode_varuint (remaining t)")
      (auto simp: varuint32_def uleb128_result [OF assms(1)] cursor_varuint_def as_token_def seen_def remaining_def add.commute
        split: option.splits)
next
  case (Op_bytes count)
  then show ?thesis using read_bytes_spec [OF over_wf [OF assms(1)], of count] assms
    by (auto simp: over_def remaining_def peel_def as_token_def seen_def add.commute)
qed

lemma tokenizer_keeps:
  assumes "over bs t" "in_range bs x" "tokenizer_op x t = Ret (v, t')"
  shows "over bs t'"
proof -
  have "read_uleb128 t = Ret (w, t1) \<Longrightarrow> over bs t1" for w t1
    using assms(1) decode_varuint_progress [of "remaining t"]
    by (auto simp: uleb128_result [OF assms(1)] over_def remaining_def obind_eq_Ret split: option.splits)
  moreover have "x = Op_bytes c \<Longrightarrow> read_bytes c t = Ret (w, t1) \<Longrightarrow> over bs t1" for c w t1
    using read_bytes_spec [OF over_wf [OF assms(1)], of c] assms(1,2) by (auto simp: over_def split: if_splits)
  ultimately show ?thesis using assms(1,3)
    by (cases x) (auto simp: as_token_def raw_uint64_def raw_uint32_def varuint32_def obind_eq_Ret
        dest: raw_read_keeps split: option.splits outcome.splits)
qed

interpretation raw: op_refinement tokenizer_op cursor_op remaining "over bs" "in_range bs" for bs
  by unfold_locales (auto intro: tokenizer_commutes tokenizer_keeps)

section \<open>A tokenizer of a vector\<close>

text \<open>
  The constructor that takes a vector views its parameter, which is destroyed when the constructor
  returns. The sizes are still known then; an operation that looks at a byte uses freed memory.
\<close>

definition vector_tokenizer :: "bytes \<Rightarrow> raw_tokenizer" where
  "vector_tokenizer bs = raw_tokenizer bs"

fun looks :: "token_op \<Rightarrow> raw_tokenizer \<Rightarrow> bool" where
  "looks Op_uint64 t \<longleftrightarrow> \<not> length (raw_bytes t) \<le> size_add (raw_current t) 8"
| "looks Op_uint32 t \<longleftrightarrow> \<not> length (raw_bytes t) \<le> size_add (raw_current t) 4"
| "looks Op_uleb128 t \<longleftrightarrow> raw_current t < length (raw_bytes t)"
| "looks Op_varuint32 t \<longleftrightarrow> raw_current t < length (raw_bytes t)"
| "looks (Op_bytes count) t \<longleftrightarrow> False"

definition freed_op :: "token_op \<Rightarrow> raw_tokenizer \<Rightarrow> (token option \<times> raw_tokenizer) outcome" where
  "freed_op x t = (if looks x t then Undef Use_after_free else tokenizer_op x t)"

lemma decode_varuint_empty: "decode_varuint [] = Ret None"
  by (simp add: decode_varuint_def)

text \<open>So it never gives out a number: an operation that returns gives nothing, or a view of freed bytes.\<close>

lemma freed_op_returns:
  assumes "over bs t" "freed_op x t = Ret (v, t')"
  shows "v = None \<or> (\<exists>count b. x = Op_bytes count \<and> v = Some (Span b))"
proof (cases x)
  case Op_uint64
  then show ?thesis using assms(2)
    by (auto simp: freed_op_def as_token_def raw_uint64_def obind_eq_Ret dest: raw_read_keeps split: if_splits)
next
  case Op_uint32
  then show ?thesis using assms(2)
    by (auto simp: freed_op_def as_token_def raw_uint32_def obind_eq_Ret dest: raw_read_keeps split: if_splits)
next
  case Op_uleb128
  then show ?thesis using assms
    by (auto simp: freed_op_def as_token_def uleb128_result [OF assms(1)] remaining_def decode_varuint_empty split: if_splits)
next
  case Op_varuint32
  then show ?thesis using assms
    by (auto simp: freed_op_def as_token_def varuint32_def uleb128_result [OF assms(1)] remaining_def
        decode_varuint_empty split: if_splits)
next
  case (Op_bytes count)
  then show ?thesis using assms by (auto simp: freed_op_def as_token_def obind_eq_Ret)
qed

section \<open>Property\<close>

lemma decode_varuint_outcomes: "decode_varuint bs \<in> insert (Undef Shift_width) (range Ret)"
  unfolding decode_varuint_def by (subst decode_varuint_loop_spec [OF refl]) auto

text \<open>What can go wrong: the shift of a long varint, and the access to a number of fixed width.\<close>

definition token_results :: "'v outcome set" where
  "token_results = {Undef Shift_width, Undef Type_punning} \<union> range Ret"

lemma cursor_safe: "cursor_op x bs \<in> token_results"
proof -
  have "cursor_varuint bs f \<in> token_results" for f
    using decode_varuint_outcomes [of bs] by (auto simp: cursor_varuint_def token_results_def split: option.splits)
  then show ?thesis by (cases x) (auto simp: token_results_def)
qed

lemma cursor_run_safe: "op_run cursor_op xs bs \<in> token_results"
proof (induction xs arbitrary: bs)
  case (Cons x xs)
  show ?case
  proof (cases "cursor_op x bs")
    case (Ret p)
    then show ?thesis using Cons.IH [of "snd p"] by (auto simp: case_prod_unfold token_results_def)
  qed (use cursor_safe [of x bs] in \<open>auto simp: token_results_def\<close>)
qed (simp add: token_results_def)

lemma seen_safe: "seen f r \<in> token_results \<Longrightarrow> r \<in> token_results"
  by (cases r) (auto simp: seen_def token_results_def)

lemma fixed_width_undefined:
  assumes "over bs t"
  shows "raw_current t + 4 < length bs \<Longrightarrow> raw_uint32 t = Undef Type_punning"
    and "raw_current t + 8 < length bs \<Longrightarrow> raw_uint64 t = Undef Type_punning"
  using raw_read_spec [OF over_wf [OF assms], of 4] raw_read_spec [OF over_wf [OF assms], of 8] assms
  by (auto simp: over_def raw_uint32_def raw_uint64_def)

text \<open>C33: The binary tokenizer is a cursor. Whatever is read from it, in any order, the results are those
  of peeling the same items off the list of the remaining bytes, and what it has left is what that list
  has left. It never reads out of bounds, and two things can go wrong: the shift of a varint that is too
  long, and a number of fixed width with a byte left over after it, which is never read, since the access
  to the bytes as a \<open>uint32_t\<close> or \<open>uint64_t\<close> is undefined. This holds as long as no requested count makes the
  sum with the position wrap around; a count that does passes the check, and what is returned leaves the
  buffer.\<close>

theorem tokenizer_is_cursor:
  assumes "length bs + 8 < 2 ^ 64" and "list_all (in_range bs) ops"
  shows "seen remaining (op_run tokenizer_op ops (raw_tokenizer bs)) = op_run cursor_op ops bs \<and>
    op_run tokenizer_op ops (raw_tokenizer bs) \<in> {Undef Shift_width, Undef Type_punning} \<union> range Ret \<and>
    (\<forall>vs t count. op_run tokenizer_op ops (raw_tokenizer bs) = Ret (vs, t) \<longrightarrow>
      raw_bytes t = bs \<and> raw_current t \<le> length bs \<and>
      (raw_current t + 4 < length bs \<longrightarrow> raw_uint32 t = Undef Type_punning) \<and>
      (raw_current t + 8 < length bs \<longrightarrow> raw_uint64 t = Undef Type_punning) \<and>
      (count < 2 ^ 64 \<and> 2 ^ 64 \<le> raw_current t + count \<longrightarrow> read_bytes count t = Undef Out_of_bounds))"
proof -
  have start: "over bs (raw_tokenizer bs)" "remaining (raw_tokenizer bs) = bs"
    using assms(1) by (simp_all add: over_def raw_tokenizer_def remaining_def)
  have run: "seen remaining (op_run tokenizer_op ops (raw_tokenizer bs)) = op_run cursor_op ops bs"
    using raw.run_commutes [OF start(1) assms(2)] start(2) by simp
  moreover have "op_run tokenizer_op ops (raw_tokenizer bs) \<in> {Undef Shift_width, Undef Type_punning} \<union> range Ret"
    by (fold token_results_def, rule seen_safe [of remaining]) (simp only: run cursor_run_safe)
  moreover have "raw_bytes t = bs \<and> raw_current t \<le> length bs \<and>
      (raw_current t + 4 < length bs \<longrightarrow> raw_uint32 t = Undef Type_punning) \<and>
      (raw_current t + 8 < length bs \<longrightarrow> raw_uint64 t = Undef Type_punning) \<and>
      (count < 2 ^ 64 \<and> 2 ^ 64 \<le> raw_current t + count \<longrightarrow> read_bytes count t = Undef Out_of_bounds)"
    if "op_run tokenizer_op ops (raw_tokenizer bs) = Ret (vs, t)" for vs t count
  proof -
    have o: "over bs t" by (rule raw.run_keeps [OF start(1) assms(2) that])
    then show ?thesis using read_bytes_spec [OF over_wf [OF o], of count] fixed_width_undefined [OF o]
      by (auto simp: over_def)
  qed
  ultimately show ?thesis by blast
qed

theorem tokenizer_is_cursor_witness:
  "\<exists>t. op_run tokenizer_op [Op_bytes 2, Op_uint32, Op_bytes 1] (raw_tokenizer [5, 7, 8]) =
      Ret ([Some (Span [5, 7]), None, Some (Span [8])], t) \<and> remaining t = [] \<and>
    read_bytes 18446744073709551615 t = Undef Out_of_bounds"
proof -
  let ?ops = "[Op_bytes 2, Op_uint32, Op_bytes 1]" and ?bs = "[5, 7, 8] :: bytes"
  have listed: "op_run cursor_op ?ops ?bs = Ret ([Some (Span [5, 7]), None, Some (Span [8])], [])"
    by (simp add: peel_def)
  have "length ?bs + 8 < 2 ^ 64" "list_all (in_range ?bs) ?ops" by simp_all
  note cursor = tokenizer_is_cursor [OF this]
  obtain t where t: "op_run tokenizer_op ?ops (raw_tokenizer ?bs) = Ret ([Some (Span [5, 7]), None, Some (Span [8])], t)"
    "remaining t = []"
    using seen_Ret [OF cursor [THEN conjunct1, unfolded listed]] by blast
  note bound = cursor [THEN conjunct2, THEN conjunct2, THEN spec, THEN spec, THEN spec, THEN mp, OF t(1)]
  have "raw_current t = 3" using bound t(2) by (simp add: remaining_def)
  then have "read_bytes 18446744073709551615 t = Undef Out_of_bounds" using bound [of 18446744073709551615] by simp
  then show ?thesis using t by blast
qed

end
