(* ===== verification/Multiaddr_Order.thy ===== *)
theory Multiaddr_Order
  imports Multiaddr
begin

text \<open>
  The comparison of addresses in \<open>utils/multiaddr.h\<close>. \<open>operator<=>\<close> of \<open>Multiaddr\<close> is defaulted, and its first
  member is a vector of \<open>std::unique_ptr\<close>, which compare as pointers. So an address is modelled here as the
  object in memory: the pointers to its components, and a heap they point into.
\<close>

section \<open>The code\<close>

record multiaddr_object =
  protocol_ptrs :: "u64 list"
  object_identifier :: bytes
  object_version :: "semantic_version option"

definition compare_u8 :: "u8 \<Rightarrow> u8 \<Rightarrow> strong_ordering" where
  "compare_u8 a b = (if a < b then Less else if a = b then Equal else Greater)"

text \<open>The comparisons of \<open>std::vector\<close> and \<open>std::optional\<close>.\<close>

fun compare_vector :: "('a \<Rightarrow> 'a \<Rightarrow> strong_ordering) \<Rightarrow> 'a list \<Rightarrow> 'a list \<Rightarrow> strong_ordering" where
  "compare_vector cmp [] [] = Equal"
| "compare_vector cmp [] (y # ys) = Less"
| "compare_vector cmp (x # xs) [] = Greater"
| "compare_vector cmp (x # xs) (y # ys) = (case cmp x y of Equal \<Rightarrow> compare_vector cmp xs ys | r \<Rightarrow> r)"

fun compare_optional :: "('a \<Rightarrow> 'a \<Rightarrow> strong_ordering) \<Rightarrow> 'a option \<Rightarrow> 'a option \<Rightarrow> strong_ordering" where
  "compare_optional cmp None None = Equal"
| "compare_optional cmp None (Some y) = Less"
| "compare_optional cmp (Some x) None = Greater"
| "compare_optional cmp (Some x) (Some y) = cmp x y"

definition multiaddr_compare :: "multiaddr_object \<Rightarrow> multiaddr_object \<Rightarrow> strong_ordering" where
  "multiaddr_compare a b =
     (case compare_vector compare_u64 (protocol_ptrs a) (protocol_ptrs b) of
        Equal \<Rightarrow>
          (case compare_vector compare_u8 (object_identifier a) (object_identifier b) of
             Equal \<Rightarrow> compare_optional semver_compare (object_version a) (object_version b)
           | r \<Rightarrow> r)
      | r \<Rightarrow> r)"

text \<open>The \<open>operator==\<close> that comes with it.\<close>

definition multiaddr_equal :: "multiaddr_object \<Rightarrow> multiaddr_object \<Rightarrow> bool" where
  "multiaddr_equal a b \<longleftrightarrow> protocol_ptrs a = protocol_ptrs b \<and> object_identifier a = object_identifier b \<and>
     object_version a = object_version b"

text \<open>What an object means: the address that \<open>Multiaddr::parse\<close> and \<open>parse_raw\<close> returned.\<close>

definition denotes :: "(u64 \<rightharpoonup> bluetooth_address) \<Rightarrow> multiaddr_object \<Rightarrow> multiaddr \<Rightarrow> bool" where
  "denotes heap a m \<longleftrightarrow> map heap (protocol_ptrs a) = map Some (protocols m) \<and>
     object_identifier a = multiaddr_identifier m \<and> object_version a = version m"

text \<open>Each component is owned by one pointer of one address.\<close>

definition separate :: "multiaddr_object \<Rightarrow> multiaddr_object \<Rightarrow> bool" where
  "separate a b \<longleftrightarrow> distinct (protocol_ptrs a @ protocol_ptrs b)"

section \<open>Three-way comparisons\<close>

fun flipped :: "strong_ordering \<Rightarrow> strong_ordering" where
  "flipped Less = Greater"
| "flipped Equal = Equal"
| "flipped Greater = Less"

text \<open>What \<open>std::strong_ordering\<close> promises of a comparison.\<close>

locale three_way =
  fixes cmp :: "'a \<Rightarrow> 'a \<Rightarrow> strong_ordering"
  assumes cmp_equal: "cmp x y = Equal \<longleftrightarrow> x = y"
    and cmp_flip: "cmp y x = flipped (cmp x y)"
    and cmp_trans: "cmp x y = Less \<Longrightarrow> cmp y z = Less \<Longrightarrow> cmp x z = Less"
begin

lemma cmp_refl [simp]: "cmp x x = Equal"
  by (simp add: cmp_equal)

lemma cmp_asym: "cmp x y = Less \<Longrightarrow> cmp y x = Less \<Longrightarrow> False"
  using cmp_flip [of y x] by simp

lemma vector_equal: "compare_vector cmp xs ys = Equal \<longleftrightarrow> xs = ys"
proof (induction xs arbitrary: ys)
  case Nil
  then show ?case by (cases ys) simp_all
next
  case (Cons x xs)
  then show ?case using cmp_equal by (cases ys) (auto split: strong_ordering.split)
qed

lemma vector_flip: "compare_vector cmp ys xs = flipped (compare_vector cmp xs ys)"
proof (induction xs arbitrary: ys)
  case Nil
  then show ?case by (cases ys) simp_all
next
  case (Cons x xs)
  show ?case
  proof (cases ys)
    case (Cons y ys')
    then show ?thesis using Cons.IH [of ys'] cmp_flip [of y x] by (cases "cmp x y") simp_all
  qed simp
qed

lemma vector_trans:
  "compare_vector cmp xs ys = Less \<Longrightarrow> compare_vector cmp ys zs = Less \<Longrightarrow> compare_vector cmp xs zs = Less"
proof (induction xs arbitrary: ys zs)
  case Nil
  then show ?case by (cases ys; cases zs) simp_all
next
  case (Cons x xs)
  then obtain y ys' z zs' where "ys = y # ys'" "zs = z # zs'" by (cases ys; cases zs) simp_all
  with Cons show ?case using cmp_equal cmp_trans
    by (auto split: strong_ordering.splits dest: cmp_asym)
qed

lemma three_way_vector: "three_way (compare_vector cmp)"
  by unfold_locales (rule vector_equal, rule vector_flip, rule vector_trans)

lemma three_way_optional: "three_way (compare_optional cmp)"
proof
  fix x y z :: "'a option"
  show "compare_optional cmp x y = Equal \<longleftrightarrow> x = y" by (cases x; cases y) (simp_all add: cmp_equal)
  show "compare_optional cmp y x = flipped (compare_optional cmp x y)"
    by (cases x; cases y) (simp_all add: cmp_flip [symmetric])
  show "compare_optional cmp x y = Less \<Longrightarrow> compare_optional cmp y z = Less \<Longrightarrow> compare_optional cmp x z = Less"
    by (cases x; cases y; cases z) (simp_all add: cmp_trans)
qed

end

lemma three_way_linorder: "three_way (\<lambda>a b :: 'a :: linorder. if a < b then Less else if a = b then Equal else Greater)"
  by unfold_locales (auto split: if_splits)

interpretation u64_order: three_way compare_u64
  using three_way_linorder by (simp add: compare_u64_def [abs_def])

interpretation u8_order: three_way compare_u8
  using three_way_linorder by (simp add: compare_u8_def [abs_def])

interpretation version_order: three_way semver_compare
  using three_way_linorder by (simp add: semver_compare_is_linear_order [abs_def])

interpretation pointers_order: three_way "compare_vector compare_u64"
  by (rule u64_order.three_way_vector)

interpretation identifier_order: three_way "compare_vector compare_u8"
  by (rule u8_order.three_way_vector)

interpretation optional_version_order: three_way "compare_optional semver_compare"
  by (rule version_order.three_way_optional)

lemma ordering_cases: "r = Less \<or> r = Equal \<or> r = Greater"
  by (cases r) simp_all

lemma multiaddr_less_iff:
  "multiaddr_compare a b = Less \<longleftrightarrow> compare_vector compare_u64 (protocol_ptrs a) (protocol_ptrs b) = Less \<or>
     protocol_ptrs a = protocol_ptrs b \<and>
       (compare_vector compare_u8 (object_identifier a) (object_identifier b) = Less \<or>
        object_identifier a = object_identifier b \<and>
          compare_optional semver_compare (object_version a) (object_version b) = Less)"
  unfolding multiaddr_compare_def pointers_order.cmp_equal [symmetric] identifier_order.cmp_equal [symmetric]
  by (simp split: strong_ordering.split)

interpretation multiaddr_order: three_way multiaddr_compare
proof
  fix a b c :: multiaddr_object
  show "multiaddr_compare a b = Equal \<longleftrightarrow> a = b"
    using pointers_order.cmp_equal identifier_order.cmp_equal optional_version_order.cmp_equal
    by (auto simp: multiaddr_compare_def split: strong_ordering.split)
  show "multiaddr_compare b a = flipped (multiaddr_compare a b)"
    unfolding multiaddr_compare_def
    by (subst pointers_order.cmp_flip, subst identifier_order.cmp_flip, subst optional_version_order.cmp_flip)
      (simp split: strong_ordering.split)
  show "multiaddr_compare a b = Less \<Longrightarrow> multiaddr_compare b c = Less \<Longrightarrow> multiaddr_compare a c = Less"
    unfolding multiaddr_less_iff
    by (elim disjE conjE) (simp_all add: pointers_order.cmp_trans identifier_order.cmp_trans
        optional_version_order.cmp_trans)
qed

section \<open>Pointers of live addresses\<close>

lemma pointers_length: "denotes heap a m \<Longrightarrow> length (protocol_ptrs a) = length (protocols m)"
  unfolding denotes_def by (metis length_map)

lemma separate_unequal: "separate a b \<Longrightarrow> protocol_ptrs a \<noteq> [] \<Longrightarrow> a \<noteq> b"
  by (cases "protocol_ptrs a") (auto simp: separate_def)

definition pointers_from :: "nat \<Rightarrow> nat \<Rightarrow> u64 list" where
  "pointers_from base n = map word_of_nat [base..<base + n]"

lemma pointers_from_distinct: "n + k < 2 ^ 64 \<Longrightarrow> distinct (pointers_from 1 n @ pointers_from (1 + n) k)"
proof -
  assume small: "n + k < 2 ^ 64"
  have "pointers_from 1 n @ pointers_from (1 + n) k = map (word_of_nat :: nat \<Rightarrow> u64) [1..<1 + (n + k)]"
    unfolding pointers_from_def using upt_add_eq_append [of 1 "1 + n" k] by (simp add: add.assoc)
  moreover have "inj_on (word_of_nat :: nat \<Rightarrow> u64) {1..<1 + (n + k)}"
    using small by (intro inj_onI) (auto simp: word_of_nat_eq_iff take_bit_nat_eq_self)
  ultimately show ?thesis by (simp only: distinct_map set_upt distinct_upt simp_thms)
qed

text \<open>Any two addresses with components can be laid out in either order.\<close>

lemma laid_out_less:
  assumes "protocols m1 \<noteq> []" "protocols m2 \<noteq> []" "length (protocols m1) + length (protocols m2) < 2 ^ 64"
  shows "\<exists>heap a b. denotes heap a m1 \<and> denotes heap b m2 \<and> separate a b \<and> multiaddr_compare a b = Less"
proof -
  define n where "n = length (protocols m1)"
  define k where "k = length (protocols m2)"
  define all where "all = protocols m1 @ protocols m2"
  define heap where "heap p = Some (all ! (unat (p :: u64) - 1))" for p
  define a where "a = \<lparr>protocol_ptrs = pointers_from 1 n, object_identifier = multiaddr_identifier m1, object_version = version m1\<rparr>"
  define b where "b = \<lparr>protocol_ptrs = pointers_from (1 + n) k, object_identifier = multiaddr_identifier m2, object_version = version m2\<rparr>"
  have small: "n + k < 2 ^ 64" using assms(3) by (simp add: n_def k_def)
  have unat: "unat (word_of_nat i :: u64) = i" if "i \<le> n + k" for i
    using that small by (simp add: unat_of_nat)
  have heap: "map heap (pointers_from base len) = map (\<lambda>i. Some (all ! (i - 1))) [base..<base + len]"
    if "base + len \<le> Suc (n + k)" for base len
    using that unat by (simp add: pointers_from_def heap_def del: upt_Suc of_nat_Suc of_nat_add)
  have "map heap (pointers_from 1 n) = map Some (protocols m1)"
    by (subst heap, simp, rule nth_equalityI) (simp_all add: n_def all_def nth_append del: upt_Suc)
  moreover have "map heap (pointers_from (1 + n) k) = map Some (protocols m2)"
    by (subst heap, simp, rule nth_equalityI) (simp_all add: n_def k_def all_def nth_append del: upt_Suc)
  moreover have "compare_vector compare_u64 (pointers_from 1 n) (pointers_from (1 + n) k) = Less"
  proof -
    have "pointers_from 1 n = 1 # map word_of_nat [2..<1 + n]" "pointers_from (1 + n) k = word_of_nat (1 + n) # map word_of_nat [2 + n..<1 + n + k]"
      using assms(1,2) by (simp_all add: pointers_from_def n_def k_def upt_conv_Cons numeral_2_eq_2 del: upt_Suc)
    moreover have "(1 :: u64) < word_of_nat (1 + n)"
      using small assms(1,2) unat [of "1 + n"] by (simp add: word_less_nat_alt n_def k_def Suc_le_eq)
    ultimately show ?thesis by (simp add: compare_u64_def)
  qed
  ultimately have "denotes heap a m1 \<and> denotes heap b m2 \<and> separate a b \<and> multiaddr_compare a b = Less"
    using pointers_from_distinct [OF small]
    by (simp add: denotes_def a_def b_def separate_def multiaddr_compare_def)
  then show ?thesis by blast
qed

lemma laid_out_any_order:
  assumes "protocols m1 \<noteq> []" "protocols m2 \<noteq> []" "length (protocols m1) + length (protocols m2) < 2 ^ 64"
    and "r \<in> {Less, Greater}"
  shows "\<exists>heap a b. denotes heap a m1 \<and> denotes heap b m2 \<and> separate a b \<and> multiaddr_compare a b = r"
proof (cases "r = Less")
  case True
  then show ?thesis using laid_out_less [OF assms(1-3)] by simp
next
  case False
  obtain heap a b where "denotes heap a m2" "denotes heap b m1" "separate a b" "multiaddr_compare a b = Less"
    using laid_out_less [OF assms(2,1)] assms(3) by (auto simp: add.commute)
  then have "denotes heap b m1 \<and> denotes heap a m2 \<and> separate b a \<and> multiaddr_compare b a = r"
    using assms(4) False multiaddr_order.cmp_flip [of b a] by (auto simp: separate_def)
  then show ?thesis by blast
qed

section \<open>Properties\<close>

text \<open>C13: \<open>operator<=>\<close> of \<open>Multiaddr\<close> compares where the components lie and not what they are. Two address
  objects with components never compare equal, not even when both were parsed from the same text, and
  which of two addresses is less depends on the allocator alone: either order is possible, whatever the
  addresses. Only addresses without components compare by their identifier and version.\<close>

theorem multiaddr_compares_pointers:
  assumes "denotes heap a m1" and "denotes heap b m2" and "separate a b"
    and "length (protocols m1) + length (protocols m2) < 2 ^ 64"
  shows "(protocols m1 \<noteq> [] \<longrightarrow> multiaddr_compare a b \<noteq> Equal \<and> \<not> multiaddr_equal a b) \<and>
    (protocols m1 \<noteq> [] \<and> protocols m2 \<noteq> [] \<longrightarrow> (\<forall>r \<in> {Less, Greater}. \<exists>heap' a' b'.
      denotes heap' a' m1 \<and> denotes heap' b' m2 \<and> separate a' b' \<and> multiaddr_compare a' b' = r)) \<and>
    (protocols m1 = [] \<and> protocols m2 = [] \<longrightarrow> (multiaddr_compare a b = Equal \<longleftrightarrow> m1 = m2))"
proof (intro conjI impI)
  assume "protocols m1 \<noteq> []"
  then have "protocol_ptrs a \<noteq> []" using pointers_length [OF assms(1)] by auto
  then have "a \<noteq> b" by (rule separate_unequal [OF assms(3)])
  then show "multiaddr_compare a b \<noteq> Equal" "\<not> multiaddr_equal a b"
    by (auto simp: multiaddr_order.cmp_equal multiaddr_equal_def)
next
  assume "protocols m1 \<noteq> [] \<and> protocols m2 \<noteq> []"
  then show "\<forall>r \<in> {Less, Greater}. \<exists>heap' a' b'.
      denotes heap' a' m1 \<and> denotes heap' b' m2 \<and> separate a' b' \<and> multiaddr_compare a' b' = r"
    using laid_out_any_order [OF _ _ assms(4)] by blast
next
  assume "protocols m1 = [] \<and> protocols m2 = []"
  then show "multiaddr_compare a b = Equal \<longleftrightarrow> m1 = m2"
    using assms(1,2) unfolding multiaddr_order.cmp_equal by (cases a; cases b) (auto simp: denotes_def multiaddr.equality)
qed

theorem multiaddr_compares_pointers_witness:
  "multiaddr_compare \<lparr>protocol_ptrs = [16], object_identifier = [], object_version = Some (SemanticVersion 1 2 3)\<rparr>
     \<lparr>protocol_ptrs = [32], object_identifier = [], object_version = Some (SemanticVersion 1 2 3)\<rparr> \<noteq> Equal"
proof -
  define heap :: "u64 \<rightharpoonup> bluetooth_address" where "heap = (\<lambda>_. Some (BluetoothAddress zero_uuid))"
  define m where "m = \<lparr>protocols = [BluetoothAddress zero_uuid], multiaddr_identifier = [], version = Some (SemanticVersion 1 2 3)\<rparr>"
  show ?thesis
    by (rule multiaddr_compares_pointers [of heap _ m _ m, THEN conjunct1, THEN mp, THEN conjunct1])
      (simp_all add: denotes_def separate_def heap_def m_def)
qed

end
