(* ===== verification/Crc64.thy ===== *)
theory Crc64
  imports Prelude
begin

text \<open>
  The CRC-64 of \<open>crypto/crc64.h\<close> and \<open>crypto/crc64.cpp\<close>: a table of 256 words and a loop over the
  bytes, in two overloads. The reference is a shift register that takes the message bit by bit.
\<close>

section \<open>The code\<close>

definition kDefaultSeed :: u64 where "kDefaultSeed = 0x0"

definition crc64_tab :: "u64 list" where
  "crc64_tab = [
    0x0000000000000000, 0x7ad870c830358979, 0xf5b0e190606b12f2, 0x8f689158505e9b8b,
    0xc038e5739841b68f, 0xbae095bba8743ff6, 0x358804e3f82aa47d, 0x4f50742bc81f2d04,
    0xab28ecb46814fe75, 0xd1f09c7c5821770c, 0x5e980d24087fec87, 0x24407dec384a65fe,
    0x6b1009c7f05548fa, 0x11c8790fc060c183, 0x9ea0e857903e5a08, 0xe478989fa00bd371,
    0x7d08ff3b88be6f81, 0x07d08ff3b88be6f8, 0x88b81eabe8d57d73, 0xf2606e63d8e0f40a,
    0xbd301a4810ffd90e, 0xc7e86a8020ca5077, 0x4880fbd87094cbfc, 0x32588b1040a14285,
    0xd620138fe0aa91f4, 0xacf86347d09f188d, 0x2390f21f80c18306, 0x594882d7b0f40a7f,
    0x1618f6fc78eb277b, 0x6cc0863448deae02, 0xe3a8176c18803589, 0x997067a428b5bcf0,
    0xfa11fe77117cdf02, 0x80c98ebf2149567b, 0x0fa11fe77117cdf0, 0x75796f2f41224489,
    0x3a291b04893d698d, 0x40f16bccb908e0f4, 0xcf99fa94e9567b7f, 0xb5418a5cd963f206,
    0x513912c379682177, 0x2be1620b495da80e, 0xa489f35319033385, 0xde51839b2936bafc,
    0x9101f7b0e12997f8, 0xebd98778d11c1e81, 0x64b116208142850a, 0x1e6966e8b1770c73,
    0x8719014c99c2b083, 0xfdc17184a9f739fa, 0x72a9e0dcf9a9a271, 0x08719014c99c2b08,
    0x4721e43f0183060c, 0x3df994f731b68f75, 0xb29105af61e814fe, 0xc849756751dd9d87,
    0x2c31edf8f1d64ef6, 0x56e99d30c1e3c78f, 0xd9810c6891bd5c04, 0xa3597ca0a188d57d,
    0xec09088b6997f879, 0x96d1784359a27100, 0x19b9e91b09fcea8b, 0x636199d339c963f2,
    0xdf7adabd7a6e2d6f, 0xa5a2aa754a5ba416, 0x2aca3b2d1a053f9d, 0x50124be52a30b6e4,
    0x1f423fcee22f9be0, 0x659a4f06d21a1299, 0xeaf2de5e82448912, 0x902aae96b271006b,
    0x74523609127ad31a, 0x0e8a46c1224f5a63, 0x81e2d7997211c1e8, 0xfb3aa75142244891,
    0xb46ad37a8a3b6595, 0xceb2a3b2ba0eecec, 0x41da32eaea507767, 0x3b024222da65fe1e,
    0xa2722586f2d042ee, 0xd8aa554ec2e5cb97, 0x57c2c41692bb501c, 0x2d1ab4dea28ed965,
    0x624ac0f56a91f461, 0x1892b03d5aa47d18, 0x97fa21650afae693, 0xed2251ad3acf6fea,
    0x095ac9329ac4bc9b, 0x7382b9faaaf135e2, 0xfcea28a2faafae69, 0x8632586aca9a2710,
    0xc9622c4102850a14, 0xb3ba5c8932b0836d, 0x3cd2cdd162ee18e6, 0x460abd1952db919f,
    0x256b24ca6b12f26d, 0x5fb354025b277b14, 0xd0dbc55a0b79e09f, 0xaa03b5923b4c69e6,
    0xe553c1b9f35344e2, 0x9f8bb171c366cd9b, 0x10e3202993385610, 0x6a3b50e1a30ddf69,
    0x8e43c87e03060c18, 0xf49bb8b633338561, 0x7bf329ee636d1eea, 0x012b592653589793,
    0x4e7b2d0d9b47ba97, 0x34a35dc5ab7233ee, 0xbbcbcc9dfb2ca865, 0xc113bc55cb19211c,
    0x5863dbf1e3ac9dec, 0x22bbab39d3991495, 0xadd33a6183c78f1e, 0xd70b4aa9b3f20667,
    0x985b3e827bed2b63, 0xe2834e4a4bd8a21a, 0x6debdf121b863991, 0x1733afda2bb3b0e8,
    0xf34b37458bb86399, 0x8993478dbb8deae0, 0x06fbd6d5ebd3716b, 0x7c23a61ddbe6f812,
    0x3373d23613f9d516, 0x49aba2fe23cc5c6f, 0xc6c333a67392c7e4, 0xbc1b436e43a74e9d,
    0x95ac9329ac4bc9b5, 0xef74e3e19c7e40cc, 0x601c72b9cc20db47, 0x1ac40271fc15523e,
    0x5594765a340a7f3a, 0x2f4c0692043ff643, 0xa02497ca54616dc8, 0xdafce7026454e4b1,
    0x3e847f9dc45f37c0, 0x445c0f55f46abeb9, 0xcb349e0da4342532, 0xb1eceec59401ac4b,
    0xfebc9aee5c1e814f, 0x8464ea266c2b0836, 0x0b0c7b7e3c7593bd, 0x71d40bb60c401ac4,
    0xe8a46c1224f5a634, 0x927c1cda14c02f4d, 0x1d148d82449eb4c6, 0x67ccfd4a74ab3dbf,
    0x289c8961bcb410bb, 0x5244f9a98c8199c2, 0xdd2c68f1dcdf0249, 0xa7f41839ecea8b30,
    0x438c80a64ce15841, 0x3954f06e7cd4d138, 0xb63c61362c8a4ab3, 0xcce411fe1cbfc3ca,
    0x83b465d5d4a0eece, 0xf96c151de49567b7, 0x76048445b4cbfc3c, 0x0cdcf48d84fe7545,
    0x6fbd6d5ebd3716b7, 0x15651d968d029fce, 0x9a0d8ccedd5c0445, 0xe0d5fc06ed698d3c,
    0xaf85882d2576a038, 0xd55df8e515432941, 0x5a3569bd451db2ca, 0x20ed197575283bb3,
    0xc49581ead523e8c2, 0xbe4df122e51661bb, 0x3125607ab548fa30, 0x4bfd10b2857d7349,
    0x04ad64994d625e4d, 0x7e7514517d57d734, 0xf11d85092d094cbf, 0x8bc5f5c11d3cc5c6,
    0x12b5926535897936, 0x686de2ad05bcf04f, 0xe70573f555e26bc4, 0x9ddd033d65d7e2bd,
    0xd28d7716adc8cfb9, 0xa85507de9dfd46c0, 0x273d9686cda3dd4b, 0x5de5e64efd965432,
    0xb99d7ed15d9d8743, 0xc3450e196da80e3a, 0x4c2d9f413df695b1, 0x36f5ef890dc31cc8,
    0x79a59ba2c5dc31cc, 0x037deb6af5e9b8b5, 0x8c157a32a5b7233e, 0xf6cd0afa9582aa47,
    0x4ad64994d625e4da, 0x300e395ce6106da3, 0xbf66a804b64ef628, 0xc5bed8cc867b7f51,
    0x8aeeace74e645255, 0xf036dc2f7e51db2c, 0x7f5e4d772e0f40a7, 0x05863dbf1e3ac9de,
    0xe1fea520be311aaf, 0x9b26d5e88e0493d6, 0x144e44b0de5a085d, 0x6e963478ee6f8124,
    0x21c640532670ac20, 0x5b1e309b16452559, 0xd476a1c3461bbed2, 0xaeaed10b762e37ab,
    0x37deb6af5e9b8b5b, 0x4d06c6676eae0222, 0xc26e573f3ef099a9, 0xb8b627f70ec510d0,
    0xf7e653dcc6da3dd4, 0x8d3e2314f6efb4ad, 0x0256b24ca6b12f26, 0x788ec2849684a65f,
    0x9cf65a1b368f752e, 0xe62e2ad306bafc57, 0x6946bb8b56e467dc, 0x139ecb4366d1eea5,
    0x5ccebf68aecec3a1, 0x2616cfa09efb4ad8, 0xa97e5ef8cea5d153, 0xd3a62e30fe90582a,
    0xb0c7b7e3c7593bd8, 0xca1fc72bf76cb2a1, 0x45775673a732292a, 0x3faf26bb9707a053,
    0x70ff52905f188d57, 0x0a2722586f2d042e, 0x854fb3003f739fa5, 0xff97c3c80f4616dc,
    0x1bef5b57af4dc5ad, 0x61372b9f9f784cd4, 0xee5fbac7cf26d75f, 0x9487ca0fff135e26,
    0xdbd7be24370c7322, 0xa10fceec0739fa5b, 0x2e675fb4576761d0, 0x54bf2f7c6752e8a9,
    0xcdcf48d84fe75459, 0xb71738107fd2dd20, 0x387fa9482f8c46ab, 0x42a7d9801fb9cfd2,
    0x0df7adabd7a6e2d6, 0x772fdd63e7936baf, 0xf8474c3bb7cdf024, 0x829f3cf387f8795d,
    0x66e7a46c27f3aa2c, 0x1c3fd4a417c62355, 0x935745fc4798b8de, 0xe98f353477ad31a7,
    0xa6df411fbfb21ca3, 0xdc0731d78f8795da, 0x536fa08fdfd90e51, 0x29b7d047efec8728]"

definition crc64_step :: "u64 \<Rightarrow> u8 \<Rightarrow> u64" where
  "crc64_step crc byte = (crc64_tab ! unat ((ucast crc :: u8) XOR byte)) XOR drop_bit 8 crc"

fun crc64_seeded :: "u64 \<Rightarrow> bytes \<Rightarrow> u64" where
  "crc64_seeded crc [] = crc"
| "crc64_seeded crc (byte # data) = crc64_seeded (crc64_step crc byte) data"

definition crc64 :: "bytes \<Rightarrow> u64" where
  "crc64 data = foldl crc64_step kDefaultSeed data"

section \<open>The reference: a shift register\<close>

text \<open>The generator polynomial 0xad93d23594c935a9 of the header comment, with its bits reversed.\<close>

definition crc64_poly :: u64 where "crc64_poly = 0xad93d23594c935a9"

definition reflected_poly :: u64 where "reflected_poly = 0x95ac9329ac4bc9b5"

definition lfsr :: "u64 \<Rightarrow> u64" where
  "lfsr c = (if bit c 0 then drop_bit 1 c XOR reflected_poly else drop_bit 1 c)"

definition lfsr_bit :: "u64 \<Rightarrow> bool \<Rightarrow> u64" where
  "lfsr_bit c b = lfsr (c XOR of_bool b)"

definition byte_bits :: "u8 \<Rightarrow> bool list" where
  "byte_bits b = map (bit b) [0..<8]"

lemma reflected_poly_is_reversal: "\<forall>i < 64. bit reflected_poly i = bit crc64_poly (63 - i)"
proof -
  have "list_all (\<lambda>i. bit reflected_poly i = bit crc64_poly (63 - i)) [0..<64]" by code_simp
  then show ?thesis by (auto simp: list_all_iff)
qed

lemma lfsr_eq: "lfsr c = drop_bit 1 c XOR (if bit c 0 then reflected_poly else 0)"
  by (simp add: lfsr_def)

lemma lfsr_xor: "lfsr (a XOR b) = lfsr a XOR lfsr b"
  by (auto simp: lfsr_eq drop_bit_xor bit_xor_iff xor.assoc xor.left_commute)

lemma lfsr_0: "lfsr 0 = 0"
  by (simp add: lfsr_def)

lemma lfsr_pow_xor: "(lfsr ^^ n) (a XOR b) = (lfsr ^^ n) a XOR (lfsr ^^ n) b"
  by (induction n) (simp_all add: lfsr_xor)

lemma lfsr_pow_0: "(lfsr ^^ n) 0 = 0"
  by (induction n) (simp_all add: lfsr_0)

lemma lfsr_pow_shift: "(\<forall>i < n. \<not> bit c i) \<Longrightarrow> (lfsr ^^ n) c = drop_bit n c"
proof (induction n arbitrary: c)
  case 0
  then show ?case by simp
next
  case (Suc n)
  then have "lfsr c = drop_bit 1 c" by (simp add: lfsr_def)
  moreover from Suc.prems have "\<forall>i < n. \<not> bit (drop_bit 1 c) i"
    by (auto simp: bit_drop_bit_eq)
  ultimately show ?case
    using Suc.IH [of "drop_bit 1 c"] by (simp add: funpow_Suc_right del: funpow.simps)
qed

subsection \<open>The table\<close>

text \<open>
  The table is linear: it is generated from its entries at the powers of two, which are the first
  eight states of the shift register started at 1, in reverse order.
\<close>

definition double_table :: "u64 list \<Rightarrow> u64 \<Rightarrow> u64 list" where
  "double_table t b = t @ map (\<lambda>x. x XOR b) t"

definition basis :: "u64 list" where
  "basis = map (\<lambda>k. crc64_tab ! (2 ^ k)) [0..<8]"

lemma lfsr_poly_steps:
  "lfsr 1 = 0x95ac9329ac4bc9b5"
  "lfsr 0x95ac9329ac4bc9b5 = 0xdf7adabd7a6e2d6f"
  "lfsr 0xdf7adabd7a6e2d6f = 0xfa11fe77117cdf02"
  "lfsr 0xfa11fe77117cdf02 = 0x7d08ff3b88be6f81"
  "lfsr 0x7d08ff3b88be6f81 = 0xab28ecb46814fe75"
  "lfsr 0xab28ecb46814fe75 = 0xc038e5739841b68f"
  "lfsr 0xc038e5739841b68f = 0xf5b0e190606b12f2"
  "lfsr 0xf5b0e190606b12f2 = 0x7ad870c830358979"
  by (simp_all add: lfsr_def reflected_poly_def)

lemma basis_eq:
  "basis = [0x7ad870c830358979, 0xf5b0e190606b12f2, 0xc038e5739841b68f, 0xab28ecb46814fe75,
            0x7d08ff3b88be6f81, 0xfa11fe77117cdf02, 0xdf7adabd7a6e2d6f, 0x95ac9329ac4bc9b5]"
  unfolding basis_def crc64_tab_def by (simp add: upt_rec)

lemma basis_lfsr: "k < 8 \<Longrightarrow> basis ! k = (lfsr ^^ 8) (push_bit k 1)"
proof -
  assume "k < 8"
  then have "k \<in> {0, 1, 2, 3, 4, 5, 6, 7}" by auto
  moreover have "lfsr 2 = 1" "lfsr 4 = 2" "lfsr 8 = 4" "lfsr 16 = 8" "lfsr 32 = 16" "lfsr 64 = 32"
    "lfsr 128 = 64" by (simp_all add: lfsr_def)
  ultimately show ?thesis by (auto simp: basis_eq numeral_eq_Suc lfsr_poly_steps)
qed

lemma crc64_tab_doubling: "foldl double_table [0] basis = crc64_tab"
  unfolding basis_eq crc64_tab_def by (simp add: double_table_def)

lemma of_nat_top_bit:
  assumes "j < 2 ^ k"
  shows "(of_nat (2 ^ k + j) :: u64) = push_bit k 1 XOR of_nat j"
proof -
  have "\<not> bit j n" if "k \<le> n" for n
    using assms that by (metis bit_take_bit_iff not_less take_bit_nat_eq_self)
  then have "2 ^ k + j = 2 ^ k XOR j"
    by (intro disjunctive_add_eq_xor, intro bit_eqI) (auto simp: bit_and_iff bit_exp_iff)
  then show ?thesis by (simp add: of_nat_xor_eq push_bit_eq_mult)
qed

lemma table_prefix:
  "k \<le> 8 \<Longrightarrow> foldl double_table [0] (take k basis) = map (\<lambda>i. (lfsr ^^ 8) (of_nat i)) [0..<2 ^ k]"
proof (induction k)
  case 0
  then show ?case by (simp add: lfsr_pow_0 del: funpow.simps)
next
  case (Suc k)
  then have k: "k < 8" by simp
  have "length basis = 8" by (simp add: basis_def)
  then have "foldl double_table [0] (take (Suc k) basis) =
      double_table (foldl double_table [0] (take k basis)) (basis ! k)"
    using k by (simp add: take_Suc_conv_app_nth)
  also have "\<dots> = map (\<lambda>i. (lfsr ^^ 8) (of_nat i)) [0..<2 ^ k] @
      map (\<lambda>i. (lfsr ^^ 8) (of_nat i) XOR (lfsr ^^ 8) (push_bit k 1)) [0..<2 ^ k]"
    using k by (simp only: Suc.IH less_imp_le double_table_def basis_lfsr map_map comp_def)
  also have "map (\<lambda>i. (lfsr ^^ 8) (of_nat i) XOR (lfsr ^^ 8) (push_bit k 1)) [0..<2 ^ k] =
      map (\<lambda>i. (lfsr ^^ 8) (of_nat (2 ^ k + i))) [0..<2 ^ k]"
    by (rule map_cong [OF refl]) (simp add: of_nat_top_bit lfsr_pow_xor xor.commute del: of_nat_add funpow.simps)
  also have "\<dots> = map (\<lambda>i. (lfsr ^^ 8) (of_nat i)) (map ((+) (2 ^ k)) [0..<2 ^ k])"
    by simp
  also have "map ((+) (2 ^ k)) [0..<2 ^ k] = [2 ^ k..<2 ^ Suc k]"
  proof -
    have "map ((+) (2 ^ k)) [0..<2 ^ k] = map (\<lambda>i::nat. i + 2 ^ k) [0..<2 ^ k]"
      by (simp add: add.commute)
    moreover have "map (\<lambda>i. i + 2 ^ k) [0..<2 ^ k] = [2 ^ k..<2 ^ Suc k]"
      using map_add_upt [of "2 ^ k" "2 ^ k"] by (simp add: mult_2)
    ultimately show ?thesis by (rule trans)
  qed
  also have "map (\<lambda>i. (lfsr ^^ 8) (of_nat i)) [0..<2 ^ k] @
      map (\<lambda>i. (lfsr ^^ 8) (of_nat i)) [2 ^ k..<2 ^ Suc k] =
      map (\<lambda>i. (lfsr ^^ 8) (of_nat i)) [0..<2 ^ Suc k]"
    using upt_add_eq_append [of 0 "2 ^ k" "2 ^ k"] by (simp add: mult_2 del: funpow.simps)
  finally show ?case .
qed

lemma crc64_tab_entry: "i < 256 \<Longrightarrow> crc64_tab ! i = (lfsr ^^ 8) (of_nat i)"
proof -
  have "length basis = 8" by (simp add: basis_def)
  then have "crc64_tab = map (\<lambda>i. (lfsr ^^ 8) (of_nat i)) [0..<2 ^ 8]"
    using table_prefix [of 8] crc64_tab_doubling by (simp del: funpow.simps)
  then have "crc64_tab ! i = map (\<lambda>i. (lfsr ^^ 8) (of_nat i)) [0..<2 ^ 8] ! i"
    by (rule arg_cong)
  moreover assume "i < 256"
  ultimately show ?thesis by (simp only: nth_map_upt diff_zero) (simp del: funpow.simps)
qed

subsection \<open>The loop\<close>

lemma crc64_step_lfsr: "crc64_step crc b = (lfsr ^^ 8) (crc XOR ucast b)"
proof -
  define lo where "lo = ucast crc XOR b"
  define hi where "hi = push_bit 8 (drop_bit 8 crc)"
  have "crc XOR ucast b = ucast lo XOR hi"
    by (rule bit_word_eqI) (auto simp: lo_def hi_def bit_simps)
  then have "(lfsr ^^ 8) (crc XOR ucast b) = (lfsr ^^ 8) (ucast lo) XOR (lfsr ^^ 8) hi"
    by (simp only: lfsr_pow_xor)
  also have "(lfsr ^^ 8) hi = drop_bit 8 hi"
    by (rule lfsr_pow_shift) (simp add: hi_def bit_push_bit_iff)
  also have "drop_bit 8 hi = drop_bit 8 crc"
    by (rule bit_word_eqI) (auto simp: hi_def bit_simps dest: bit_imp_le_length)
  also have "ucast lo = (of_nat (unat lo) :: u64)" by simp
  also have "(lfsr ^^ 8) (of_nat (unat lo)) = crc64_tab ! unat lo"
    by (rule crc64_tab_entry [OF u8_bound, symmetric])
  finally show ?thesis by (simp only: crc64_step_def lo_def)
qed

lemma crc64_seeded_foldl: "crc64_seeded crc data = foldl crc64_step crc data"
  by (induction data arbitrary: crc) simp_all

lemma lfsr_bits:
  "n \<le> 64 \<Longrightarrow> foldl lfsr_bit c (map (bit w) [0..<n]) = (lfsr ^^ n) (c XOR take_bit n w)"
proof (induction n)
  case 0
  then show ?case by simp
next
  case (Suc n)
  define t where "t = push_bit n (of_bool (bit w n) :: u64)"
  have "take_bit (Suc n) w = take_bit n w XOR t"
    by (rule bit_word_eqI) (auto simp: t_def bit_simps less_Suc_eq)
  moreover have "(lfsr ^^ n) t = of_bool (bit w n)"
  proof -
    have "(lfsr ^^ n) t = drop_bit n t" by (rule lfsr_pow_shift) (simp add: t_def bit_push_bit_iff)
    also have "\<dots> = of_bool (bit w n)"
      using Suc.prems by (intro bit_word_eqI) (auto simp: t_def bit_simps)
    finally show ?thesis .
  qed
  ultimately have "(lfsr ^^ n) (c XOR take_bit (Suc n) w) =
      (lfsr ^^ n) (c XOR take_bit n w) XOR of_bool (bit w n)"
    by (simp only: lfsr_pow_xor xor.assoc)
  with Suc show ?case by (simp add: lfsr_bit_def)
qed

lemma crc64_step_bits: "crc64_step c b = foldl lfsr_bit c (byte_bits b)"
proof -
  have "byte_bits b = map (bit (ucast b :: u64)) [0..<8]"
    by (auto simp: byte_bits_def bit_unsigned_iff)
  moreover have "take_bit 8 (ucast b) = (ucast b :: u64)"
    by (rule bit_word_eqI) (auto simp: bit_simps dest: bit_imp_le_length)
  ultimately show ?thesis
    using lfsr_bits [of 8 c "ucast b"] by (simp add: crc64_step_lfsr del: funpow.simps)
qed

subsection \<open>Linearity and injectivity\<close>

lemma crc64_step_xor: "crc64_step (c XOR d) (a XOR b) = crc64_step c a XOR crc64_step d b"
proof -
  have "(c XOR d) XOR ucast (a XOR b) = (c XOR ucast a) XOR (d XOR ucast b)"
    by (rule bit_word_eqI) (auto simp: bit_simps)
  then show ?thesis by (simp only: crc64_step_lfsr lfsr_pow_xor)
qed

lemma xor_cancel_right: "(a XOR p = b XOR p) = (a = b)" for a b p :: "'a :: len word"
  by (metis xor.assoc xor_self_eq xor.right_neutral)

lemma lfsr_inj: "lfsr c = lfsr d \<Longrightarrow> c = d"
proof -
  assume eq: "lfsr c = lfsr d"
  have top: "bit (lfsr x) 63 = bit x 0" for x
    using bit_imp_le_length [of x 64] by (auto simp: lfsr_eq reflected_poly_def bit_simps)
  have low: "bit c 0 = bit d 0" using top eq by metis
  then have "drop_bit 1 c = drop_bit 1 d"
    using eq by (simp add: lfsr_eq xor_cancel_right split: if_splits)
  then have high: "bit c (Suc n) = bit d (Suc n)" for n
    by (metis bit_drop_bit_eq plus_1_eq_Suc comp_apply)
  show ?thesis
  proof (rule bit_word_eqI)
    fix n show "bit c n = bit d n" using low high by (cases n) auto
  qed
qed

lemma lfsr_pow_inj: "(lfsr ^^ n) c = (lfsr ^^ n) d \<Longrightarrow> c = d"
  by (induction n) (auto dest: lfsr_inj)

lemma crc64_step_state_inj: "crc64_step c b = crc64_step d b \<Longrightarrow> c = d"
  unfolding crc64_step_lfsr by (drule lfsr_pow_inj) (simp add: xor_cancel_right)

lemma crc64_seeded_state_inj: "crc64_seeded c data = crc64_seeded d data \<Longrightarrow> c = d"
  by (induction data arbitrary: c d) (auto dest: crc64_step_state_inj)

lemma crc64_seeded_append: "crc64_seeded c (xs @ ys) = crc64_seeded (crc64_seeded c xs) ys"
  by (induction xs arbitrary: c) simp_all

text \<open>Up to eight bytes go through the register as one little-endian word.\<close>

fun le_word :: "bytes \<Rightarrow> u64" where
  "le_word [] = 0"
| "le_word (b # bs) = ucast b XOR push_bit 8 (le_word bs)"

lemma le_word_bound: "n \<ge> 8 * length bs \<Longrightarrow> \<not> bit (le_word bs) n"
proof (induction bs arbitrary: n)
  case Nil
  then show ?case by simp
next
  case (Cons b bs)
  then have "8 \<le> n" "\<not> bit (le_word bs) (n - 8)" by simp_all
  moreover from \<open>8 \<le> n\<close> have "\<not> bit b n" using bit_imp_le_length [of b n] by auto
  ultimately show ?case by (simp add: bit_xor_iff bit_unsigned_iff bit_push_bit_iff)
qed

lemma crc64_seeded_word:
  "length w \<le> 8 \<Longrightarrow> crc64_seeded c w = (lfsr ^^ (8 * length w)) (c XOR le_word w)"
proof (induction w arbitrary: c)
  case Nil
  then show ?case by simp
next
  case (Cons b w)
  have "drop_bit 8 (push_bit 8 (le_word w)) = le_word w"
  proof (rule bit_word_eqI)
    fix n assume "n < LENGTH(64)"
    show "bit (drop_bit 8 (push_bit 8 (le_word w))) n = bit (le_word w) n"
    proof (cases "n < 56")
      case True
      then show ?thesis by (simp add: bit_simps)
    next
      case False
      with Cons.prems have "\<not> bit (le_word w) n" by (intro le_word_bound) simp
      with False show ?thesis by (auto simp: bit_simps)
    qed
  qed
  moreover have "(lfsr ^^ 8) (push_bit 8 (le_word w)) = drop_bit 8 (push_bit 8 (le_word w))"
    by (rule lfsr_pow_shift) (simp add: bit_push_bit_iff)
  ultimately have shift: "le_word w = (lfsr ^^ 8) (push_bit 8 (le_word w))" by simp
  have "crc64_seeded c (b # w) = (lfsr ^^ (8 * length w)) ((lfsr ^^ 8) (c XOR ucast b) XOR le_word w)"
    using Cons by (simp add: crc64_step_lfsr del: funpow.simps)
  also have "(lfsr ^^ 8) (c XOR ucast b) XOR le_word w = (lfsr ^^ 8) (c XOR le_word (b # w))"
    by (subst (1) shift) (simp only: lfsr_pow_xor [symmetric] le_word.simps xor.assoc)
  also have "(lfsr ^^ (8 * length w)) ((lfsr ^^ 8) (c XOR le_word (b # w)))
      = (lfsr ^^ (8 * length (b # w))) (c XOR le_word (b # w))"
    using funpow_add [of "8 * length w" 8 lfsr, THEN fun_cong] by (simp add: add.commute del: funpow.simps)
  finally show ?case .
qed

lemma le_word_inj:
  "length v = length w \<Longrightarrow> length w \<le> 8 \<Longrightarrow> le_word v = le_word w \<Longrightarrow> v = w"
proof (induction v w rule: list_induct2)
  case Nil
  then show ?case by simp
next
  case (Cons a v b w)
  have bit_eq: "bit (le_word (a # v)) n = bit (le_word (b # w)) n" for n
    using Cons.prems by simp
  have "a = b"
  proof (rule bit_word_eqI)
    fix n assume "n < LENGTH(8)"
    with bit_eq [of n] show "bit a n = bit b n" by (simp add: bit_simps)
  qed
  moreover have "le_word v = le_word w"
  proof (rule bit_word_eqI)
    fix n assume n: "n < LENGTH(64)"
    show "bit (le_word v) n = bit (le_word w) n"
    proof (cases "n < 56")
      case True
      with bit_eq [of "n + 8"] \<open>a = b\<close> show ?thesis by (simp add: bit_simps) blast
    next
      case False
      with Cons show ?thesis by (simp add: le_word_bound)
    qed
  qed
  ultimately show ?case using Cons by simp
qed

lemma crc64_seeded_zeros: "crc64_seeded 0 (replicate n 0) = 0"
  by (induction n) (simp_all add: crc64_step_lfsr lfsr_pow_0 del: funpow.simps)

lemma crc64_is_seeded: "crc64 data = crc64_seeded kDefaultSeed data"
  by (simp add: crc64_def crc64_seeded_foldl)

lemma crc64_seeded_window_inj:
  assumes "length v = length w" "length w \<le> 8" "crc64_seeded c v = crc64_seeded c w"
  shows "v = w"
proof -
  have "(lfsr ^^ (8 * length w)) (c XOR le_word v) = (lfsr ^^ (8 * length w)) (c XOR le_word w)"
    using assms crc64_seeded_word [of v c] crc64_seeded_word [of w c] by simp
  then have "le_word v XOR c = le_word w XOR c" by (simp add: lfsr_pow_inj xor.commute [of c])
  then show ?thesis using assms le_word_inj by (simp add: xor_cancel_right)
qed

section \<open>Computing a checksum in pieces\<close>

text \<open>
  What a caller of the overload with a seed relies on: feeding the pieces one after the other is
  feeding the whole, and a difference in the state is never lost.
\<close>

locale incremental =
  fixes update :: "'s \<Rightarrow> 'b list \<Rightarrow> 's"
  assumes update_nil: "update c [] = c"
    and update_append: "update c (xs @ ys) = update (update c xs) ys"
    and update_inj: "update c xs = update d xs \<Longrightarrow> c = d"
begin

lemma update_concat: "foldl update c xss = update c (concat xss)"
  by (induction xss arbitrary: c) (simp_all add: update_nil update_append)

lemma differ_after_common_suffix:
  "update c v \<noteq> update c w \<Longrightarrow> update c (v @ s) \<noteq> update c (w @ s)"
  using update_inj by (auto simp: update_append)

lemma differ_inside:
  "(\<And>c. update c v \<noteq> update c w) \<Longrightarrow> update c (p @ v @ s) \<noteq> update c (p @ w @ s)"
  using differ_after_common_suffix by (simp add: update_append)

end

interpretation crc: incremental crc64_seeded
  by unfold_locales (simp, rule crc64_seeded_append, rule crc64_seeded_state_inj)

section \<open>Properties\<close>

text \<open>C8: The table-driven loop is the bit-serial definition of the CRC: for every seed and every
  message, \<open>crc64\<close> gives what a shift register over the reflected polynomial 0xad93d23594c935a9 gives
  when it takes the message bit by bit, each byte from its lowest bit. All 256 table entries count.\<close>

theorem crc64_is_bit_serial:
  "crc64_seeded c data = foldl lfsr_bit c (concat (map byte_bits data)) \<and>
   crc64 data = foldl lfsr_bit 0 (concat (map byte_bits data))"
proof -
  have "crc64_seeded c data = foldl lfsr_bit c (concat (map byte_bits data))" for c
    by (induction data arbitrary: c) (simp_all add: crc64_step_bits)
  then show ?thesis by (simp add: crc64_is_seeded kDefaultSeed_def)
qed

text \<open>Feeding a message in pieces through the overload with a seed, each call starting from the
  last result, gives the checksum of the whole message, wherever the cuts are; the overload without a
  seed is the same computation from the default seed.\<close>

theorem crc64_in_pieces:
  "foldl crc64_seeded c pieces = crc64_seeded c (concat pieces) \<and>
   crc64 (concat pieces) = foldl crc64_seeded kDefaultSeed pieces"
  by (simp only: crc.update_concat crc64_is_seeded simp_thms)

text \<open>C37: Every burst error of up to 64 bits within eight bytes is detected: two messages that agree
  outside a window of at most eight bytes, and differ inside it, have different checksums, whatever
  stands before and after the window.\<close>

theorem crc64_detects_bursts:
  assumes "length v = length w" and "length w \<le> 8" and "v \<noteq> w"
  shows "crc64 (before @ v @ after) \<noteq> crc64 (before @ w @ after)"
  unfolding crc64_is_seeded
  by (rule crc.differ_inside) (use assms crc64_seeded_window_inj in blast)

theorem crc64_detects_bursts_witness:
  "crc64 ([1, 2] @ [3, 4] @ [5]) \<noteq> crc64 ([1, 2] @ [7, 4] @ [5])"
  by (rule crc64_detects_bursts) simp_all

text \<open>The checksum is linear: the checksum of the bytewise exclusive or of two messages of one
  length, from the exclusive or of two seeds, is the exclusive or of their checksums. So it is no
  authenticator: a change of the message tells how the checksum changes.\<close>

theorem crc64_linear:
  assumes "length xs = length ys"
  shows "crc64_seeded (c XOR d) (map2 (XOR) xs ys) = crc64_seeded c xs XOR crc64_seeded d ys"
  using assms
  by (induction xs ys arbitrary: c d rule: list_induct2) (simp_all add: crc64_step_xor)

theorem crc64_linear_witness:
  "crc64_seeded (5 XOR 6) (map2 (XOR) [1, 2] [3, 9]) = crc64_seeded 5 [1, 2] XOR crc64_seeded 6 [3, 9]"
  by (rule crc64_linear) simp

text \<open>The check value of the header comment holds for the seed 0 the code uses, not for the initial
  value 0xffffffffffffffff the comment names; and with that seed zero bytes put before a message leave
  its checksum unchanged, as does every run of zero bytes alone.\<close>

theorem crc64_check_and_leading_zeros:
  "crc64 (map (\<lambda>n. word_of_nat n) [49..<58]) = 0xe9c6d914c4b8d9ca \<and>
   crc64_seeded 0xffffffffffffffff (map (\<lambda>n. word_of_nat n) [49..<58]) \<noteq> 0xe9c6d914c4b8d9ca \<and>
   crc64 (replicate n 0 @ data) = crc64 data \<and> crc64 (replicate n 0) = 0"
proof (intro conjI)
  show check: "crc64 (map (\<lambda>n. word_of_nat n) [49..<58]) = 0xe9c6d914c4b8d9ca"
    by (simp add: crc64_def kDefaultSeed_def crc64_step_def crc64_tab_def upt_conv_Cons)
  show "crc64_seeded 0xffffffffffffffff (map (\<lambda>n. word_of_nat n) [49..<58]) \<noteq> 0xe9c6d914c4b8d9ca"
  proof
    assume "crc64_seeded 0xffffffffffffffff (map (\<lambda>n. word_of_nat n) [49..<58]) = 0xe9c6d914c4b8d9ca"
    then have "crc64_seeded 0xffffffffffffffff (map (\<lambda>n. word_of_nat n) [49..<58]) =
        crc64_seeded 0 (map (\<lambda>n. word_of_nat n) [49..<58])"
      using check by (simp only: crc64_is_seeded kDefaultSeed_def)
    then have "(0xffffffffffffffff :: u64) = 0" by (rule crc64_seeded_state_inj)
    then show False by simp
  qed
  show "crc64 (replicate n 0 @ data) = crc64 data" "crc64 (replicate n 0) = 0"
    by (simp_all add: crc64_is_seeded kDefaultSeed_def crc64_seeded_append crc64_seeded_zeros)
qed

end
