(* ===== verification/Bloom_Filter.thy ===== *)
theory Bloom_Filter
  imports Prelude "HOL-Library.Multiset"
begin

text \<open>
  \<open>StaticBloomFilter\<close> of \<open>utils/bloom_filter.h\<close>: the bit set, \<open>put\<close> and \<open>might_contain\<close>. The size \<open>m\<close> of the
  bit set is the length of the list. \<open>std::hash\<close> is the parameter \<open>hash\<close>. The sizing of the filter and
  \<open>estimated_n\<close>, which compute in floating point, are in the theory \<open>Bloom_Sizing\<close>.
\<close>

section \<open>The code\<close>

record bloom_filter =
  filter_bits :: "bool list"
  filter_k :: u64

definition size_mod :: "u64 \<Rightarrow> u64 \<Rightarrow> u64 outcome" where
  "size_mod a b = (if b = 0 then Undef Division_by_zero else Ret (a mod b))"

definition get_halves :: "('x \<Rightarrow> u64) \<Rightarrow> 'x \<Rightarrow> u64 \<times> u64" where
  "get_halves hash item = (let hash_value = hash item in
     (hash_value AND (- 1), drop_bit (64 div 2) hash_value))"

abbreviation bits_size :: "bool list \<Rightarrow> u64" where
  "bits_size bits \<equiv> word_of_nat (length bits)"

function put_loop :: "u64 \<Rightarrow> u64 \<Rightarrow> nat \<Rightarrow> u64 \<Rightarrow> bool list \<Rightarrow> bool list outcome" where
  "put_loop k upper_bits i index bits =
     (if i < unat k then
        obind (size_mod index (bits_size bits)) (\<lambda>pos.
        let bits = bits[unat pos := True] in
        obind (size_mod (index + word_of_nat i * upper_bits) (bits_size bits)) (\<lambda>index.
        put_loop k upper_bits (Suc i) index bits))
      else Ret bits)"
  by pat_completeness auto
termination by (relation "measure (\<lambda>(k, _, i, _, _). unat k - i)") auto

declare put_loop.simps [simp del]

definition put :: "('x \<Rightarrow> u64) \<Rightarrow> bloom_filter \<Rightarrow> 'x \<Rightarrow> bloom_filter outcome" where
  "put hash f item = (let (lower_bits, upper_bits) = get_halves hash item in
     obind (put_loop (filter_k f) upper_bits 0 lower_bits (filter_bits f)) (\<lambda>bits. Ret (f\<lparr>filter_bits := bits\<rparr>)))"

function might_contain_loop :: "u64 \<Rightarrow> u64 \<Rightarrow> nat \<Rightarrow> u64 \<Rightarrow> bool list \<Rightarrow> bool outcome" where
  "might_contain_loop k upper_bits i index bits =
     (if i < unat k then
        obind (size_mod index (bits_size bits)) (\<lambda>pos.
        if \<not> bits ! unat pos then Ret False
        else obind (size_mod (index + word_of_nat i * upper_bits) (bits_size bits)) (\<lambda>index.
          might_contain_loop k upper_bits (Suc i) index bits))
      else Ret True)"
  by pat_completeness auto
termination by (relation "measure (\<lambda>(k, _, i, _, _). unat k - i)") auto

declare might_contain_loop.simps [simp del]

definition might_contain :: "('x \<Rightarrow> u64) \<Rightarrow> bloom_filter \<Rightarrow> 'x \<Rightarrow> bool outcome" where
  "might_contain hash f item = (let (lower_bits, upper_bits) = get_halves hash item in
     might_contain_loop (filter_k f) upper_bits 0 lower_bits (filter_bits f))"

section \<open>The set of probed positions\<close>

text \<open>The specification: an item stands for the set of positions its probes visit.\<close>

fun probe_index :: "u64 \<Rightarrow> u64 \<Rightarrow> u64 \<Rightarrow> nat \<Rightarrow> u64" where
  "probe_index m lower upper 0 = lower"
| "probe_index m lower upper (Suc i) = (probe_index m lower upper i + word_of_nat i * upper) mod m"

definition probe :: "u64 \<Rightarrow> u64 \<Rightarrow> nat \<Rightarrow> nat" where
  "probe m h i = unat (probe_index m h (drop_bit 32 h) i mod m)"

definition positions :: "u64 \<Rightarrow> u64 \<Rightarrow> u64 \<Rightarrow> nat set" where
  "positions m k h = probe m h ` {..<unat k}"

definition marked :: "bool list \<Rightarrow> nat set" where
  "marked bits = {j. j < length bits \<and> bits ! j}"

definition usable :: "bloom_filter \<Rightarrow> bool" where
  "usable f \<longleftrightarrow> 0 < length (filter_bits f) \<and> length (filter_bits f) < 2 ^ 64"

lemma bits_size_unat: "usable f \<Longrightarrow> unat (bits_size (filter_bits f)) = length (filter_bits f)"
  by (simp add: usable_def unat_of_nat)

lemma bits_size_nonzero: "usable f \<Longrightarrow> bits_size (filter_bits f) \<noteq> 0"
  using bits_size_unat [of f] by (auto simp: usable_def)

lemma get_halves_eq: "get_halves hash x = (hash x, drop_bit 32 (hash x))"
  by (simp add: get_halves_def Let_def)

lemma probe_less: "m \<noteq> 0 \<Longrightarrow> probe m h i < unat m"
  by (simp add: probe_def unat_mod unat_gt_0)

lemma positions_less: "m \<noteq> 0 \<Longrightarrow> j \<in> positions m k h \<Longrightarrow> j < unat m"
  by (auto simp: positions_def probe_less)

lemma first_probes_coincide: "probe m h 1 = probe m h 0"
  by (simp add: probe_def unat_mod)

lemma marked_update: "n < length bits \<Longrightarrow> marked (bits[n := True]) = insert n (marked bits)"
  by (auto simp: marked_def nth_list_update)

lemma marked_ext: "length xs = length ys \<Longrightarrow> marked xs = marked ys \<Longrightarrow> xs = ys"
proof (rule nth_equalityI)
  fix j assume "length xs = length ys" "marked xs = marked ys" "j < length xs"
  then show "xs ! j = ys ! j" by (auto simp: marked_def set_eq_iff)
qed

section \<open>The loops meet the specification\<close>

lemma probes_from_split:
  "i < k \<Longrightarrow> probe m h ` {i..<k} = insert (probe m h i) (probe m h ` {Suc i..<k})"
proof -
  assume "i < k"
  then have "{i..<k} = insert i {Suc i..<k}" by auto
  then show ?thesis by (metis image_insert)
qed

lemma put_loop_marks:
  assumes "m = bits_size bits" "unat m = length bits" "0 < length bits"
  shows "\<exists>bits'. put_loop k (drop_bit 32 h) i (probe_index m h (drop_bit 32 h) i) bits = Ret bits' \<and>
    length bits' = length bits \<and> marked bits' = marked bits \<union> probe m h ` {i..<unat k}"
  using assms
proof (induction "unat k - i" arbitrary: i bits)
  case 0
  then show ?case by (simp add: put_loop.simps [of k])
next
  case (Suc n)
  define bits' where "bits' = bits[probe m h i := True]"
  from Suc.hyps(2) have i: "i < unat k" by simp
  have m: "m \<noteq> 0" using Suc.prems by auto
  have "put_loop k (drop_bit 32 h) i (probe_index m h (drop_bit 32 h) i) bits =
      put_loop k (drop_bit 32 h) (Suc i) (probe_index m h (drop_bit 32 h) (Suc i)) bits'"
    using i m Suc.prems by (subst put_loop.simps) (simp add: size_mod_def probe_def bits'_def)
  moreover have len: "length bits' = length bits" by (simp add: bits'_def)
  then obtain bits'' where "put_loop k (drop_bit 32 h) (Suc i) (probe_index m h (drop_bit 32 h) (Suc i)) bits' = Ret bits''"
    "length bits'' = length bits'" "marked bits'' = marked bits' \<union> probe m h ` {Suc i..<unat k}"
    using Suc.hyps(1) [of "Suc i" bits'] Suc.hyps(2) Suc.prems len
    by (fastforce simp del: probe_index.simps)
  moreover have "marked bits' = insert (probe m h i) (marked bits)"
    unfolding bits'_def using probe_less [OF m, of h i] Suc.prems by (intro marked_update) simp
  ultimately show ?case using probes_from_split [OF i, of m h] len by auto
qed

lemma might_contain_loop_tests:
  assumes "m = bits_size bits" "unat m = length bits" "0 < length bits"
  shows "might_contain_loop k (drop_bit 32 h) i (probe_index m h (drop_bit 32 h) i) bits =
    Ret (probe m h ` {i..<unat k} \<subseteq> marked bits)"
proof (induction "unat k - i" arbitrary: i)
  case 0
  then show ?case by (simp add: might_contain_loop.simps [of k])
next
  case (Suc n)
  then have i: "i < unat k" by simp
  have m: "m \<noteq> 0" using assms by auto
  have "(bits ! probe m h i) = (probe m h i \<in> marked bits)"
    using probe_less [OF m, of h i] assms by (simp add: marked_def)
  then have "might_contain_loop k (drop_bit 32 h) i (probe_index m h (drop_bit 32 h) i) bits =
      (if probe m h i \<notin> marked bits then Ret False else
       might_contain_loop k (drop_bit 32 h) (Suc i) (probe_index m h (drop_bit 32 h) (Suc i)) bits)"
    using i m assms by (subst might_contain_loop.simps) (simp add: size_mod_def probe_def)
  then show ?case
    using Suc.hyps(1) [of "Suc i"] Suc.hyps(2) probes_from_split [OF i, of m h] by simp
qed

abbreviation item_positions :: "('x \<Rightarrow> u64) \<Rightarrow> bloom_filter \<Rightarrow> 'x \<Rightarrow> nat set" where
  "item_positions hash f x \<equiv> positions (bits_size (filter_bits f)) (filter_k f) (hash x)"

lemma put_spec:
  assumes "usable f"
  obtains f' where "put hash f x = Ret f'" "filter_k f' = filter_k f"
    "length (filter_bits f') = length (filter_bits f)"
    "marked (filter_bits f') = marked (filter_bits f) \<union> item_positions hash f x"
  using put_loop_marks [of "bits_size (filter_bits f)" "filter_bits f" "filter_k f" "hash x" 0] assms
    bits_size_unat [OF assms]
  by (auto simp: put_def get_halves_eq positions_def usable_def atLeast0LessThan)

lemma might_contain_spec:
  assumes "usable f"
  shows "might_contain hash f x = Ret (item_positions hash f x \<subseteq> marked (filter_bits f))"
  using might_contain_loop_tests [of "bits_size (filter_bits f)" "filter_bits f" "filter_k f" "hash x" 0] assms
    bits_size_unat [OF assms]
  by (simp add: might_contain_def get_halves_eq positions_def usable_def atLeast0LessThan)

section \<open>The contract of a membership filter\<close>

text \<open>
  What a user of a membership filter relies on: inserting succeeds, an inserted item is found, and
  no later insertion makes a found item disappear.
\<close>

locale membership_filter =
  fixes ins :: "'f \<Rightarrow> 'x \<Rightarrow> 'f outcome"
    and qry :: "'f \<Rightarrow> 'x \<Rightarrow> bool outcome"
    and ok :: "'f \<Rightarrow> bool"
  assumes ins_returns: "ok f \<Longrightarrow> \<exists>f'. ins f x = Ret f' \<and> ok f'"
    and qry_ins: "ok f \<Longrightarrow> ins f x = Ret f' \<Longrightarrow> qry f' x = Ret True"
    and qry_mono: "ok f \<Longrightarrow> ins f x = Ret f' \<Longrightarrow> qry f y = Ret True \<Longrightarrow> qry f' y = Ret True"
begin

lemma insert_all:
  "ok f \<Longrightarrow> \<exists>f'. ofold ins f xs = Ret f' \<and> ok f' \<and>
    (\<forall>y. y \<in> set xs \<or> qry f y = Ret True \<longrightarrow> qry f' y = Ret True)"
proof (induction xs arbitrary: f)
  case Nil
  then show ?case by simp
next
  case (Cons x xs)
  then obtain g where g: "ins f x = Ret g" "ok g" using ins_returns by blast
  then obtain f' where "ofold ins g xs = Ret f'" "ok f'"
    "\<forall>y. y \<in> set xs \<or> qry g y = Ret True \<longrightarrow> qry f' y = Ret True"
    using Cons.IH by blast
  with g Cons.prems show ?case by (auto intro: qry_ins qry_mono)
qed

end

lemma put_keeps_usable: "usable f \<Longrightarrow> put hash f x = Ret f' \<Longrightarrow> usable f'"
  by (rule put_spec [of f hash x]) (auto simp: usable_def)

interpretation bloom: membership_filter "put hash" "might_contain hash" usable for hash
proof unfold_locales
  fix f :: bloom_filter and x assume "usable f"
  then show "\<exists>f'. put hash f x = Ret f' \<and> usable f'"
    using put_spec put_keeps_usable by metis
next
  fix f f' x assume "usable f" "put hash f x = Ret f'"
  then show "might_contain hash f' x = Ret True"
    using put_keeps_usable [of f hash x f'] by (rule_tac put_spec [of f hash x]) (auto simp: might_contain_spec)
next
  fix f f' x y assume "usable f" "put hash f x = Ret f'" "might_contain hash f y = Ret True"
  then show "might_contain hash f' y = Ret True"
    using put_keeps_usable [of f hash x f'] by (rule_tac put_spec [of f hash x]) (auto simp: might_contain_spec)
qed

text \<open>The final filter depends on the set of inserted items only.\<close>

lemma put_all_spec:
  assumes "usable f"
  obtains f' where "ofold (put hash) f xs = Ret f'" "filter_k f' = filter_k f"
    "length (filter_bits f') = length (filter_bits f)"
    "marked (filter_bits f') = marked (filter_bits f) \<union> (\<Union>x \<in> set xs. item_positions hash f x)"
  using assms
proof (induction xs arbitrary: f thesis)
  case Nil
  then show ?case by simp
next
  case (Cons x xs)
  from Cons.prems(2) obtain g where g: "put hash f x = Ret g" "filter_k g = filter_k f"
    "length (filter_bits g) = length (filter_bits f)"
    "marked (filter_bits g) = marked (filter_bits f) \<union> item_positions hash f x" by (rule put_spec)
  have "usable g" by (rule put_keeps_usable [OF Cons.prems(2) g(1)])
  obtain f' where "ofold (put hash) g xs = Ret f'" "filter_k f' = filter_k g"
    "length (filter_bits f') = length (filter_bits g)"
    "marked (filter_bits f') = marked (filter_bits g) \<union> (\<Union>x \<in> set xs. item_positions hash g x)"
    by (rule Cons.IH [OF _ \<open>usable g\<close>])
  with g show ?case by (intro Cons.prems(1) [of f']) auto
qed

lemma positions_card: "card (positions m k h) \<le> max 1 (unat k - 1)"
proof (cases "unat k \<ge> 2")
  case True
  have "{..<unat k} = insert 0 {1..<unat k}" using True by auto
  then have "positions m k h = insert (probe m h 0) (probe m h ` {1..<unat k})"
    by (simp only: positions_def image_insert)
  moreover have "probe m h 1 \<in> probe m h ` {1..<unat k}"
    using True by (intro imageI) simp
  then have "probe m h 0 \<in> probe m h ` {1..<unat k}" by (simp only: first_probes_coincide)
  ultimately have "positions m k h = probe m h ` {1..<unat k}" by (simp only: insert_absorb)
  then have "card (positions m k h) \<le> card {1..<unat k}" by (metis card_image_le finite_atLeastLessThan)
  then show ?thesis by simp
next
  case False
  have "card (positions m k h) \<le> card {..<unat k}"
    unfolding positions_def by (rule card_image_le) simp
  with False show ?thesis by simp
qed

definition sample_filter :: bloom_filter where
  "sample_filter = \<lparr>filter_bits = replicate 8 False, filter_k = 3\<rparr>"

section \<open>Properties\<close>

text \<open>C21: No false negatives: a filter whose bit set is not empty takes any sequence of insertions,
  and afterwards \<open>might_contain\<close> is true of every inserted item and of every item it was true of
  before, whatever the hash function. The resulting filter depends on the set of the inserted items
  only, not on their order or on repetitions.\<close>

theorem bloom_no_false_negatives:
  assumes "usable f"
  shows "(\<exists>f'. ofold (put hash) f xs = Ret f' \<and>
      (\<forall>y. y \<in> set xs \<or> might_contain hash f y = Ret True \<longrightarrow> might_contain hash f' y = Ret True)) \<and>
    (set xs = set ys \<longrightarrow> ofold (put hash) f xs = ofold (put hash) f ys)"
proof (intro conjI impI)
  show "\<exists>f'. ofold (put hash) f xs = Ret f' \<and>
      (\<forall>y. y \<in> set xs \<or> might_contain hash f y = Ret True \<longrightarrow> might_contain hash f' y = Ret True)"
    using bloom.insert_all [OF assms, of hash xs] by blast
  assume "set xs = set ys"
  then show "ofold (put hash) f xs = ofold (put hash) f ys"
    by (rule_tac put_all_spec [OF assms, of hash xs], rule_tac put_all_spec [OF assms, of hash ys])
      (auto intro!: bloom_filter.equality marked_ext)
qed

theorem bloom_no_false_negatives_witness:
  "\<exists>f'. ofold (put id) sample_filter [5, 9] = Ret f' \<and>
     might_contain id f' 5 = Ret True \<and> might_contain id f' 9 = Ret True \<and>
     ofold (put id) sample_filter [9, 5, 9] = Ret f'"
proof -
  have "usable sample_filter" by (simp add: usable_def sample_filter_def)
  note filter = bloom_no_false_negatives [OF this, of id "[5, 9]" "[9, 5, 9]"]
  have "set [5, 9] = set [9, 5, 9 :: u64]" by auto
  with filter have order: "ofold (put id) sample_filter [9, 5, 9] = ofold (put id) sample_filter [5, 9]" by (simp only:)
  obtain f' where "ofold (put id) sample_filter [5, 9] = Ret f'"
    "\<forall>y. y \<in> set [5, 9] \<or> might_contain id sample_filter y = Ret True \<longrightarrow> might_contain id f' y = Ret True"
    using filter by blast
  then show ?thesis by (intro exI [of _ f']) (simp only: order list.set insert_iff simp_thms)
qed

text \<open>What the filter answers: after a sequence of insertions \<open>might_contain\<close> says true of an item
  exactly when each of its probed positions was marked before or is a position of an inserted item.
  As the second probe always repeats the first, one insertion marks at most \<open>k - 1\<close> bits.\<close>

theorem bloom_answers:
  assumes "usable f"
  shows "\<exists>f'. ofold (put hash) f xs = Ret f' \<and>
    might_contain hash f' y = Ret (item_positions hash f y \<subseteq>
      marked (filter_bits f) \<union> (\<Union>x \<in> set xs. item_positions hash f x)) \<and>
    card (marked (filter_bits f')) \<le> card (marked (filter_bits f)) + length xs * max 1 (unat (filter_k f) - 1)"
proof -
  obtain f' where f': "ofold (put hash) f xs = Ret f'" "filter_k f' = filter_k f"
    "length (filter_bits f') = length (filter_bits f)"
    "marked (filter_bits f') = marked (filter_bits f) \<union> (\<Union>x \<in> set xs. item_positions hash f x)"
    using assms by (rule put_all_spec)
  have usable: "usable f'" using assms f'(3) by (simp add: usable_def)
  have "card (\<Union>x \<in> set xs. item_positions hash f x) \<le> (\<Sum>x \<in> set xs. card (item_positions hash f x))"
    by (rule card_UN_le) simp
  also have "\<dots> \<le> card (set xs) * max 1 (unat (filter_k f) - 1)"
    using sum_bounded_above [of "set xs" "\<lambda>x. card (item_positions hash f x)"] positions_card by simp
  also have "\<dots> \<le> length xs * max 1 (unat (filter_k f) - 1)"
    by (rule mult_le_mono1) (rule card_length)
  finally have items: "card (\<Union>x \<in> set xs. item_positions hash f x) \<le> length xs * max 1 (unat (filter_k f) - 1)" .
  have "card (marked (filter_bits f')) \<le>
      card (marked (filter_bits f)) + length xs * max 1 (unat (filter_k f) - 1)"
    unfolding f'(4) by (rule order_trans [OF card_Un_le]) (use items in simp)
  with f' usable show ?thesis by (simp add: might_contain_spec)
qed

theorem bloom_answers_witness:
  "\<exists>f'. ofold (put id) sample_filter [5] = Ret f' \<and>
    might_contain id f' 9 = Ret (item_positions id sample_filter 9 \<subseteq>
      marked (filter_bits sample_filter) \<union>
      (\<Union>x \<in> set [5]. item_positions id sample_filter x)) \<and>
    card (marked (filter_bits f')) \<le> card (marked (filter_bits sample_filter))
      + length [5 :: u64] * max 1 (unat (filter_k sample_filter) - 1)"
  by (rule bloom_answers) (simp add: usable_def sample_filter_def)

text \<open>The corner cases. No constructor sets \<open>k_\<close>; with \<open>k_ = 0\<close> an insertion changes nothing and
  \<open>might_contain\<close> is true of every item. With an empty bit set (the sizing formula gives \<open>m = 0\<close> for
  \<open>n = 0\<close>) and \<open>k_ > 0\<close> both operations divide by zero.\<close>

theorem bloom_corner_cases:
  "put hash \<lparr>filter_bits = bits, filter_k = 0\<rparr> x = Ret \<lparr>filter_bits = bits, filter_k = 0\<rparr> \<and>
   might_contain hash \<lparr>filter_bits = bits, filter_k = 0\<rparr> x = Ret True \<and>
   put hash \<lparr>filter_bits = [], filter_k = k\<rparr> x =
     (if k = 0 then Ret \<lparr>filter_bits = [], filter_k = 0\<rparr> else Undef Division_by_zero) \<and>
   might_contain hash \<lparr>filter_bits = [], filter_k = k\<rparr> x =
     (if k = 0 then Ret True else Undef Division_by_zero)"
  by (simp add: put_def might_contain_def get_halves_eq put_loop.simps [of k] put_loop.simps [of 0]
      might_contain_loop.simps [of k] might_contain_loop.simps [of 0] size_mod_def unat_gt_0)

end
