(* ===== verification/Bloom_Sizing.thy ===== *)
theory Bloom_Sizing
  imports Complex_Main Bloom_Filter
begin

text \<open>
  The parts of \<open>utils/bloom_filter.h\<close> that compute in floating point: the sizing of a filter and the
  estimate of its number of elements. A \<open>double\<close> is a real number, an infinity or not a number; signed
  zeros are not told apart, for no operation here divides by a zero that may be negative. The rounding of
  the results, the logarithm and the square are parameters.
\<close>

section \<open>The code\<close>

datatype double = Finite real | Infinity | Minus_infinity | Not_a_number

record float_math =
  rounded :: "real \<Rightarrow> real"
  approx_ln :: "real \<Rightarrow> real"
  approx_square :: "real \<Rightarrow> real"

definition of_real_sign :: "real \<Rightarrow> double" where
  "of_real_sign x = (if x > 0 then Infinity else if x < 0 then Minus_infinity else Not_a_number)"

fun double_neg :: "double \<Rightarrow> double" where
  "double_neg (Finite x) = Finite (- x)"
| "double_neg Infinity = Minus_infinity"
| "double_neg Minus_infinity = Infinity"
| "double_neg Not_a_number = Not_a_number"

fun double_mul :: "float_math \<Rightarrow> double \<Rightarrow> double \<Rightarrow> double" where
  "double_mul fm (Finite x) (Finite y) = Finite (rounded fm (x * y))"
| "double_mul fm Not_a_number y = Not_a_number"
| "double_mul fm x Not_a_number = Not_a_number"
| "double_mul fm (Finite x) Infinity = of_real_sign x"
| "double_mul fm (Finite x) Minus_infinity = of_real_sign (- x)"
| "double_mul fm Infinity (Finite y) = of_real_sign y"
| "double_mul fm Minus_infinity (Finite y) = of_real_sign (- y)"
| "double_mul fm Infinity Infinity = Infinity"
| "double_mul fm Infinity Minus_infinity = Minus_infinity"
| "double_mul fm Minus_infinity Infinity = Minus_infinity"
| "double_mul fm Minus_infinity Minus_infinity = Infinity"

text \<open>A zero divisor is the conversion of an unsigned zero, so it is positive.\<close>

fun double_div :: "float_math \<Rightarrow> double \<Rightarrow> double \<Rightarrow> double" where
  "double_div fm (Finite x) (Finite y) = (if y = 0 then of_real_sign x else Finite (rounded fm (x / y)))"
| "double_div fm Infinity (Finite y) = (if y < 0 then Minus_infinity else Infinity)"
| "double_div fm Minus_infinity (Finite y) = (if y < 0 then Infinity else Minus_infinity)"
| "double_div fm (Finite x) Infinity = Finite 0"
| "double_div fm (Finite x) Minus_infinity = Finite 0"
| "double_div fm _ _ = Not_a_number"

fun double_sub :: "float_math \<Rightarrow> double \<Rightarrow> double \<Rightarrow> double" where
  "double_sub fm (Finite x) (Finite y) = Finite (rounded fm (x - y))"
| "double_sub fm (Finite x) Infinity = Minus_infinity"
| "double_sub fm (Finite x) Minus_infinity = Infinity"
| "double_sub fm Infinity (Finite y) = Infinity"
| "double_sub fm Minus_infinity (Finite y) = Minus_infinity"
| "double_sub fm Infinity Minus_infinity = Infinity"
| "double_sub fm Minus_infinity Infinity = Minus_infinity"
| "double_sub fm _ _ = Not_a_number"

text \<open>\<open>std::log\<close>, and \<open>std::pow\<close> with the exponent 2.\<close>

fun double_log :: "float_math \<Rightarrow> double \<Rightarrow> double" where
  "double_log fm (Finite x) = (if x > 0 then Finite (approx_ln fm x) else if x = 0 then Minus_infinity else Not_a_number)"
| "double_log fm Infinity = Infinity"
| "double_log fm _ = Not_a_number"

fun double_square :: "float_math \<Rightarrow> double \<Rightarrow> double" where
  "double_square fm (Finite x) = Finite (approx_square fm x)"
| "double_square fm Not_a_number = Not_a_number"
| "double_square fm _ = Infinity"

definition double_of_size :: "float_math \<Rightarrow> u64 \<Rightarrow> double" where
  "double_of_size fm n = Finite (rounded fm (real (unat n)))"

fun size_of_double :: "double \<Rightarrow> u64 outcome" where
  "size_of_double (Finite x) =
     (if - 1 < x \<and> x < 2 ^ 64 then Ret (word_of_int (if x < 0 then 0 else \<lfloor>x\<rfloor>)) else Undef Float_range)"
| "size_of_double _ = Undef Float_range"

record options =
  options_n :: u64
  options_fpr :: double

record bloom_filter_config =
  config_m :: u64
  config_k :: u64

definition calculate_bloom_filter_config :: "float_math \<Rightarrow> options \<Rightarrow> bloom_filter_config outcome" where
  "calculate_bloom_filter_config fm opts = (let
     n = double_of_size fm (options_n opts);
     ln_fpr = double_log fm (options_fpr opts) in
     obind (size_of_double (double_div fm (double_mul fm (double_neg n) ln_fpr)
       (double_square fm (double_log fm (Finite 2))))) (\<lambda>m.
     obind (size_of_double (double_div fm (double_neg ln_fpr) (double_log fm (Finite 2)))) (\<lambda>k.
     Ret \<lparr>config_m = m, config_k = k\<rparr>)))"

definition bits_count :: "bool list \<Rightarrow> u64" where
  "bits_count bits = word_of_nat (length (filter (\<lambda>b. b) bits))"

definition estimated_n :: "float_math \<Rightarrow> bloom_filter \<Rightarrow> u64 outcome" where
  "estimated_n fm f = (let
     m = double_of_size fm (bits_size (filter_bits f));
     x = double_of_size fm (bits_count (filter_bits f));
     val = double_mul fm (double_div fm (double_neg m) (double_of_size fm (filter_k f)))
       (double_log fm (double_sub fm (Finite 1) (double_div fm x m))) in
     size_of_double val)"

section \<open>What the floating-point unit promises\<close>

text \<open>
  Rounding is monotone and exact on 0, 1 and -1; the logarithm is 0 at 1 and has the sign of the real one,
  and the square of a number that is not 0 is positive.
\<close>

locale float_api =
  fixes fm :: float_math
  assumes rounded_mono: "x \<le> y \<Longrightarrow> rounded fm x \<le> rounded fm y"
    and rounded_exact: "rounded fm 0 = 0" "rounded fm 1 = 1" "rounded fm (- 1) = - 1"
    and ln_one: "approx_ln fm 1 = 0"
    and ln_negative: "0 < x \<Longrightarrow> x < 1 \<Longrightarrow> approx_ln fm x < 0"
    and ln_positive: "1 < x \<Longrightarrow> 0 < approx_ln fm x"
    and square_positive: "x \<noteq> 0 \<Longrightarrow> 0 < approx_square fm x"
begin

lemma rounded_nonneg: "0 \<le> x \<Longrightarrow> 0 \<le> rounded fm x"
  using rounded_mono [of 0 x] rounded_exact by simp

lemma rounded_nonpos: "x \<le> 0 \<Longrightarrow> rounded fm x \<le> 0"
  using rounded_mono [of x 0] rounded_exact by simp

lemma rounded_size_nonneg: "0 \<le> rounded fm (real (unat n))"
  by (rule rounded_nonneg) (rule of_nat_0_le_iff)

lemma rounded_size: "n \<noteq> 0 \<Longrightarrow> 1 \<le> rounded fm (real (unat n))"
proof -
  assume "n \<noteq> 0"
  then have "1 \<le> unat n" by (simp add: unat_gt_0 Suc_le_eq)
  then have "1 \<le> real (unat n)" by linarith
  then show ?thesis using rounded_mono [of 1 "real (unat n)"] rounded_exact by simp
qed

text \<open>The estimate in every case but the ordinary one, a filter with some bits set and some probes.\<close>

lemma estimate_without_probes:
  assumes "filter_k f = 0"
  shows "estimated_n fm f = Undef Float_range"
proof -
  let ?m = "rounded fm (real (unat (bits_size (filter_bits f))))"
  let ?l = "double_log fm (double_sub fm (Finite 1) (double_div fm (double_of_size fm (bits_count (filter_bits f))) (Finite ?m)))"
  have "double_div fm (double_neg (Finite ?m)) (Finite 0) \<in> {Minus_infinity, Not_a_number}"
    using rounded_size_nonneg [of "bits_size (filter_bits f)"] by (auto simp: of_real_sign_def less_le_not_le)
  moreover have "double_mul fm Minus_infinity ?l \<in> {Infinity, Minus_infinity, Not_a_number}"
    by (cases ?l) (auto simp: of_real_sign_def)
  ultimately show ?thesis
    using assms by (auto simp: estimated_n_def double_of_size_def rounded_exact)
qed

lemma estimate_empty:
  assumes "filter_k f \<noteq> 0" "usable f" "bits_count (filter_bits f) = 0"
  shows "estimated_n fm f = Ret 0"
proof -
  have "1 \<le> rounded fm (real (unat (filter_k f)))" "1 \<le> rounded fm (real (unat (bits_size (filter_bits f))))"
    using rounded_size [OF assms(1)] rounded_size [OF bits_size_nonzero [OF assms(2)]] by simp_all
  then show ?thesis
    using assms by (simp add: estimated_n_def double_of_size_def rounded_exact ln_one)
qed

lemma estimate_full:
  assumes "usable f" "bits_count (filter_bits f) = bits_size (filter_bits f)"
  shows "estimated_n fm f = Undef Float_range"
proof (cases "filter_k f = 0")
  case True
  then show ?thesis by (rule estimate_without_probes)
next
  case False
  have m: "1 \<le> rounded fm (real (unat (bits_size (filter_bits f))))"
    using rounded_size [OF bits_size_nonzero [OF assms(1)]] .
  have k: "1 \<le> rounded fm (real (unat (filter_k f)))" by (rule rounded_size [OF False])
  show ?thesis
    using m k assms(2) by (auto simp: estimated_n_def double_of_size_def rounded_exact of_real_sign_def)
qed

lemma config_no_elements:
  assumes "0 < p" "p < 1" "options_n opts = 0" "options_fpr opts = Finite p" "calculate_bloom_filter_config fm opts = Ret c"
  shows "config_m c = 0"
  using assms ln_positive [of 2] square_positive [of "approx_ln fm 2"]
  by (auto simp: calculate_bloom_filter_config_def double_of_size_def rounded_exact obind_eq_Ret split: if_splits)

lemma config_extreme_rates:
  "options_fpr opts = Finite 1 \<Longrightarrow> calculate_bloom_filter_config fm opts = Ret \<lparr>config_m = 0, config_k = 0\<rparr>"
  "options_fpr opts = Finite 0 \<Longrightarrow> calculate_bloom_filter_config fm opts = Undef Float_range"
proof -
  have l: "approx_ln fm 2 \<noteq> 0" "approx_square fm (approx_ln fm 2) > 0"
    using ln_positive [of 2] square_positive [of "approx_ln fm 2"] by auto
  show "options_fpr opts = Finite 1 \<Longrightarrow> calculate_bloom_filter_config fm opts = Ret \<lparr>config_m = 0, config_k = 0\<rparr>"
    using l by (simp add: calculate_bloom_filter_config_def double_of_size_def rounded_exact ln_one)
  show "options_fpr opts = Finite 0 \<Longrightarrow> calculate_bloom_filter_config fm opts = Undef Float_range"
    using l rounded_size_nonneg [of "options_n opts"]
    by (auto simp: calculate_bloom_filter_config_def double_of_size_def of_real_sign_def less_le_not_le)
qed

end

text \<open>Exact arithmetic keeps the promises.\<close>

definition exact_math :: float_math where
  "exact_math = \<lparr>rounded = (\<lambda>x. x), approx_ln = ln, approx_square = (\<lambda>x. x * x)\<rparr>"

interpretation exact: float_api exact_math
  by unfold_locales (auto simp: exact_math_def zero_less_mult_iff)

lemma bits_count_none: "True \<notin> set bits \<Longrightarrow> bits_count bits = 0"
proof -
  assume "True \<notin> set bits"
  then have "filter (\<lambda>b. b) bits = []" by (metis filter_False)
  then show ?thesis by (simp add: bits_count_def)
qed

lemma bits_count_all: "False \<notin> set bits \<Longrightarrow> bits_count bits = bits_size bits"
proof -
  assume "False \<notin> set bits"
  then have "filter (\<lambda>b. b) bits = bits" by (metis filter_True)
  then show ?thesis by (simp add: bits_count_def)
qed

text \<open>What the sizes are when the arithmetic is exact.\<close>

lemma exact_config:
  assumes "0 < p" "p < 1" "options_fpr opts = Finite p" "real (unat (options_n opts)) * (- ln p) / (ln 2)\<^sup>2 < 2 ^ 64"
    "- ln p / ln 2 < 2 ^ 64"
  shows "calculate_bloom_filter_config exact_math opts = Ret
    \<lparr>config_m = word_of_int \<lfloor>real (unat (options_n opts)) * (- ln p) / (ln 2)\<^sup>2\<rfloor>, config_k = word_of_int \<lfloor>- ln p / ln 2\<rfloor>\<rparr>"
proof -
  have l: "0 \<le> - ln p" "0 \<le> ln (2 :: real)" "0 \<le> (ln (2 :: real))\<^sup>2" using assms(1,2) by simp_all
  have "0 \<le> real (unat (options_n opts)) * (- ln p)" by (rule mult_nonneg_nonneg [OF of_nat_0_le_iff l(1)])
  from divide_nonneg_nonneg [OF this l(3)] divide_nonneg_nonneg [OF l(1,2)]
  have nonneg: "0 \<le> real (unat (options_n opts)) * (- ln p) / (ln 2)\<^sup>2" "0 \<le> - ln p / ln 2" .
  define q where "q = real (unat (options_n opts)) * (- ln p) / (ln 2)\<^sup>2"
  define r where "r = - ln p / ln 2"
  have "double_div exact_math (double_mul exact_math (double_neg (double_of_size exact_math (options_n opts)))
      (double_log exact_math (Finite p))) (double_square exact_math (double_log exact_math (Finite 2))) = Finite q"
    using assms(1) by (simp only: double_of_size_def double_neg.simps double_log.simps double_mul.simps
        double_square.simps double_div.simps exact_math_def float_math.simps if_True)
      (simp add: q_def power2_eq_square)
  moreover have "double_div exact_math (double_neg (double_log exact_math (Finite p))) (double_log exact_math (Finite 2)) = Finite r"
    using assms(1) by (simp add: exact_math_def r_def)
  moreover have "size_of_double (Finite q) = Ret (word_of_int \<lfloor>q\<rfloor>)" "size_of_double (Finite r) = Ret (word_of_int \<lfloor>r\<rfloor>)"
    using nonneg [folded q_def r_def] assms(4,5) [folded q_def r_def] by simp_all
  ultimately show ?thesis
    unfolding calculate_bloom_filter_config_def Let_def assms(3) q_def r_def by simp
qed

lemma probes_and_rate:
  assumes "0 < (p :: real)"
  shows "p \<le> 2 powr (- of_int \<lfloor>- ln p / ln 2\<rfloor>) \<and> 2 powr (- of_int \<lfloor>- ln p / ln 2\<rfloor>) < 2 * p"
proof -
  define r :: real where "r = - ln p / ln 2"
  have p: "p = 2 powr (- r)" using assms by (simp add: r_def powr_def)
  have "2 * p = 2 powr (1 - r)" by (simp add: p powr_diff powr_minus_divide)
  moreover have "2 powr (- r) \<le> 2 powr (- of_int \<lfloor>r\<rfloor>)" by simp
  moreover have "- of_int \<lfloor>r\<rfloor> < 1 - r" by linarith
  then have "2 powr (- of_int \<lfloor>r\<rfloor>) < 2 powr (1 - r)" by simp
  ultimately show ?thesis unfolding r_def [symmetric] using p by simp
qed

text \<open>A size that fits into \<open>size_t\<close> is the greatest whole number that is not above the quotient.\<close>

lemma size_of_floor:
  assumes "0 \<le> x" "x < 2 ^ 64"
  shows "int (unat (word_of_int \<lfloor>x\<rfloor> :: u64)) = \<lfloor>x\<rfloor>"
proof -
  have "0 \<le> \<lfloor>x\<rfloor>" "\<lfloor>x\<rfloor> < 2 ^ 64" using assms by (simp_all add: floor_less_iff)
  then show ?thesis by (simp add: unsigned_of_int take_bit_int_eq_self)
qed

lemma exact_sizes:
  assumes "0 < p" "p < 1" "options_fpr opts = Finite p" "real (unat (options_n opts)) * (- ln p) / (ln 2)\<^sup>2 < 2 ^ 64"
    "- ln p / ln 2 < 2 ^ 64"
  shows "\<exists>c. calculate_bloom_filter_config exact_math opts = Ret c \<and>
    int (unat (config_m c)) = \<lfloor>real (unat (options_n opts)) * (- ln p) / (ln 2)\<^sup>2\<rfloor> \<and>
    int (unat (config_k c)) = \<lfloor>- ln p / ln 2\<rfloor>"
proof -
  have l: "0 \<le> - ln p" "0 \<le> ln (2 :: real)" using assms(1,2) by simp_all
  have "0 \<le> real (unat (options_n opts)) * (- ln p) / (ln 2)\<^sup>2"
    by (intro divide_nonneg_nonneg mult_nonneg_nonneg of_nat_0_le_iff l zero_le_power2)
  from size_of_floor [OF this assms(4)] size_of_floor [OF divide_nonneg_nonneg [OF l] assms(5)]
  show ?thesis by (simp only: exact_config [OF assms] outcome.inject ex_simps bloom_filter_config.simps simp_thms)
qed

section \<open>Properties\<close>

text \<open>The estimate of \<open>estimated_n\<close>: it is 0 for an empty filter. But for a full filter the logarithm is
  that of 0, and with no probes the quotient is that of a division by 0, so that the conversion of the
  result to \<open>size_t\<close> is undefined. The constructor leaves the number of probes uninitialised.\<close>

theorem estimated_n_outcomes:
  assumes "float_api fm" and "usable f"
  shows "(filter_k f = 0 \<longrightarrow> estimated_n fm f = Undef Float_range) \<and>
    (filter_k f \<noteq> 0 \<and> True \<notin> set (filter_bits f) \<longrightarrow> estimated_n fm f = Ret 0) \<and>
    (False \<notin> set (filter_bits f) \<longrightarrow> estimated_n fm f = Undef Float_range)"
  using float_api.estimate_without_probes [OF assms(1)] float_api.estimate_empty [OF assms(1) _ assms(2)]
    float_api.estimate_full [OF assms] bits_count_none bits_count_all by blast

theorem estimated_n_outcomes_witness:
  "estimated_n exact_math \<lparr>filter_bits = [False, False], filter_k = 3\<rparr> = Ret 0 \<and>
   estimated_n exact_math \<lparr>filter_bits = [True, True], filter_k = 3\<rparr> = Undef Float_range"
  using estimated_n_outcomes [OF exact.float_api_axioms, of "\<lparr>filter_bits = [False, False], filter_k = 3\<rparr>"]
    estimated_n_outcomes [OF exact.float_api_axioms, of "\<lparr>filter_bits = [True, True], filter_k = 3\<rparr>"]
  by (simp add: usable_def)

text \<open>C22: The sizing of a filter for \<open>n\<close> elements and a rate \<open>p\<close> strictly between 0 and 1. Both sizes are rounded
  down: with exact arithmetic the number of bits is the greatest one that is not above the optimal
  \<open>- n ln p / (ln 2)^2\<close>, and the rate that the number of probes stands for, two to the power of minus that
  number, is not below the one that is asked for and may be nearly twice as high. For no elements the bit set is empty, whatever the rounding of the
  arithmetic is, so that every insertion with a probe divides by zero; the rate 1 gives an empty filter
  without probes, and the rate 0 is an undefined conversion.\<close>

theorem bloom_config_rounds_down:
  assumes "0 < p" and "p < 1" and "options_fpr opts = Finite p"
    and "real (unat (options_n opts)) * (- ln p) / (ln 2)\<^sup>2 < 2 ^ 64" and "- ln p / ln 2 < 2 ^ 64" and "float_api fm"
  shows "(\<exists>c. calculate_bloom_filter_config exact_math opts = Ret c \<and>
      real (unat (config_m c)) \<le> real (unat (options_n opts)) * (- ln p) / (ln 2)\<^sup>2 \<and>
      real (unat (options_n opts)) * (- ln p) / (ln 2)\<^sup>2 < real (unat (config_m c)) + 1 \<and>
      p \<le> 2 powr (- real (unat (config_k c))) \<and> 2 powr (- real (unat (config_k c))) < 2 * p) \<and>
    (options_n opts = 0 \<and> calculate_bloom_filter_config fm opts = Ret c \<and> filter_k f \<noteq> 0 \<and>
      filter_bits f = replicate (unat (config_m c)) False \<longrightarrow> put hash f item = Undef Division_by_zero) \<and>
    calculate_bloom_filter_config fm (opts\<lparr>options_fpr := Finite 1\<rparr>) = Ret \<lparr>config_m = 0, config_k = 0\<rparr> \<and>
    calculate_bloom_filter_config fm (opts\<lparr>options_fpr := Finite 0\<rparr>) = Undef Float_range"
proof (intro conjI impI)
  obtain d where d: "calculate_bloom_filter_config exact_math opts = Ret d"
    "int (unat (config_m d)) = \<lfloor>real (unat (options_n opts)) * (- ln p) / (ln 2)\<^sup>2\<rfloor>"
    "int (unat (config_k d)) = \<lfloor>- ln p / ln 2\<rfloor>"
    using exact_sizes [OF assms(1-5)] by blast
  have k: "real (unat (config_k d)) = of_int \<lfloor>- ln p / ln 2\<rfloor>" by (metis d(3) of_int_of_nat_eq)
  have m: "real (unat (config_m d)) = of_int \<lfloor>real (unat (options_n opts)) * (- ln p) / (ln 2)\<^sup>2\<rfloor>"
    by (metis d(2) of_int_of_nat_eq)
  show "\<exists>c. calculate_bloom_filter_config exact_math opts = Ret c \<and>
      real (unat (config_m c)) \<le> real (unat (options_n opts)) * (- ln p) / (ln 2)\<^sup>2 \<and>
      real (unat (options_n opts)) * (- ln p) / (ln 2)\<^sup>2 < real (unat (config_m c)) + 1 \<and>
      p \<le> 2 powr (- real (unat (config_k c))) \<and> 2 powr (- real (unat (config_k c))) < 2 * p"
    by (intro exI [of _ d] conjI d(1); unfold m k)
      (use probes_and_rate [OF assms(1)] of_int_floor_le real_of_int_floor_add_one_gt in blast)+
  assume *: "options_n opts = 0 \<and> calculate_bloom_filter_config fm opts = Ret c \<and> filter_k f \<noteq> 0 \<and>
      filter_bits f = replicate (unat (config_m c)) False"
  then have "config_m c = 0"
    using float_api.config_no_elements [OF assms(6) assms(1,2) _ assms(3)] by blast
  with * show "put hash f item = Undef Division_by_zero"
    by (simp add: put_def get_halves_def put_loop.simps [of "filter_k f"] size_mod_def unat_gt_0)
qed (use float_api.config_extreme_rates [OF assms(6)] in simp_all)

theorem bloom_config_rounds_down_witness:
  "\<exists>c. calculate_bloom_filter_config exact_math \<lparr>options_n = 1, options_fpr = Finite (1 / 2)\<rparr> = Ret c \<and>
    unat (config_m c) = 1 \<and> unat (config_k c) = 1"
proof -
  let ?opts = "\<lparr>options_n = 1, options_fpr = Finite (1 / 2)\<rparr>"
  have "ln (1 / 2 :: real) \<noteq> 1 / 2 - 1" using ln_eq_minus_one [of "1 / 2 :: real"] by auto
  then have ln2: "1 / 2 < ln (2 :: real)" using ln_le_minus_one [of "1 / 2 :: real"] by (simp add: ln_div)
  have q: "real (unat (options_n ?opts)) * (- ln (1 / 2)) / (ln 2)\<^sup>2 = 1 / ln 2"
    by (simp add: ln_div power2_eq_square)
  have half: "1 < 1 / ln (2 :: real)" "1 / ln (2 :: real) < 2" using ln_2_less_1 ln2 by (simp_all add: field_simps)
  obtain c where c: "calculate_bloom_filter_config exact_math ?opts = Ret c"
    "real (unat (config_m c)) \<le> 1 / ln 2" "1 / ln 2 < real (unat (config_m c)) + 1"
    "1 / 2 \<le> 2 powr (- real (unat (config_k c)))" "2 powr (- real (unat (config_k c))) < 2 * (1 / 2)"
    using bloom_config_rounds_down [of "1 / 2" ?opts, OF _ _ _ _ _ exact.float_api_axioms, THEN conjunct1, unfolded q] half
    by (auto simp: ln_div)
  have "unat (config_m c) = 1" using c(2,3) half by linarith
  moreover have "(2 :: real) powr (- 1) \<le> 2 powr (- real (unat (config_k c)))" "(2 :: real) powr (- real (unat (config_k c))) < 2 powr 0"
    using c(4,5) by (simp_all add: powr_minus)
  then have "real (unat (config_k c)) \<le> 1" "0 < real (unat (config_k c))" by (simp_all only: powr_le_cancel_iff powr_less_cancel_iff)
  then have "unat (config_k c) = 1" by linarith
  ultimately show ?thesis using c(1) by blast
qed

end
