(* ===== verification/Kdf_Chain.thy ===== *)
theory Kdf_Chain
  imports Prelude
begin

text \<open>
  The key chain of \<open>crypto/kdf_chain.h\<close> and \<open>crypto/kdf_chain.cpp\<close>. The parameter \<open>hkdf_extract salt input\<close>
  is the libsodium function \<open>crypto_kdf_hkdf_sha512_extract\<close>, of which the code uses that it fills an
  array of \<open>crypto_kdf_hkdf_sha512_KEYBYTES = 64\<close> bytes: the first 64 bytes of its value are what the
  array holds afterwards, and a shorter value leaves the zeros of the array.
\<close>

section \<open>The code\<close>

record kdf_chain =
  root_key :: bytes
  chain_key :: bytes
  chain_n :: u64

definition kKDFChainInput :: bytes where "kKDFChainInput = [0x13, 0x37]"

definition kdf_hmac :: "(bytes \<Rightarrow> bytes \<Rightarrow> bytes) \<Rightarrow> bytes \<Rightarrow> bytes \<Rightarrow> bytes" where
  "kdf_hmac hkdf_extract salt input = (let prk = replicate 64 0; out = take 64 (hkdf_extract salt input) in
     out @ drop (length out) prk)"

definition KDFChain :: "bytes \<Rightarrow> kdf_chain" where
  "KDFChain seed = \<lparr>root_key = seed, chain_key = seed, chain_n = 0\<rparr>"

text \<open>\<open>std::copy_n\<close> onto the begin of a vector: writing past its end is undefined.\<close>

definition copy_to_begin :: "bytes \<Rightarrow> bytes \<Rightarrow> bytes outcome" where
  "copy_to_begin src dst =
     (if length src \<le> length dst then Ret (src @ drop (length src) dst) else Undef Out_of_bounds)"

definition next_key :: "(bytes \<Rightarrow> bytes \<Rightarrow> bytes) \<Rightarrow> kdf_chain \<Rightarrow> (bytes \<times> kdf_chain) outcome" where
  "next_key hkdf_extract c = (let
     hmac = kdf_hmac hkdf_extract (chain_key c) kKDFChainInput;
     c = c\<lparr>chain_n := chain_n c + 1\<rparr> in
     obind (copy_to_begin (take 32 hmac) (chain_key c)) (\<lambda>key.
     Ret (take 32 (drop 32 hmac), c\<lparr>chain_key := key\<rparr>)))"

fun next_keys :: "(bytes \<Rightarrow> bytes \<Rightarrow> bytes) \<Rightarrow> nat \<Rightarrow> kdf_chain \<Rightarrow> (bytes list \<times> kdf_chain) outcome" where
  "next_keys hkdf_extract 0 c = Ret ([], c)"
| "next_keys hkdf_extract (Suc i) c = obind (next_key hkdf_extract c) (\<lambda>(key, c).
     obind (next_keys hkdf_extract i c) (\<lambda>(keys, c). Ret (key # keys, c)))"

section \<open>The specification: a hash chain\<close>

fun chain_link :: "(bytes \<Rightarrow> bytes \<Rightarrow> bytes) \<Rightarrow> bytes \<Rightarrow> nat \<Rightarrow> bytes" where
  "chain_link hkdf_extract seed 0 = seed"
| "chain_link hkdf_extract seed (Suc i) =
     take 32 (kdf_hmac hkdf_extract (chain_link hkdf_extract seed i) kKDFChainInput) @ drop 32 seed"

definition message_key :: "(bytes \<Rightarrow> bytes \<Rightarrow> bytes) \<Rightarrow> bytes \<Rightarrow> nat \<Rightarrow> bytes" where
  "message_key hkdf_extract seed i = drop 32 (kdf_hmac hkdf_extract (chain_link hkdf_extract seed i) kKDFChainInput)"

definition chain_state :: "(bytes \<Rightarrow> bytes \<Rightarrow> bytes) \<Rightarrow> bytes \<Rightarrow> nat \<Rightarrow> kdf_chain" where
  "chain_state hkdf_extract seed i =
     \<lparr>root_key = seed, chain_key = chain_link hkdf_extract seed i, chain_n = word_of_nat i\<rparr>"

lemma kdf_hmac_length: "length (kdf_hmac hkdf_extract salt input) = 64"
  by (simp add: kdf_hmac_def Let_def)

lemma chain_link_length: "32 \<le> length seed \<Longrightarrow> length (chain_link hkdf_extract seed i) = length seed"
  by (cases i) (simp_all add: kdf_hmac_length)

lemma chain_link_tail: "32 \<le> length seed \<Longrightarrow> drop 32 (chain_link hkdf_extract seed i) = drop 32 seed"
  by (cases i) (simp_all add: kdf_hmac_length)

lemma KDFChain_at_0: "KDFChain seed = chain_state hkdf_extract seed 0"
  by (simp add: KDFChain_def chain_state_def)

lemma next_key_at:
  "32 \<le> length seed \<Longrightarrow> next_key hkdf_extract (chain_state hkdf_extract seed i) =
    Ret (message_key hkdf_extract seed i, chain_state hkdf_extract seed (Suc i))"
  using chain_link_length [of seed hkdf_extract i] chain_link_tail [of seed hkdf_extract i]
  by (simp add: next_key_def chain_state_def message_key_def copy_to_begin_def kdf_hmac_length
      Let_def add.commute)

text \<open>A machine that follows an abstract sequence step by step can be run for any number of steps.\<close>

locale follows_sequence =
  fixes step :: "'s \<Rightarrow> ('o \<times> 's) outcome"
    and state_at :: "'a \<Rightarrow> nat \<Rightarrow> 's"
    and output_at :: "'a \<Rightarrow> nat \<Rightarrow> 'o"
    and ok :: "'a \<Rightarrow> bool"
  assumes step_at: "ok a \<Longrightarrow> step (state_at a i) = Ret (output_at a i, state_at a (Suc i))"
begin

lemma run_at:
  assumes "\<And>s. run 0 s = Ret ([], s)"
    and "\<And>n s. run (Suc n) s = obind (step s) (\<lambda>(x, s). obind (run n s) (\<lambda>(xs, s). Ret (x # xs, s)))"
    and "ok a"
  shows "run n (state_at a i) = Ret (map (output_at a) [i..<i + n], state_at a (i + n))"
  by (induction n arbitrary: i) (simp_all add: assms step_at upt_conv_Cons del: upt_Suc)

end

interpretation chain: follows_sequence "next_key hkdf_extract" "chain_state hkdf_extract"
  "message_key hkdf_extract" "\<lambda>seed. 32 \<le> length seed" for hkdf_extract
  by unfold_locales (rule next_key_at)

lemma next_keys_at:
  "32 \<le> length seed \<Longrightarrow> next_keys hkdf_extract n (chain_state hkdf_extract seed i) =
    Ret (map (message_key hkdf_extract seed) [i..<i + n], chain_state hkdf_extract seed (i + n))"
  by (rule chain.run_at) simp_all

definition sample_extract :: "bytes \<Rightarrow> bytes \<Rightarrow> bytes" where
  "sample_extract salt input = replicate 64 (foldl (\<lambda>a b. 3 * a + b) 1 (salt @ input))"

section \<open>Properties\<close>

text \<open>C20: A chain built on a seed of at least 32 bytes yields its keys without fail and follows the
  hash chain of its specification: the i-th key is the second half of the HMAC of the i-th link, the
  first half replaces the first 32 bytes of the link. Each key has 32 bytes, the counter counts the
  keys modulo 2^64, the links keep the length of the seed and all seed bytes after the 32nd.\<close>

theorem kdf_chain_keys:
  assumes "32 \<le> length seed"
  shows "next_keys hkdf_extract n (KDFChain seed) =
      Ret (map (message_key hkdf_extract seed) [0..<n],
        \<lparr>root_key = seed, chain_key = chain_link hkdf_extract seed n, chain_n = word_of_nat n\<rparr>) \<and>
    length (message_key hkdf_extract seed i) = 32 \<and>
    length (chain_link hkdf_extract seed i) = length seed \<and>
    drop 32 (chain_link hkdf_extract seed i) = drop 32 seed"
  using next_keys_at [OF assms, of hkdf_extract n 0] assms
  by (simp add: KDFChain_at_0 [of seed hkdf_extract] chain_link_length chain_link_tail)
    (simp add: chain_state_def message_key_def kdf_hmac_length)

theorem kdf_chain_keys_witness:
  "next_keys sample_extract 5 (KDFChain (replicate 40 7)) =
      Ret (map (message_key sample_extract (replicate 40 7)) [0..<5],
        \<lparr>root_key = replicate 40 7, chain_key = chain_link sample_extract (replicate 40 7) 5,
         chain_n = word_of_nat 5\<rparr>) \<and>
    length (message_key sample_extract (replicate 40 7) 3) = 32 \<and>
    length (chain_link sample_extract (replicate 40 7) 3) = length (replicate 40 (7 :: u8)) \<and>
    drop 32 (chain_link sample_extract (replicate 40 7) 3) = drop 32 (replicate 40 7)"
  by (rule kdf_chain_keys) simp

text \<open>A chain keeps no forward secrecy: whoever holds the state after any number of keys can compute
  all of them again, since the root key still is the seed. And a chain built on fewer than 32 bytes
  writes past the end of its key at the first call.\<close>

theorem kdf_chain_limits:
  "(next_keys hkdf_extract n (KDFChain seed) = Ret (keys, c) \<longrightarrow>
      obind (next_keys hkdf_extract n (KDFChain (root_key c))) (\<lambda>(ks, _). Ret ks) = Ret keys) \<and>
   (length seed < 32 \<longrightarrow> next_key hkdf_extract (KDFChain seed) = Undef Out_of_bounds)"
proof (intro conjI impI)
  assume run: "next_keys hkdf_extract n (KDFChain seed) = Ret (keys, c)"
  have root: "next_keys hkdf_extract n c0 = Ret (ks, c1) \<Longrightarrow> root_key c1 = root_key c0" for c0 ks c1
    by (induction n arbitrary: c0 ks)
      (auto simp: next_key_def Let_def obind_eq_Ret split: prod.splits)
  show "obind (next_keys hkdf_extract n (KDFChain (root_key c))) (\<lambda>(ks, _). Ret ks) = Ret keys"
    using run root [OF run] by (simp add: KDFChain_def)
next
  assume "length seed < 32"
  then show "next_key hkdf_extract (KDFChain seed) = Undef Out_of_bounds"
    by (simp add: next_key_def KDFChain_def copy_to_begin_def kdf_hmac_length Let_def)
qed

theorem kdf_chain_limits_witness:
  "obind (next_keys sample_extract 2 (KDFChain (root_key (chain_state sample_extract (replicate 40 7) 2))))
      (\<lambda>(ks, _). Ret ks) =
     Ret (map (message_key sample_extract (replicate 40 7)) [0..<2]) \<and>
   next_key sample_extract (KDFChain [1, 2]) = Undef Out_of_bounds"
  using kdf_chain_limits [of sample_extract 2 "replicate 40 7"
      "map (message_key sample_extract (replicate 40 7)) [0..<2]" "chain_state sample_extract (replicate 40 7) 2"]
    kdf_chain_limits [of sample_extract 0 "[1, 2]" "[]" "KDFChain []"]
    next_keys_at [of "replicate 40 7" sample_extract 2 0]
  by (simp add: KDFChain_at_0 [of "replicate 40 7" sample_extract] numeral_2_eq_2)

end
