(* ===== verification/Base64.thy ===== *)
theory Base64
  imports Strings
begin

text \<open>
  The contract of \<open>absl::Base64Escape\<close> and \<open>absl::Base64Unescape\<close>, which \<open>crypto/crypto.cpp\<close> calls and
  which are not part of the repository: unescaping inverts escaping. The contract is satisfied by a
  reference codec with the alphabet of RFC 4648; it models no code of the repository. Decoded
  strings are given as their bytes.
\<close>

locale base64_api =
  fixes Base64Escape :: "bytes \<Rightarrow> string"
    and Base64Unescape :: "string \<Rightarrow> bytes option"
  assumes unescape_escape: "Base64Unescape (Base64Escape bs) = Some bs"
begin

lemma escape_inj: "Base64Escape as = Base64Escape bs \<Longrightarrow> as = bs"
  by (metis unescape_escape option.inject)

end

section \<open>The reference codec\<close>

definition b64_alphabet :: string where
  "b64_alphabet = ''ABCDEFGHIJKLMNOPQRSTUVWXYZabcdefghijklmnopqrstuvwxyz0123456789+/''"

definition b64_char :: "nat \<Rightarrow> char" where
  "b64_char i = b64_alphabet ! i"

definition b64_value :: "char \<Rightarrow> nat option" where
  "b64_value c = (let n = length (takeWhile (\<lambda>d. d \<noteq> c) b64_alphabet) in if n < 64 then Some n else None)"

fun ref_Base64Escape :: "bytes \<Rightarrow> string" where
  "ref_Base64Escape [] = []"
| "ref_Base64Escape [a] =
     [b64_char (unat a div 4), b64_char (unat a mod 4 * 16), CHR ''='', CHR ''='']"
| "ref_Base64Escape [a, b] =
     [b64_char (unat a div 4), b64_char (unat a mod 4 * 16 + unat b div 16),
      b64_char (unat b mod 16 * 4), CHR ''='']"
| "ref_Base64Escape (a # b # c # bs) =
     b64_char (unat a div 4) # b64_char (unat a mod 4 * 16 + unat b div 16) #
     b64_char (unat b mod 16 * 4 + unat c div 64) # b64_char (unat c mod 64) # ref_Base64Escape bs"

fun ref_Base64Unescape :: "string \<Rightarrow> bytes option" where
  "ref_Base64Unescape [] = Some []"
| "ref_Base64Unescape (p # q # r # s # cs) =
     (case (b64_value p, b64_value q, b64_value r, b64_value s) of
        (Some w, Some x, Some y, Some z) \<Rightarrow>
          map_option (\<lambda>bs. of_nat (w * 4 + x div 16) # of_nat (x mod 16 * 16 + y div 4) #
            of_nat (y mod 4 * 64 + z) # bs) (ref_Base64Unescape cs)
      | (Some w, Some x, Some y, None) \<Rightarrow>
          if s = CHR ''='' \<and> cs = [] then Some [of_nat (w * 4 + x div 16), of_nat (x mod 16 * 16 + y div 4)]
          else None
      | (Some w, Some x, None, None) \<Rightarrow>
          if r = CHR ''='' \<and> s = CHR ''='' \<and> cs = [] then Some [of_nat (w * 4 + x div 16)] else None
      | _ \<Rightarrow> None)"
| "ref_Base64Unescape _ = None"

lemma b64_value_table: "\<forall>i \<in> set [0..<64]. b64_value (b64_char i) = Some i"
  by code_simp

lemma b64_value_char: "i < 64 \<Longrightarrow> b64_value (b64_char i) = Some i"
  using b64_value_table by simp

lemma b64_value_pad: "b64_value (CHR ''='') = None"
  by code_simp

lemma div_of_byte:
  fixes b :: u8
  shows "unat b div 4 < 64" "unat b div 16 < 16" "unat b div 64 < 4"
  using u8_bound [of b] by (simp_all add: div_less_iff_less_mult)

lemma b64_parts:
  fixes a b c :: u8
  shows "unat a mod 4 * 16 + unat b div 16 < 64" "unat a mod 4 * 16 < 64"
    "unat b mod 16 * 4 + unat c div 64 < 64" "unat b mod 16 * 4 < 64" "unat c mod 64 < 64"
proof -
  have "unat a mod 4 < 4" "unat b mod 16 < 16" "unat c mod 64 < 64" by simp_all
  with div_of_byte [of b] div_of_byte [of c] show "unat a mod 4 * 16 + unat b div 16 < 64"
    "unat a mod 4 * 16 < 64" "unat b mod 16 * 4 + unat c div 64 < 64" "unat b mod 16 * 4 < 64"
    "unat c mod 64 < 64" by linarith+
qed

lemma b64_join:
  fixes b :: u8
  shows "unat b div 16 div 16 = 0" "unat b div 16 mod 16 = unat b div 16"
    "unat b div 64 div 4 = 0" "unat b div 64 mod 4 = unat b div 64"
    "unat b div 256 = 0"
  using div_of_byte [of b] u8_bound [of b] by simp_all

interpretation ref_base64: base64_api ref_Base64Escape ref_Base64Unescape
proof
  fix bs show "ref_Base64Unescape (ref_Base64Escape bs) = Some bs"
    by (induction bs rule: ref_Base64Escape.induct)
      (simp_all add: b64_value_char b64_parts div_of_byte b64_value_pad b64_join del: of_nat_add of_nat_mult)
qed

end
