(* ===== verification/Crypto.thy ===== *)
theory Crypto
  imports Base64
begin

text \<open>
  Keys, signatures and peer identifiers of \<open>crypto/crypto.h\<close> and \<open>crypto/crypto.cpp\<close>. The libsodium
  primitives and the Base64 functions of Abseil are parameters; they read their fixed-size operands
  whatever the size of the caller's object, so the definitions check those sizes. A constructor or
  function that changes one of its arguments returns the argument's new value as well.
\<close>

section \<open>The code\<close>

definition kPubkeySize :: nat where "kPubkeySize = 32"
definition kPrivkeySize :: nat where "kPrivkeySize = 64"
definition kSignatureSize :: nat where "kSignatureSize = 64"

text \<open>Sizes of libsodium: \<open>crypto_box_SEALBYTES\<close>, and the public and secret keys of a box.\<close>

abbreviation (input) seal_bytes :: nat where "seal_bytes \<equiv> 48"
abbreviation (input) box_key_bytes :: nat where "box_key_bytes \<equiv> 32"

record pubkey =
  pubkey_data :: bytes

record signature =
  signature_bytes :: bytes

record peer_id =
  peer_id_bytes :: bytes

record privkey =
  privkey_data :: bytes

record keypair =
  keypair_pubkey :: pubkey
  keypair_privkey :: privkey

subsection \<open>Copies of a caller's bytes into an array\<close>

text \<open>\<open>std::copy(p, p + n, ...)\<close> from a view, and of a whole span into an array of \<open>n\<close> zeros.\<close>

definition copy_from :: "nat \<Rightarrow> bytes \<Rightarrow> bytes outcome" where
  "copy_from n src = (if length src < n then Undef Out_of_bounds else Ret (take n src))"

definition copy_whole :: "bytes \<Rightarrow> nat \<Rightarrow> bytes outcome" where
  "copy_whole src n =
     (if length src \<le> n then Ret (src @ replicate (n - length src) 0) else Undef Out_of_bounds)"

subsection \<open>Pubkey\<close>

definition pubkey_from_base64 :: "(string \<Rightarrow> bytes option) \<Rightarrow> string \<Rightarrow> pubkey option" where
  "pubkey_from_base64 Base64Unescape base64 = (case Base64Unescape base64 of
     None \<Rightarrow> None
   | Some decoded \<Rightarrow> if length decoded \<noteq> kPubkeySize then None else Some \<lparr>pubkey_data = decoded\<rparr>)"

definition pubkey_from_stringbytes :: "bytes \<Rightarrow> pubkey outcome" where
  "pubkey_from_stringbytes stringbytes =
     obind (copy_from kPubkeySize stringbytes) (\<lambda>data. Ret \<lparr>pubkey_data = data\<rparr>)"

definition pubkey_verify :: "(bytes \<Rightarrow> bytes \<Rightarrow> bytes \<Rightarrow> int) \<Rightarrow> pubkey \<Rightarrow> bytes \<Rightarrow> bytes \<Rightarrow> bool outcome" where
  "pubkey_verify crypto_sign_verify_detached p bytes signature =
     obind (copy_from kSignatureSize signature) (\<lambda>sig.
     Ret (crypto_sign_verify_detached sig bytes (pubkey_data p) = 0))"

definition pubkey_to_string :: "(u8 \<Rightarrow> string) \<Rightarrow> pubkey \<Rightarrow> string" where
  "pubkey_to_string StrFormat_02x p = foldl (\<lambda>buffer byte. buffer @ StrFormat_02x byte) [] (pubkey_data p)"

definition pubkey_to_base64 :: "(bytes \<Rightarrow> string) \<Rightarrow> pubkey \<Rightarrow> string" where
  "pubkey_to_base64 Base64Escape p = Base64Escape (pubkey_data p)"

definition pubkey_encrypt_to :: "(bytes \<Rightarrow> bytes \<Rightarrow> bytes) \<Rightarrow> pubkey \<Rightarrow> bytes \<Rightarrow> bytes" where
  "pubkey_encrypt_to crypto_box_seal p message = crypto_box_seal message (pubkey_data p)"

definition pubkey_equal :: "pubkey \<Rightarrow> pubkey \<Rightarrow> bool" where
  "pubkey_equal p other \<longleftrightarrow> pubkey_data other = pubkey_data p"

subsection \<open>Signature\<close>

definition signature_from_bytes :: "bytes \<Rightarrow> signature outcome" where
  "signature_from_bytes bytes =
     obind (copy_whole bytes kSignatureSize) (\<lambda>data. Ret \<lparr>signature_bytes = data\<rparr>)"

definition signature_from_stringbytes :: "bytes \<Rightarrow> signature outcome" where
  "signature_from_stringbytes stringbytes =
     obind (copy_from kSignatureSize stringbytes) (\<lambda>data. Ret \<lparr>signature_bytes = data\<rparr>)"

subsection \<open>PeerId\<close>

definition peer_id_from_base64 :: "(string \<Rightarrow> bytes option) \<Rightarrow> string \<Rightarrow> peer_id option" where
  "peer_id_from_base64 Base64Unescape base64 = (case Base64Unescape base64 of
     None \<Rightarrow> None
   | Some decoded \<Rightarrow> Some \<lparr>peer_id_bytes = decoded\<rparr>)"

definition peer_id_from_pubkey :: "(bytes \<Rightarrow> bytes) \<Rightarrow> pubkey \<Rightarrow> peer_id" where
  "peer_id_from_pubkey crypto_hash_sha256 p = \<lparr>peer_id_bytes = crypto_hash_sha256 (pubkey_data p)\<rparr>"

definition peer_id_to_base64 :: "(bytes \<Rightarrow> string) \<Rightarrow> peer_id \<Rightarrow> string" where
  "peer_id_to_base64 Base64Escape i = Base64Escape (peer_id_bytes i)"

definition peer_id_to_string :: "(u8 \<Rightarrow> string) \<Rightarrow> peer_id \<Rightarrow> string" where
  "peer_id_to_string StrFormat_02x i = foldl (\<lambda>buffer byte. buffer @ StrFormat_02x byte) [] (peer_id_bytes i)"

subsection \<open>Privkey\<close>

text \<open>The constructor from an array copies the array and clears it: the key, and the array after.\<close>

definition privkey_from_array :: "bytes \<Rightarrow> privkey \<times> bytes" where
  "privkey_from_array bytes = (\<lparr>privkey_data = bytes\<rparr>, replicate (length bytes) 0)"

text \<open>
  The move constructor: the new key starts as zeros and is copied onto itself, then the source is
  cleared. The result is the new key and the source after the move.
\<close>

definition privkey_move :: "privkey \<Rightarrow> privkey \<times> privkey" where
  "privkey_move other = (let
     this = \<lparr>privkey_data = replicate kPrivkeySize 0\<rparr>;
     this = this\<lparr>privkey_data := privkey_data this\<rparr>;
     other = other\<lparr>privkey_data := replicate (length (privkey_data other)) 0\<rparr> in
     (this, other))"

text \<open>The destructor leaves zeros in the storage of the key.\<close>

definition privkey_destroy :: "privkey \<Rightarrow> privkey" where
  "privkey_destroy k = k\<lparr>privkey_data := replicate (length (privkey_data k)) 0\<rparr>"

text \<open>
  The return statement builds a \<open>Privkey\<close> and moves it into the \<open>std::optional\<close>. The second component is
  the string \<open>decoded\<close> as the function leaves it.
\<close>

definition privkey_from_base64 :: "(string \<Rightarrow> bytes option) \<Rightarrow> string \<Rightarrow> privkey option \<times> bytes" where
  "privkey_from_base64 Base64Unescape base64 = (case Base64Unescape base64 of
     None \<Rightarrow> (None, [])
   | Some decoded \<Rightarrow>
       if length decoded \<noteq> kPrivkeySize then (None, decoded)
       else (let
         bytes = decoded;
         decoded = replicate (length decoded) 0;
         (key, bytes) = privkey_from_array bytes;
         (result, key) = privkey_move key in
         (Some result, decoded)))"

text \<open>
  The size of the message is computed in \<open>size_t\<close> and may wrap; a vector longer than its \<open>max_size\<close>
  cannot be built.
\<close>

definition make_vector :: "u64 \<Rightarrow> bytes outcome" where
  "make_vector n = (if unat n \<le> 2 ^ 63 - 1 then Ret (replicate (unat n) 0) else Throw Length_error)"

definition privkey_decrypt ::
  "(bytes \<Rightarrow> bytes \<Rightarrow> bytes \<Rightarrow> bytes option) \<Rightarrow> privkey \<Rightarrow> bytes \<Rightarrow> bytes option outcome" where
  "privkey_decrypt crypto_box_seal_open k ciphertext =
     obind (make_vector (word_of_nat (length ciphertext) - word_of_nat seal_bytes)) (\<lambda>message.
     case crypto_box_seal_open ciphertext (take box_key_bytes (privkey_data k))
         (take box_key_bytes (privkey_data k)) of
       None \<Rightarrow> Ret None
     | Some message \<Rightarrow> Ret (Some message))"

definition privkey_sign :: "(bytes \<Rightarrow> bytes \<Rightarrow> bytes) \<Rightarrow> privkey \<Rightarrow> bytes \<Rightarrow> signature" where
  "privkey_sign crypto_sign_detached k message =
     \<lparr>signature_bytes = crypto_sign_detached message (privkey_data k)\<rparr>"

subsection \<open>Keypair\<close>

text \<open>
  \<open>crypto_sign_keypair\<close> draws from the random generator, whose state is passed along;
  \<open>crypto_sign_seed_keypair\<close> is a function of the seed. Both give the public and the secret key.
\<close>

definition keypair_generate :: "('r \<Rightarrow> (bytes \<times> bytes) \<times> 'r) \<Rightarrow> 'r \<Rightarrow> keypair \<times> 'r" where
  "keypair_generate crypto_sign_keypair r = (let
     ((pubkey, privkey), r) = crypto_sign_keypair r;
     (key, privkey) = privkey_from_array privkey in
     (\<lparr>keypair_pubkey = \<lparr>pubkey_data = pubkey\<rparr>, keypair_privkey = key\<rparr>, r))"

definition keypair_generate_from :: "(bytes \<Rightarrow> bytes \<times> bytes) \<Rightarrow> bytes \<Rightarrow> keypair" where
  "keypair_generate_from crypto_sign_seed_keypair seed = (let
     (pubkey, privkey) = crypto_sign_seed_keypair seed;
     (key, privkey) = privkey_from_array privkey in
     \<lparr>keypair_pubkey = \<lparr>pubkey_data = pubkey\<rparr>, keypair_privkey = key\<rparr>)"

section \<open>What libsodium promises\<close>

text \<open>
  Signatures: a pair made from a seed has a 32-byte public key; the secret key is the seed followed
  by the public key; a signature has 64 bytes and is accepted under the public key of its signer.
\<close>

locale sign_api =
  fixes seed_keypair :: "bytes \<Rightarrow> bytes \<times> bytes"
    and sign_detached :: "bytes \<Rightarrow> bytes \<Rightarrow> bytes"
    and verify_detached :: "bytes \<Rightarrow> bytes \<Rightarrow> bytes \<Rightarrow> int"
  assumes keypair_sizes: "length seed = 32 \<Longrightarrow> length (fst (seed_keypair seed)) = 32"
    and secret_key: "length seed = 32 \<Longrightarrow> snd (seed_keypair seed) = seed @ fst (seed_keypair seed)"
    and signature_size: "length (sign_detached m sk) = 64"
    and verify_sign: "length seed = 32 \<Longrightarrow>
      verify_detached (sign_detached m (snd (seed_keypair seed))) m (fst (seed_keypair seed)) = 0"
begin

lemma signs_and_verifies:
  assumes "length seed = 32"
  shows "pubkey_verify verify_detached (keypair_pubkey (keypair_generate_from seed_keypair seed)) m
    (signature_bytes (privkey_sign sign_detached (keypair_privkey (keypair_generate_from seed_keypair seed)) m) @ rest)
    = Ret True"
  using assms verify_sign [of seed m] signature_size
  by (simp add: pubkey_verify_def copy_from_def keypair_generate_from_def privkey_sign_def
      privkey_from_array_def kSignatureSize_def case_prod_unfold Let_def)

end

text \<open>
  Sealed boxes: a box is 48 bytes longer than its message, the owner of the key pair opens it, and it
  does not open under another public key than the one it was sealed to.
\<close>

locale sealed_box_api =
  fixes box_seal :: "bytes \<Rightarrow> bytes \<Rightarrow> bytes"
    and box_seal_open :: "bytes \<Rightarrow> bytes \<Rightarrow> bytes \<Rightarrow> bytes option"
    and box_public :: "bytes \<Rightarrow> bytes"
  assumes seal_size: "length pk = box_key_bytes \<Longrightarrow> length (box_seal m pk) = length m + seal_bytes"
    and open_own: "length sk = box_key_bytes \<Longrightarrow>
      box_seal_open (box_seal m (box_public sk)) (box_public sk) sk = Some m"
    and open_other: "length pk = box_key_bytes \<Longrightarrow> length pk' = box_key_bytes \<Longrightarrow> pk \<noteq> pk' \<Longrightarrow>
      box_seal_open (box_seal m pk) pk' sk = None"
begin

lemma decrypt_sealed_to_other:
  assumes "length m + seal_bytes < 2 ^ 63" "length (pubkey_data p) = kPubkeySize"
    and "length (privkey_data k) = kPrivkeySize" "take box_key_bytes (privkey_data k) \<noteq> pubkey_data p"
  shows "privkey_decrypt box_seal_open k (pubkey_encrypt_to box_seal p m) = Ret None"
proof -
  have "word_of_nat (length m + seal_bytes) - word_of_nat seal_bytes = (word_of_nat (length m) :: u64)"
    by simp
  then show ?thesis
    using assms open_other
    by (simp add: privkey_decrypt_def pubkey_encrypt_to_def seal_size make_vector_def unat_of_nat
        kPubkeySize_def kPrivkeySize_def)
qed

end

text \<open>A toy scheme that keeps these promises (and no secret): the public key is the seed reversed.\<close>

definition toy_keypair :: "bytes \<Rightarrow> bytes \<times> bytes" where
  "toy_keypair seed = (rev seed, seed @ rev seed)"

definition toy_sign :: "bytes \<Rightarrow> bytes \<Rightarrow> bytes" where
  "toy_sign m sk = take 32 (drop 32 sk @ replicate 32 0) @ take 32 (m @ replicate 32 0)"

definition toy_verify :: "bytes \<Rightarrow> bytes \<Rightarrow> bytes \<Rightarrow> int" where
  "toy_verify sig m pk = (if sig = pk @ take 32 (m @ replicate 32 0) then 0 else - 1)"

definition toy_seal :: "bytes \<Rightarrow> bytes \<Rightarrow> bytes" where
  "toy_seal m pk = pk @ replicate 16 0 @ m"

definition toy_open :: "bytes \<Rightarrow> bytes \<Rightarrow> bytes \<Rightarrow> bytes option" where
  "toy_open c pk sk = (if take 32 c = pk \<and> pk = rev sk then Some (drop 48 c) else None)"

interpretation toy_sign: sign_api toy_keypair toy_sign toy_verify
  by unfold_locales (simp_all add: toy_keypair_def toy_sign_def toy_verify_def)

interpretation toy_box: sealed_box_api toy_seal toy_open rev
  by unfold_locales (simp_all add: toy_seal_def toy_open_def)

section \<open>Facts on the operations\<close>

lemma pubkey_eta [simp]: "\<lparr>pubkey_data = pubkey_data p\<rparr> = (p :: pubkey)"
  by (cases p) simp

lemma privkey_move_zeros:
  "privkey_move k = (\<lparr>privkey_data = replicate kPrivkeySize 0\<rparr>,
     k\<lparr>privkey_data := replicate (length (privkey_data k)) 0\<rparr>)"
  by (simp add: privkey_move_def Let_def)

lemma privkey_from_base64_eq:
  "privkey_from_base64 unescape s = (case unescape s of None \<Rightarrow> (None, [])
     | Some d \<Rightarrow> if length d = kPrivkeySize
         then (Some \<lparr>privkey_data = replicate kPrivkeySize 0\<rparr>, replicate kPrivkeySize 0) else (None, d))"
  by (simp add: privkey_from_base64_def privkey_from_array_def privkey_move_zeros Let_def split: option.splits)

lemma hex_concat: "foldl (\<lambda>buffer byte. buffer @ f byte) acc bs = acc @ concat (map f bs)"
  by (induction bs arbitrary: acc) simp_all

lemma hex_byte_inj: "hex_byte a = hex_byte b \<longleftrightarrow> a = b"
proof
  assume "hex_byte a = hex_byte b"
  then have "hex_digit (unat a div 16) = hex_digit (unat b div 16)"
    "hex_digit (unat a mod 16) = hex_digit (unat b mod 16)" by (simp_all add: hex_byte_def)
  then have "unat a div 16 = unat b div 16" "unat a mod 16 = unat b mod 16"
    using hex_value_digit div_of_byte(2) by (metis option.inject, metis option.inject mod_less_divisor zero_less_numeral)
  then have "unat a = unat b" by (metis div_mult_mod_eq)
  then show "a = b" by (rule unsigned_word_eqI)
qed simp

lemma concat_hex_inj: "concat (map hex_byte as) = concat (map hex_byte bs) \<Longrightarrow> as = bs"
proof (induction as arbitrary: bs)
  case Nil
  then show ?case by (cases bs) (auto simp: hex_byte_def)
next
  case (Cons a as)
  then obtain b bs' where "bs = b # bs'" by (cases bs) (auto simp: hex_byte_def)
  moreover have "length (hex_byte a) = length (hex_byte b)" by (simp add: hex_byte_def)
  ultimately show ?case using Cons hex_byte_inj [of a b] by auto
qed

lemma concat_hex_length: "length (concat (map hex_byte bs)) = 2 * length bs"
  by (induction bs) (simp_all add: hex_byte_def)

lemma make_vector_small:
  assumes "n < 2 ^ 63"
  shows "make_vector (word_of_nat n - word_of_nat seal_bytes) =
    (if n < seal_bytes then Throw Length_error else Ret (replicate (n - seal_bytes) 0))"
proof -
  have "unat (word_of_nat n :: u64) = n" "unat (word_of_nat seal_bytes :: u64) = seal_bytes"
    using assms by (simp_all add: unat_of_nat)
  then have "unat (word_of_nat n - word_of_nat seal_bytes :: u64) =
      (if seal_bytes \<le> n then n - seal_bytes else n + 2 ^ 64 - seal_bytes)"
    by (simp only: unat_sub_if' len_bit0 len_num1 mult_2) simp
  then show ?thesis using assms by (auto simp: make_vector_def)
qed

section \<open>Properties\<close>

text \<open>Public keys and peer identifiers survive Base64: \<open>Pubkey::from_base64\<close> of the Base64 form of
  32 bytes is the key of those bytes, of any other number of bytes it is no key, and
  \<open>PeerId::from_base64\<close> inverts \<open>PeerId::to_base64\<close>. The hexadecimal forms have two digits for a byte and
  distinguish different keys and identifiers.\<close>

theorem pubkey_peer_id_text:
  assumes "base64_api Base64Escape Base64Unescape"
  shows "pubkey_from_base64 Base64Unescape (pubkey_to_base64 Base64Escape p) =
      (if length (pubkey_data p) = 32 then Some p else None) \<and>
    peer_id_from_base64 Base64Unescape (peer_id_to_base64 Base64Escape i) = Some i \<and>
    (pubkey_to_string hex_byte p = pubkey_to_string hex_byte q \<longleftrightarrow> pubkey_equal p q) \<and>
    (peer_id_to_string hex_byte i = peer_id_to_string hex_byte j \<longleftrightarrow> i = j) \<and>
    length (peer_id_to_string hex_byte i) = 2 * length (peer_id_bytes i)"
proof -
  have "peer_id_bytes i = peer_id_bytes j \<longleftrightarrow> i = j" by (cases i; cases j) simp
  then show ?thesis
    using concat_hex_inj [of "pubkey_data p" "pubkey_data q"] concat_hex_inj [of "peer_id_bytes i" "peer_id_bytes j"]
    by (auto simp: pubkey_from_base64_def pubkey_to_base64_def peer_id_from_base64_def peer_id_to_base64_def
        base64_api.unescape_escape [OF assms] kPubkeySize_def pubkey_to_string_def peer_id_to_string_def
        hex_concat pubkey_equal_def concat_hex_length)
qed

theorem pubkey_peer_id_text_witness:
  "pubkey_from_base64 ref_Base64Unescape (pubkey_to_base64 ref_Base64Escape \<lparr>pubkey_data = replicate 32 5\<rparr>) =
      (if length (pubkey_data \<lparr>pubkey_data = replicate 32 5\<rparr>) = 32 then Some \<lparr>pubkey_data = replicate 32 5\<rparr> else None) \<and>
    peer_id_from_base64 ref_Base64Unescape (peer_id_to_base64 ref_Base64Escape \<lparr>peer_id_bytes = [1, 2]\<rparr>) =
      Some \<lparr>peer_id_bytes = [1, 2]\<rparr> \<and>
    (pubkey_to_string hex_byte \<lparr>pubkey_data = replicate 32 5\<rparr> = pubkey_to_string hex_byte \<lparr>pubkey_data = [6]\<rparr>
      \<longleftrightarrow> pubkey_equal \<lparr>pubkey_data = replicate 32 5\<rparr> \<lparr>pubkey_data = [6]\<rparr>) \<and>
    (peer_id_to_string hex_byte \<lparr>peer_id_bytes = [1, 2]\<rparr> = peer_id_to_string hex_byte \<lparr>peer_id_bytes = [2]\<rparr>
      \<longleftrightarrow> \<lparr>peer_id_bytes = [1, 2]\<rparr> = \<lparr>peer_id_bytes = [2]\<rparr>) \<and>
    length (peer_id_to_string hex_byte \<lparr>peer_id_bytes = [1, 2]\<rparr>) = 2 * length (peer_id_bytes \<lparr>peer_id_bytes = [1, 2]\<rparr>)"
  by (rule pubkey_peer_id_text) (rule ref_base64.base64_api_axioms)

text \<open>C35: \<open>Privkey::from_base64\<close> loses the key: whatever text it accepts, the key it returns is 64 zero
  bytes, because the move constructor copies the new object onto itself instead of the moved one. So
  all accepted texts give the same signatures. It does clear the decoded bytes, and it accepts exactly
  the texts that decode to 64 bytes.\<close>

theorem privkey_from_base64_loses_key:
  "privkey_from_base64 Base64Unescape text1 = (result, decoded) \<longrightarrow>
    (case result of
       None \<Rightarrow> (\<forall>d. Base64Unescape text1 = Some d \<longrightarrow> length d \<noteq> 64 \<and> decoded = d)
     | Some k \<Rightarrow> (\<exists>d. Base64Unescape text1 = Some d \<and> length d = 64) \<and>
         privkey_data k = replicate 64 0 \<and> decoded = replicate 64 0 \<and>
         privkey_sign crypto_sign_detached k m = \<lparr>signature_bytes = crypto_sign_detached m (replicate 64 0)\<rparr>)"
  by (auto simp: privkey_from_base64_eq kPrivkeySize_def privkey_sign_def split: option.splits if_splits)

theorem privkey_from_base64_loses_key_witness:
  "privkey_sign toy_sign (the (fst (privkey_from_base64 ref_Base64Unescape (ref_Base64Escape (replicate 64 7))))) [1]
     = \<lparr>signature_bytes = toy_sign [1] (replicate 64 0)\<rparr>"
  using privkey_from_base64_loses_key [of ref_Base64Unescape "ref_Base64Escape (replicate 64 7)"
      "Some \<lparr>privkey_data = replicate 64 0\<rparr>" "replicate 64 0" toy_sign "[1]"]
  by (simp add: privkey_from_base64_eq ref_base64.unescape_escape kPrivkeySize_def)

text \<open>Signing with a generated key pair: a signature by its private key verifies under its public
  key, also after a trip through \<open>Signature::from_stringbytes\<close> or \<open>Signature::from_bytes\<close>, and also when
  other bytes follow the 64 of the signature; a signature span shorter than 64 bytes is read past its
  end whatever the message.\<close>

theorem generated_keypair_signs:
  fixes m :: bytes
  assumes "sign_api seed_keypair sign_detached verify_detached" and "length seed = 32"
  defines "pair \<equiv> keypair_generate_from seed_keypair seed"
  defines "sig \<equiv> privkey_sign sign_detached (keypair_privkey pair) m"
  shows "pubkey_verify verify_detached (keypair_pubkey pair) m (signature_bytes sig @ rest) = Ret True \<and>
    signature_from_stringbytes (signature_bytes sig @ rest) = Ret sig \<and>
    signature_from_bytes (signature_bytes sig) = Ret sig \<and>
    (length short < 64 \<longrightarrow> pubkey_verify verify_detached (keypair_pubkey pair) m short = Undef Out_of_bounds)"
  using sign_api.signs_and_verifies [OF assms(1,2), of m rest] sign_api.signature_size [OF assms(1)]
  by (simp add: pair_def sig_def signature_from_stringbytes_def signature_from_bytes_def copy_from_def
      copy_whole_def privkey_sign_def kSignatureSize_def pubkey_verify_def)

theorem generated_keypair_signs_witness:
  "pubkey_verify toy_verify (keypair_pubkey (keypair_generate_from toy_keypair (replicate 32 1))) [9]
      (signature_bytes (privkey_sign toy_sign (keypair_privkey (keypair_generate_from toy_keypair (replicate 32 1))) [9]) @ [8])
     = Ret True"
  using generated_keypair_signs [OF toy_sign.sign_api_axioms, of "replicate 32 1" "[9]" "[8]" "[]"] by simp

text \<open>C36: Decryption: a ciphertext shorter than the 48 bytes of overhead makes \<open>decrypt\<close> throw
  \<open>std::length_error\<close>, as the size of the message wraps; and a message sealed to the public key of a
  generated pair is not decrypted by its private key, unless public key and seed coincide, because
  \<open>decrypt\<close> passes the secret key where the public key belongs.\<close>

theorem decrypt_own_fails:
  assumes "sealed_box_api box_seal box_seal_open box_public"
    and "sign_api seed_keypair sign_detached verify_detached"
    and "length seed = 32" and "length m < 2 ^ 62" and "fst (seed_keypair seed) \<noteq> seed"
  defines "pair \<equiv> keypair_generate_from seed_keypair seed"
  shows "privkey_decrypt box_seal_open (keypair_privkey pair) (pubkey_encrypt_to box_seal (keypair_pubkey pair) m)
      = Ret None \<and>
    (length short < 48 \<longrightarrow> privkey_decrypt box_seal_open k short = Throw Length_error)"
proof -
  have pair: "pubkey_data (keypair_pubkey pair) = fst (seed_keypair seed)"
    "privkey_data (keypair_privkey pair) = seed @ fst (seed_keypair seed)"
    using sign_api.secret_key [OF assms(2,3)]
    by (simp_all add: pair_def keypair_generate_from_def privkey_from_array_def case_prod_unfold Let_def)
  have "privkey_decrypt box_seal_open (keypair_privkey pair) (pubkey_encrypt_to box_seal (keypair_pubkey pair) m)
      = Ret None"
    using assms(3-5) sign_api.keypair_sizes [OF assms(2,3)]
    by (intro sealed_box_api.decrypt_sealed_to_other [OF assms(1)])
      (auto simp: pair kPubkeySize_def kPrivkeySize_def)
  then show ?thesis
    using make_vector_small [of "length short"] by (simp add: privkey_decrypt_def)
qed

theorem decrypt_own_fails_witness:
  "privkey_decrypt toy_open (keypair_privkey (keypair_generate_from toy_keypair (1 # replicate 31 0)))
     (pubkey_encrypt_to toy_seal (keypair_pubkey (keypair_generate_from toy_keypair (1 # replicate 31 0))) [5]) = Ret None \<and>
   privkey_decrypt toy_open \<lparr>privkey_data = []\<rparr> [1, 2] = Throw Length_error"
proof -
  have "fst (toy_keypair (1 # replicate 31 0)) \<noteq> 1 # replicate 31 0"
    by (simp add: toy_keypair_def numeral_eq_Suc)
  then show ?thesis
    using decrypt_own_fails [OF toy_box.sealed_box_api_axioms toy_sign.sign_api_axioms,
        of "1 # replicate 31 0" "[5]" "[1, 2]" "\<lparr>privkey_data = []\<rparr>"] by simp
qed

text \<open>The functions that take raw bytes: \<open>Pubkey::from_stringbytes\<close> and
  \<open>Signature::from_stringbytes\<close> return the first 32 and 64 bytes and read out of bounds when there are
  fewer; \<open>Signature::from_bytes\<close> fills up with zeros and writes out of bounds for more than 64 bytes.\<close>

theorem raw_key_readers:
  "pubkey_from_stringbytes bs =
     (if 32 \<le> length bs then Ret \<lparr>pubkey_data = take 32 bs\<rparr> else Undef Out_of_bounds) \<and>
   signature_from_stringbytes bs =
     (if 64 \<le> length bs then Ret \<lparr>signature_bytes = take 64 bs\<rparr> else Undef Out_of_bounds) \<and>
   signature_from_bytes bs =
     (if length bs \<le> 64 then Ret \<lparr>signature_bytes = bs @ replicate (64 - length bs) 0\<rparr> else Undef Out_of_bounds)"
  by (simp add: pubkey_from_stringbytes_def signature_from_stringbytes_def signature_from_bytes_def
      copy_from_def copy_whole_def kPubkeySize_def kSignatureSize_def)

end
