(* ===== verification/Net.thy ===== *)
theory Net
  imports Crypto Multiaddr Varint
begin

text \<open>
  The byte streams of \<open>net/net.h\<close> and the handshake of \<open>src/hrafn.cpp\<close>. A \<open>Stream\<close> is an abstract class:
  its virtual functions and the undefined member \<open>valid\<close> are a record of functions over the state
  \<open>'w\<close> of the world outside, which every call passes on. A coroutine is modelled by what it computes
  from the answers it awaits. The Protocol Buffers classes are parameters: a pair of functions from
  messages to bytes and back.
\<close>

section \<open>The code\<close>

subsection \<open>Streams\<close>

datatype asio_error = Invalid_argument | Other_error int

text \<open>\<open>read\<close> gets the buffer and returns its new contents.\<close>

record 'w stream =
  stream_read :: "bytes \<Rightarrow> 'w \<Rightarrow> (unit, asio_error) expected \<times> bytes \<times> 'w"
  stream_write :: "bytes \<Rightarrow> 'w \<Rightarrow> (unit, asio_error) expected \<times> 'w"
  stream_valid :: "'w \<Rightarrow> bool"

record 'm proto =
  SerializeToArray :: "'m \<Rightarrow> bytes"
  ParseFromArray :: "bytes \<Rightarrow> 'm option"

text \<open>The unwrapping macros for coroutines, on a result with the world it was awaited in.\<close>

definition co_try_unwrap ::
  "('a, 'e) expected \<times> 'w \<Rightarrow> ('a \<Rightarrow> 'w \<Rightarrow> ('b, 'e) expected \<times> 'w) \<Rightarrow> ('b, 'e) expected \<times> 'w" where
  "co_try_unwrap x k = (case x of (Inl e, w) \<Rightarrow> (Inl e, w) | (Inr v, w) \<Rightarrow> k v w)"

definition co_try_unwrap_or ::
  "('a, 'd) expected \<times> 'w \<Rightarrow> 'e \<Rightarrow> ('a \<Rightarrow> 'w \<Rightarrow> ('b, 'e) expected \<times> 'w) \<Rightarrow> ('b, 'e) expected \<times> 'w" where
  "co_try_unwrap_or x err k = (case x of (Inl _, w) \<Rightarrow> (Inl err, w) | (Inr v, w) \<Rightarrow> k v w)"

lemma co_try_unwrap_simps [simp]:
  "co_try_unwrap (Inl e, w) k = (Inl e, w)"
  "co_try_unwrap (Inr v, w) k = k v w"
  "co_try_unwrap_or (Inl d, w) err k' = (Inl err, w)"
  "co_try_unwrap_or (Inr v, w) err k' = k' v w"
  by (simp_all add: co_try_unwrap_def co_try_unwrap_or_def)

definition stream_write_obj :: "'w stream \<Rightarrow> 'm proto \<Rightarrow> 'm \<Rightarrow> 'w \<Rightarrow> (unit, asio_error) expected \<times> 'w" where
  "stream_write_obj s p obj w = (let bytes = SerializeToArray p obj in
     co_try_unwrap (stream_write s bytes w) (\<lambda>_ w. (Inr (), w)))"

definition serialize_to_bytes :: "'m proto \<Rightarrow> 'm \<Rightarrow> bytes" where
  "serialize_to_bytes p obj = SerializeToArray p obj"

definition stream_read_type :: "nat \<Rightarrow> 'w stream \<Rightarrow> 'm proto \<Rightarrow> 'w \<Rightarrow> ('m, asio_error) expected \<times> 'w" where
  "stream_read_type kSize s p w = (let
     buffer = replicate kSize 0;
     (_, buffer, w) = stream_read s buffer w in
     case ParseFromArray p buffer of
       None \<Rightarrow> (Inl Invalid_argument, w)
     | Some root \<Rightarrow> (Inr root, w))"

definition stream_write_type :: "'w stream \<Rightarrow> 'm proto \<Rightarrow> 'm \<Rightarrow> 'w \<Rightarrow> (unit, asio_error) expected \<times> 'w" where
  "stream_write_type s p val w = (let bytes = serialize_to_bytes p val in stream_write s bytes w)"

subsection \<open>Contacts and connections\<close>

definition kHandshakeMessageMaxSize :: nat where "kHandshakeMessageMaxSize = 1024"

text \<open>\<open>time_t\<close> is a signed 64-bit integer, kept as its two's complement word.\<close>

record contact =
  contact_name :: "string option"
  known_addrs :: "multiaddr list"
  last_sync :: u64
  contact_pubkey :: pubkey

datatype handshake_error =
  InvalidFormat | InvalidVersion | InvalidChecksum | InvalidSignature | InvalidPubkey | InvalidTimestamp

record 'w connection =
  connection_stream :: "'w stream"
  connection_contact :: contact

subsection \<open>The handshake\<close>

text \<open>
  The generated message class with the two fields \<open>HandshakeMessage::proto\<close> sets; the second one is
  missing from \<open>proto/messages.proto\<close>.
\<close>

record handshake_proto =
  proto_flags :: u32
  proto_peer_id :: string

record handshake_message =
  handshake_flags :: u32
  handshake_peer_id :: peer_id

definition handshake_generate :: "peer_id \<Rightarrow> handshake_message" where
  "handshake_generate peer_id = \<lparr>handshake_flags = 0, handshake_peer_id = peer_id\<rparr>"

definition handshake_to_proto :: "(bytes \<Rightarrow> string) \<Rightarrow> handshake_message \<Rightarrow> handshake_proto" where
  "handshake_to_proto Base64Escape m =
     \<lparr>proto_flags = handshake_flags m, proto_peer_id = peer_id_to_base64 Base64Escape (handshake_peer_id m)\<rparr>"

text \<open>
  The members of the \<open>Contact\<close> that the designated initializer of \<open>negotiate\<close> leaves out are
  value-initialized; \<open>Pubkey\<close> has no such value, so the contact of a fresh connection carries a
  parameter in its place.
\<close>

definition fresh_contact :: "pubkey \<Rightarrow> contact" where
  "fresh_contact no_pubkey =
     \<lparr>contact_name = None, known_addrs = [], last_sync = 0, contact_pubkey = no_pubkey\<rparr>"

definition negotiate ::
  "(bytes \<Rightarrow> bytes) \<Rightarrow> (bytes \<Rightarrow> string) \<Rightarrow> handshake_proto proto \<Rightarrow> pubkey \<Rightarrow> 'w stream \<Rightarrow> pubkey \<Rightarrow> 'w \<Rightarrow>
   ('w connection, handshake_error) expected \<times> 'w" where
  "negotiate crypto_hash_sha256 Base64Escape p no_pubkey s pubkey w = (let
     message = handshake_to_proto Base64Escape
       (handshake_generate (peer_id_from_pubkey crypto_hash_sha256 pubkey));
     (_, w) = stream_write_obj s p message w;
     handshake_or = stream_read_type kHandshakeMessageMaxSize s p w in
     co_try_unwrap_or handshake_or InvalidFormat (\<lambda>handshake w.
       (Inr \<lparr>connection_stream = s, connection_contact = fresh_contact no_pubkey\<rparr>, w)))"

section \<open>What the libraries promise\<close>

text \<open>
  Protocol Buffers: parsing inverts serializing, and bytes after a message are not skipped: a zero byte
  is the tag of field number 0, which no message has.
\<close>

locale proto_api =
  fixes p :: "'m proto"
  assumes parse_serialize: "ParseFromArray p (SerializeToArray p m) = Some m"
    and padded_rejected: "ParseFromArray p (SerializeToArray p m @ replicate (Suc n) 0) = None"

text \<open>
  A stream as the comment of \<open>net/net.h\<close> has it: the packets that are received are correct and full. A
  read takes the next packet to the begin of the buffer, a write appends one.
\<close>

locale packet_stream =
  fixes s :: "'w stream"
    and inbox :: "'w \<Rightarrow> bytes list"
    and outbox :: "'w \<Rightarrow> bytes list"
  assumes read_packet: "inbox w = q # qs \<Longrightarrow> length q \<le> length buffer \<Longrightarrow>
      \<exists>w'. stream_read s buffer w = (Inr (), q @ drop (length q) buffer, w') \<and> inbox w' = qs \<and> outbox w' = outbox w"
    and write_packet: "\<exists>w'. stream_write s bs w = (Inr (), w') \<and> inbox w' = inbox w \<and> outbox w' = outbox w @ [bs]"
begin

lemma write_obj_packet:
  "\<exists>w'. stream_write_obj s p m w = (Inr (), w') \<and> inbox w' = inbox w \<and>
     outbox w' = outbox w @ [SerializeToArray p m]"
  using write_packet [of "SerializeToArray p m" w] by (auto simp: stream_write_obj_def Let_def)

lemma read_type_packet:
  assumes "inbox w = q # qs" "length q \<le> n"
  shows "\<exists>w'. stream_read_type n s p w =
      (case ParseFromArray p (q @ replicate (n - length q) 0) of
         None \<Rightarrow> Inl Invalid_argument | Some m \<Rightarrow> Inr m, w') \<and> inbox w' = qs \<and> outbox w' = outbox w"
  using read_packet [OF assms(1), of "replicate n 0"] assms(2)
  by (auto simp: stream_read_type_def Let_def split: option.splits)

end

text \<open>Two queues are such a stream.\<close>

record queues =
  queue_in :: "bytes list"
  queue_out :: "bytes list"

fun queue_read :: "bytes \<Rightarrow> queues \<Rightarrow> (unit, asio_error) expected \<times> bytes \<times> queues" where
  "queue_read buffer w = (case queue_in w of
     [] \<Rightarrow> (Inl (Other_error 2), buffer, w)
   | q # qs \<Rightarrow> (Inr (), take (length buffer) q @ drop (length q) buffer, w\<lparr>queue_in := qs\<rparr>))"

definition queue_stream :: "queues stream" where
  "queue_stream = \<lparr>stream_read = queue_read,
     stream_write = (\<lambda>bs w. (Inr (), w\<lparr>queue_out := queue_out w @ [bs]\<rparr>)),
     stream_valid = (\<lambda>w. queue_in w \<noteq> [])\<rparr>"

interpretation queues: packet_stream queue_stream queue_in queue_out
  by unfold_locales (simp_all add: queue_stream_def)

text \<open>A codec that keeps the promises of Protocol Buffers: numbers, then bytes, then an end mark.\<close>

definition encode_fields :: "u64 list \<Rightarrow> bytes \<Rightarrow> bytes" where
  "encode_fields ns bs = concat (map encode_varuint ns) @ bs @ [1]"

fun decode_fields :: "nat \<Rightarrow> bytes \<Rightarrow> (u64 list \<times> bytes) option" where
  "decode_fields 0 bs = (if bs = [] \<or> last bs \<noteq> 1 then None else Some ([], butlast bs))"
| "decode_fields (Suc k) bs = (case decode_varuint bs of
     Ret (Some (n, l)) \<Rightarrow> map_option (\<lambda>(ns, r). (n # ns, r)) (decode_fields k (drop l bs))
   | _ \<Rightarrow> None)"

lemma decode_encode_fields: "decode_fields (length ns) (encode_fields ns bs) = Some (ns, bs)"
  by (induction ns) (simp_all add: encode_fields_def decode_varuint_encode)

lemma decode_fields_padded: "decode_fields (length ns) (encode_fields ns bs @ replicate (Suc n) 0) = None"
  by (induction ns) (simp_all add: encode_fields_def decode_varuint_encode)

lemma encode_fields_length: "length (encode_fields ns bs) \<le> 10 * length ns + length bs + 1"
proof (induction ns)
  case Nil
  then show ?case by (simp add: encode_fields_def)
next
  case (Cons n ns)
  then show ?case using encode_varuint_at_most_10 [of n] by (simp add: encode_fields_def)
qed

definition sample_proto :: "handshake_proto proto" where
  "sample_proto = \<lparr>
     SerializeToArray = (\<lambda>m. encode_fields [ucast (proto_flags m)] (map (\<lambda>c. word_of_nat (of_char c)) (proto_peer_id m))),
     ParseFromArray = (\<lambda>bs. case decode_fields 1 bs of
         Some ([f], t) \<Rightarrow> Some \<lparr>proto_flags = ucast f, proto_peer_id = map (\<lambda>b. char_of (unat b)) t\<rparr>
       | _ \<Rightarrow> None)\<rparr>"

lemma char_of_byte_of_char: "char_of (unat (word_of_nat (of_char c) :: u8)) = c"
  by (simp add: unat_of_nat)

interpretation sample_proto: proto_api sample_proto
proof
  fix m :: handshake_proto and n
  have "ucast (ucast f :: u64) = f" for f :: u32
    by (rule bit_word_eqI) (auto simp: bit_simps)
  then show "ParseFromArray sample_proto (SerializeToArray sample_proto m) = Some m"
    using decode_encode_fields [of "[ucast (proto_flags m)]" "map (\<lambda>c. word_of_nat (of_char c)) (proto_peer_id m)"]
    by (simp add: sample_proto_def char_of_byte_of_char comp_def)
  show "ParseFromArray sample_proto (SerializeToArray sample_proto m @ replicate (Suc n) 0) = None"
    using decode_fields_padded [of "[ucast (proto_flags m)]" "map (\<lambda>c. word_of_nat (of_char c)) (proto_peer_id m)" n]
    by (simp add: sample_proto_def)
qed

section \<open>Properties\<close>

text \<open>C18: Two peers that follow this code never get a connection: when the packet the other side sent is a
  handshake shorter than the 1024 bytes of the receive buffer, the zeros after it make the parse fail
  and \<open>negotiate\<close> answers \<open>InvalidFormat\<close>, having sent its own handshake and consumed the other's.\<close>

theorem negotiate_rejects_short_handshake:
  assumes "proto_api p" and "packet_stream s inbox outbox"
    and "inbox w = SerializeToArray p m # rest" and "length (SerializeToArray p m) < 1024"
  shows "\<exists>w'. negotiate sha256 Base64Escape p no_pubkey s pubkey w = (Inl InvalidFormat, w') \<and>
    inbox w' = rest \<and>
    outbox w' = outbox w @ [SerializeToArray p \<lparr>proto_flags = 0,
      proto_peer_id = Base64Escape (sha256 (pubkey_data pubkey))\<rparr>]"
proof -
  define own where "own = handshake_to_proto Base64Escape (handshake_generate (peer_id_from_pubkey sha256 pubkey))"
  obtain w1 where w1: "stream_write_obj s p own w = (Inr (), w1)" "inbox w1 = inbox w"
    "outbox w1 = outbox w @ [SerializeToArray p own]"
    using packet_stream.write_obj_packet [OF assms(2)] by metis
  obtain n where "1024 - length (SerializeToArray p m) = Suc n"
    using assms(4) by (cases "1024 - length (SerializeToArray p m)") auto
  then have "ParseFromArray p (SerializeToArray p m @ replicate (1024 - length (SerializeToArray p m)) 0) = None"
    using proto_api.padded_rejected [OF assms(1)] by simp
  then obtain w2 where "stream_read_type 1024 s p w1 = (Inl Invalid_argument, w2)" "inbox w2 = rest"
    "outbox w2 = outbox w1"
    using packet_stream.read_type_packet [OF assms(2), of w1 _ rest 1024 p] w1(2) assms(3,4) by fastforce
  with w1 show ?thesis
    by (simp add: negotiate_def own_def [symmetric] kHandshakeMessageMaxSize_def)
      (simp add: own_def handshake_to_proto_def handshake_generate_def peer_id_from_pubkey_def peer_id_to_base64_def)
qed

theorem negotiate_rejects_short_handshake_witness:
  "\<exists>w'. negotiate id ref_Base64Escape sample_proto \<lparr>pubkey_data = []\<rparr> queue_stream \<lparr>pubkey_data = [3, 4]\<rparr>
      \<lparr>queue_in = [SerializeToArray sample_proto \<lparr>proto_flags = 0, proto_peer_id = ''AQ==''\<rparr>], queue_out = []\<rparr>
      = (Inl InvalidFormat, w') \<and> queue_in w' = [] \<and>
    queue_out w' = queue_out \<lparr>queue_in = [SerializeToArray sample_proto
        \<lparr>proto_flags = 0, proto_peer_id = ''AQ==''\<rparr>], queue_out = []\<rparr>
      @ [SerializeToArray sample_proto \<lparr>proto_flags = 0,
          proto_peer_id = ref_Base64Escape (id (pubkey_data \<lparr>pubkey_data = [3, 4]\<rparr>))\<rparr>]"
proof (rule negotiate_rejects_short_handshake [OF sample_proto.proto_api_axioms queues.packet_stream_axioms])
  show "queue_in \<lparr>queue_in = [SerializeToArray sample_proto \<lparr>proto_flags = 0, proto_peer_id = ''AQ==''\<rparr>], queue_out = []\<rparr>
      = SerializeToArray sample_proto \<lparr>proto_flags = 0, proto_peer_id = ''AQ==''\<rparr> # []" by simp
  have "length (encode_varuint 0) \<le> 10" by (rule encode_varuint_at_most_10)
  then show "length (SerializeToArray sample_proto \<lparr>proto_flags = 0, proto_peer_id = ''AQ==''\<rparr>) < 1024"
    by (simp add: sample_proto_def encode_fields_def)
qed

text \<open>The outcome of \<open>negotiate\<close> depends on one thing: whether the 1024-byte buffer with the received
  packet parses. The peer id and the flags in it, the result of the read and the result of the write are
  never looked at; no error but \<open>InvalidFormat\<close> exists, and the connection carries no name, no address,
  the sync time 0 and no key of the peer.\<close>

theorem negotiate_decides:
  assumes "packet_stream s inbox outbox" and "inbox w = q # rest" and "length q \<le> 1024"
  shows "(\<exists>w'. negotiate sha256 Base64Escape p no_pubkey s pubkey w =
      (if ParseFromArray p (q @ replicate (1024 - length q) 0) = None then Inl InvalidFormat
       else Inr \<lparr>connection_stream = s, connection_contact = fresh_contact no_pubkey\<rparr>, w') \<and> inbox w' = rest) \<and>
    fst (negotiate sha256 Base64Escape p no_pubkey any_stream pubkey any_world) \<in>
      {Inl InvalidFormat, Inr \<lparr>connection_stream = any_stream, connection_contact = fresh_contact no_pubkey\<rparr>}"
proof
  define own where "own = handshake_to_proto Base64Escape (handshake_generate (peer_id_from_pubkey sha256 pubkey))"
  obtain w1 where w1: "stream_write_obj s p own w = (Inr (), w1)" "inbox w1 = inbox w"
    using packet_stream.write_obj_packet [OF assms(1)] by metis
  show "\<exists>w'. negotiate sha256 Base64Escape p no_pubkey s pubkey w =
      (if ParseFromArray p (q @ replicate (1024 - length q) 0) = None then Inl InvalidFormat
       else Inr \<lparr>connection_stream = s, connection_contact = fresh_contact no_pubkey\<rparr>, w') \<and> inbox w' = rest"
    using packet_stream.read_type_packet [OF assms(1), of w1 q rest 1024 p] w1 assms(2,3)
    by (auto simp: negotiate_def own_def [symmetric] kHandshakeMessageMaxSize_def split: option.splits)
  show "fst (negotiate sha256 Base64Escape p no_pubkey any_stream pubkey any_world) \<in>
      {Inl InvalidFormat, Inr \<lparr>connection_stream = any_stream, connection_contact = fresh_contact no_pubkey\<rparr>}"
    by (auto simp: negotiate_def co_try_unwrap_or_def Let_def split: prod.splits sum.splits)
qed

theorem negotiate_decides_witness:
  "fst (negotiate id ref_Base64Escape sample_proto \<lparr>pubkey_data = []\<rparr> queue_stream \<lparr>pubkey_data = [3]\<rparr>
      \<lparr>queue_in = [replicate 1023 0 @ [1]], queue_out = []\<rparr>) =
    (if ParseFromArray sample_proto (replicate 1023 0 @ [1]) = None then Inl InvalidFormat
     else Inr \<lparr>connection_stream = queue_stream, connection_contact = fresh_contact \<lparr>pubkey_data = []\<rparr>\<rparr>)"
  using negotiate_decides [OF queues.packet_stream_axioms,
      of "\<lparr>queue_in = [replicate 1023 0 @ [1]], queue_out = []\<rparr>" "replicate 1023 0 @ [1]" "[]" id ref_Base64Escape
        sample_proto "\<lparr>pubkey_data = []\<rparr>" "\<lparr>pubkey_data = [3]\<rparr>", THEN conjunct1]
  by auto

end
