(* ===== verification/Sync.thy ===== *)
theory Sync
  imports Net
begin

text \<open>
  Messages and the coroutines of a connection in \<open>src/hrafn.cpp\<close>: \<open>Syncer\<close>, \<open>handle_messages\<close> and
  \<open>periodic_sync\<close>. The loops run as long as the other side keeps the stream valid, so they are partial
  functions: \<open>None\<close> stands for a loop that never ends.
\<close>

section \<open>The code\<close>

text \<open>The message class of \<open>proto/messages.proto\<close>.\<close>

record message_header =
  header_id :: u32
  header_size :: u32
  header_flags :: u32
  header_timestamp :: u64
  header_checksum :: u32

record message =
  message_data :: bytes
  message_hdr :: message_header
  message_recipients :: "pubkey list"

datatype sync_mode = Full | Direct

record syncer =
  syncer_messages :: "message list"

definition add_message :: "syncer \<Rightarrow> message \<Rightarrow> syncer" where
  "add_message y m = y\<lparr>syncer_messages := syncer_messages y @ [m]\<rparr>"

definition sync_one :: "message_header proto \<Rightarrow> 'w connection \<Rightarrow> message \<Rightarrow> 'w \<Rightarrow> 'w" where
  "sync_one p c m w = (let
     (_, w) = stream_write_obj (connection_stream c) p (message_hdr m) w;
     (_, w) = stream_write (connection_stream c) (message_data m) w in
     w)"

text \<open>The comparison is of \<open>uint64\<close> with \<open>time_t\<close>, which is converted to unsigned.\<close>

fun sync_loop :: "message_header proto \<Rightarrow> 'w connection \<Rightarrow> sync_mode \<Rightarrow> message list \<Rightarrow> 'w \<Rightarrow> 'w" where
  "sync_loop p c mode [] w = w"
| "sync_loop p c mode (m # ms) w =
     (if header_timestamp (message_hdr m) < last_sync (connection_contact c) then sync_loop p c mode ms w
      else if mode = Full then sync_loop p c mode ms (sync_one p c m w)
      else if find (pubkey_equal (contact_pubkey (connection_contact c))) (message_recipients m) \<noteq> None
      then sync_loop p c mode ms (sync_one p c m w)
      else sync_loop p c mode ms w)"

definition sync :: "message_header proto \<Rightarrow> syncer \<Rightarrow> 'w connection \<Rightarrow> sync_mode \<Rightarrow> 'w \<Rightarrow>
    (unit, asio_error) expected \<times> 'w" where
  "sync p y c mode w = (let w = sync_loop p c mode (syncer_messages y) w in (Inr (), w))"

text \<open>The interval of the synchronisation, in seconds, and the version; no code uses the latter.\<close>

definition kSyncInterval :: nat where "kSyncInterval = 120"

definition kVersion :: semantic_version where
  "kVersion = SemanticVersion 0 0 0"

text \<open>The timer that a round makes expires one interval from now; it is destroyed with the round.\<close>

definition sync_timer :: "nat \<Rightarrow> nat" where
  "sync_timer now = now + kSyncInterval"

text \<open>One round of the loop of \<open>handle_messages\<close>, and the loop.\<close>

definition handle_messages_body :: "message_header proto \<Rightarrow> 'w connection \<Rightarrow> 'w \<Rightarrow> 'w" where
  "handle_messages_body p c w = (case stream_read_type 1024 (connection_stream c) p w of
       (Inl _, w) \<Rightarrow> w
     | (Inr header, w) \<Rightarrow> (let
         data = replicate (unat (header_size header)) 0;
         (_, data, w) = stream_read (connection_stream c) data w in
         w))"

partial_function (option) handle_messages :: "message_header proto \<Rightarrow> 'w connection \<Rightarrow> 'w \<Rightarrow> 'w option" where
  [code]: "handle_messages p c w =
     (if stream_valid (connection_stream c) w then handle_messages p c (handle_messages_body p c w)
      else Some w)"

text \<open>
  \<open>running\<close> reads the flag of the context. The timer at the end of each round is built and never
  awaited, so it has no effect.
\<close>

partial_function (option) periodic_sync ::
  "message_header proto \<Rightarrow> syncer \<Rightarrow> ('w \<Rightarrow> bool) \<Rightarrow> 'w connection \<Rightarrow> 'w \<Rightarrow> 'w option" where
  [code]: "periodic_sync p y running c w =
     (if running w \<and> stream_valid (connection_stream c) w
      then periodic_sync p y running c (snd (sync p y c Full w))
      else Some w)"

section \<open>Loops that need not end\<close>

locale guarded_loop =
  fixes loop :: "'w \<Rightarrow> 'w option"
    and guard :: "'w \<Rightarrow> bool"
    and body :: "'w \<Rightarrow> 'w"
  assumes loop_unfold: "loop w = (if guard w then loop (body w) else Some w)"
    and loop_exits: "loop w = Some w' \<Longrightarrow>
      \<exists>n. w' = (body ^^ n) w \<and> \<not> guard w' \<and> (\<forall>k < n. guard ((body ^^ k) w))"
begin

lemma loop_skip: "\<forall>k < n. guard ((body ^^ k) w) \<Longrightarrow> loop w = loop ((body ^^ n) w)"
proof (induction n)
  case 0
  then show ?case by simp
next
  case (Suc n)
  then have "loop w = loop ((body ^^ n) w)" "guard ((body ^^ n) w)" by simp_all
  then show ?case using loop_unfold [of "(body ^^ n) w"] by simp
qed

lemma loop_ends_iff:
  "loop w = Some w' \<longleftrightarrow> (\<exists>n. w' = (body ^^ n) w \<and> \<not> guard w' \<and> (\<forall>k < n. guard ((body ^^ k) w)))"
  using loop_exits loop_skip loop_unfold by metis

lemma loop_forever: "\<forall>n. guard ((body ^^ n) w) \<Longrightarrow> loop w = None"
  by (cases "loop w") (use loop_exits in metis)+

end

lemma iterate_exit:
  assumes "guard w" "\<exists>n. w' = (body ^^ n) (body w) \<and> \<not> guard w' \<and> (\<forall>k < n. guard ((body ^^ k) (body w)))"
  shows "\<exists>n. w' = (body ^^ n) w \<and> \<not> guard w' \<and> (\<forall>k < n. guard ((body ^^ k) w))"
proof -
  obtain n where n: "w' = (body ^^ n) (body w)" "\<not> guard w'" "\<forall>k < n. guard ((body ^^ k) (body w))"
    using assms(2) by blast
  have "guard ((body ^^ k) w)" if "k < Suc n" for k
    using that n(3) assms(1) by (cases k) (auto simp: funpow_swap1)
  moreover have "w' = (body ^^ Suc n) w" using n(1) by (simp add: funpow_swap1)
  ultimately show ?thesis using n(2) by blast
qed

definition exit_of :: "('w \<Rightarrow> bool) \<Rightarrow> ('w \<Rightarrow> 'w) \<Rightarrow> 'w \<Rightarrow> 'w \<Rightarrow> bool" where
  "exit_of guard body w w' \<longleftrightarrow>
     (\<exists>n. w' = (body ^^ n) w \<and> \<not> guard w' \<and> (\<forall>k < n. guard ((body ^^ k) w)))"

lemma exit_of_here: "\<not> guard w \<Longrightarrow> exit_of guard body w w"
  unfolding exit_of_def by (intro exI [of _ 0]) simp

lemma exit_of_later: "guard w \<Longrightarrow> exit_of guard body (body w) w' \<Longrightarrow> exit_of guard body w w'"
  unfolding exit_of_def by (rule iterate_exit)

lemma handle_messages_exits:
  "handle_messages p c w = Some w' \<Longrightarrow> exit_of (stream_valid (connection_stream c)) (handle_messages_body p c) w w'"
  by (rule handle_messages.raw_induct [where P = "\<lambda>p c. exit_of (stream_valid (connection_stream c)) (handle_messages_body p c)"])
    (auto split: if_splits intro: exit_of_here exit_of_later)

abbreviation periodic_guard :: "('w \<Rightarrow> bool) \<Rightarrow> 'w connection \<Rightarrow> 'w \<Rightarrow> bool" where
  "periodic_guard running c w \<equiv> running w \<and> stream_valid (connection_stream c) w"

abbreviation sync_round :: "message_header proto \<Rightarrow> syncer \<Rightarrow> 'w connection \<Rightarrow> 'w \<Rightarrow> 'w" where
  "sync_round p y c w \<equiv> snd (sync p y c Full w)"

lemma periodic_sync_exits:
  "periodic_sync p y running c w = Some w' \<Longrightarrow> exit_of (periodic_guard running c) (sync_round p y c) w w'"
proof (rule periodic_sync.raw_induct
    [where P = "\<lambda>p y running c. exit_of (periodic_guard running c) (sync_round p y c)"])
  fix loop p y running c w w'
  assume IH: "\<And>y running c w b ya. loop y running c w b = Some ya \<Longrightarrow>
      exit_of (periodic_guard c w) (sync_round y running w) b ya"
    and eq: "(if running w \<and> stream_valid (connection_stream c) w
      then loop p y running c (sync_round p y c w) else Some w) = Some w'"
  show "exit_of (periodic_guard running c) (sync_round p y c) w w'"
  proof (cases "periodic_guard running c w")
    case True
    with eq have "loop p y running c (sync_round p y c w) = Some w'" by (simp only: if_True simp_thms)
    then have "exit_of (periodic_guard running c) (sync_round p y c) (sync_round p y c w) w'" by (rule IH)
    with True show ?thesis by (rule exit_of_later)
  next
    case False
    with eq have "w' = w" by (simp split: if_splits)
    with False show ?thesis by (simp add: exit_of_here)
  qed
qed

interpretation handling: guarded_loop "handle_messages p c" "stream_valid (connection_stream c)"
  "handle_messages_body p c" for p c
  by unfold_locales (rule handle_messages.simps, fold exit_of_def, rule handle_messages_exits)

interpretation syncing: guarded_loop "periodic_sync p y running c" "periodic_guard running c"
  "sync_round p y c" for p y running c
proof
  fix w w' :: 'a
  show "periodic_sync p y running c w =
      (if periodic_guard running c w then periodic_sync p y running c (sync_round p y c w) else Some w)"
    by (rule periodic_sync.simps)
  show "periodic_sync p y running c w = Some w' \<Longrightarrow>
      \<exists>n. w' = (sync_round p y c ^^ n) w \<and> \<not> periodic_guard running c w' \<and>
        (\<forall>k < n. periodic_guard running c ((sync_round p y c ^^ k) w))"
    by (drule periodic_sync_exits) (simp only: exit_of_def)
qed

section \<open>What a synchronisation sends\<close>

definition selected :: "sync_mode \<Rightarrow> 'w connection \<Rightarrow> message \<Rightarrow> bool" where
  "selected mode c m \<longleftrightarrow>
     last_sync (connection_contact c) \<le> header_timestamp (message_hdr m) \<and>
     (mode = Full \<or> contact_pubkey (connection_contact c) \<in> set (message_recipients m))"

definition message_packets :: "message_header proto \<Rightarrow> message \<Rightarrow> bytes list" where
  "message_packets p m = [SerializeToArray p (message_hdr m), message_data m]"

definition batch :: "message_header proto \<Rightarrow> syncer \<Rightarrow> 'w connection \<Rightarrow> sync_mode \<Rightarrow> bytes list" where
  "batch p y c mode = concat (map (message_packets p) (filter (selected mode c) (syncer_messages y)))"

lemma find_pubkey: "find (pubkey_equal k) ks \<noteq> None \<longleftrightarrow> k \<in> set ks"
proof -
  have "pubkey_equal k = (=) k" by (auto simp: pubkey_equal_def fun_eq_iff)
  then show ?thesis by (simp add: find_None_iff)
qed

lemma sync_loop_fold:
  "sync_loop p c mode ms w = foldl (\<lambda>w m. sync_one p c m w) w (filter (selected mode c) ms)"
  by (induction ms arbitrary: w) (auto simp: selected_def find_pubkey not_less simp del: not_None_eq)

lemma sync_one_packets:
  assumes "packet_stream (connection_stream c) inbox outbox"
  shows "inbox (sync_one p c m w) = inbox w \<and> outbox (sync_one p c m w) = outbox w @ message_packets p m"
proof -
  obtain w1 where w1: "stream_write_obj (connection_stream c) p (message_hdr m) w = (Inr (), w1)" "inbox w1 = inbox w"
    "outbox w1 = outbox w @ [SerializeToArray p (message_hdr m)]"
    using packet_stream.write_obj_packet [OF assms] by metis
  obtain w2 where "stream_write (connection_stream c) (message_data m) w1 = (Inr (), w2)" "inbox w2 = inbox w1"
    "outbox w2 = outbox w1 @ [message_data m]"
    using packet_stream.write_packet [OF assms] by metis
  with w1 show ?thesis by (simp add: sync_one_def message_packets_def)
qed

lemma sync_fold_packets:
  assumes "packet_stream (connection_stream c) inbox outbox"
  shows "inbox (foldl (\<lambda>w m. sync_one p c m w) w ms) = inbox w \<and>
    outbox (foldl (\<lambda>w m. sync_one p c m w) w ms) = outbox w @ concat (map (message_packets p) ms)"
  by (induction ms arbitrary: w) (simp_all add: sync_one_packets [OF assms])

lemma sync_packets:
  assumes "packet_stream (connection_stream c) inbox outbox"
  shows "inbox (snd (sync p y c mode w)) = inbox w \<and>
    outbox (snd (sync p y c mode w)) = outbox w @ batch p y c mode"
  using sync_fold_packets [OF assms] by (simp add: sync_def sync_loop_fold batch_def)

lemma sync_rounds_packets:
  assumes "packet_stream (connection_stream c) inbox outbox"
  shows "inbox ((sync_round p y c ^^ n) w) = inbox w \<and>
    outbox ((sync_round p y c ^^ n) w) = outbox w @ concat (replicate n (batch p y c Full))"
proof (induction n)
  case 0
  then show ?case by simp
next
  case (Suc n)
  with Suc show ?case using sync_packets [OF assms, of p y Full "(sync_round p y c ^^ n) w"]
    by (simp add: concat_replicate_snoc del: replicate_Suc)
qed

definition sample_message :: message where
  "sample_message = \<lparr>message_data = [7, 8],
     message_hdr = \<lparr>header_id = 1, header_size = 2, header_flags = 0, header_timestamp = 5, header_checksum = 0\<rparr>,
     message_recipients = []\<rparr>"

definition sample_header_proto :: "message_header proto" where
  "sample_header_proto = \<lparr>
     SerializeToArray = (\<lambda>h. encode_fields [ucast (header_id h), ucast (header_size h), ucast (header_flags h),
       header_timestamp h, ucast (header_checksum h)] []),
     ParseFromArray = (\<lambda>bs. case decode_fields 5 bs of
         Some ([i, z, f, t, k], []) \<Rightarrow> Some \<lparr>header_id = ucast i, header_size = ucast z,
           header_flags = ucast f, header_timestamp = t, header_checksum = ucast k\<rparr>
       | _ \<Rightarrow> None)\<rparr>"

definition sample_connection :: "queues connection" where
  "sample_connection = \<lparr>connection_stream = queue_stream, connection_contact = fresh_contact \<lparr>pubkey_data = [3]\<rparr>\<rparr>"

lemma ucast_u32_u64: "ucast (ucast f :: u64) = f" for f :: u32
  by (rule bit_word_eqI) (auto simp: bit_simps)

interpretation sample_header_proto: proto_api sample_header_proto
proof
  fix h :: message_header and n
  let ?ns = "[ucast (header_id h), ucast (header_size h), ucast (header_flags h),
       header_timestamp h, ucast (header_checksum h)] :: u64 list"
  have len: "length ?ns = 5" by simp
  have "decode_fields 5 (encode_fields ?ns []) = Some (?ns, [])"
    using decode_encode_fields [of ?ns "[]"] by (simp only: len)
  then show "ParseFromArray sample_header_proto (SerializeToArray sample_header_proto h) = Some h"
    by (simp add: sample_header_proto_def ucast_u32_u64)
  have "decode_fields 5 (encode_fields ?ns [] @ replicate (Suc n) 0) = None"
    using decode_fields_padded [of ?ns "[]" n] by (simp only: len)
  then show "ParseFromArray sample_header_proto (SerializeToArray sample_header_proto h @ replicate (Suc n) 0) = None"
    by (simp add: sample_header_proto_def)
qed

text \<open>
  A packet that does not parse in the buffer for a header costs \<open>handle_messages\<close> one round, in which
  nothing else happens. The serialized header of a message is such a packet.
\<close>

definition dropped :: "message_header proto \<Rightarrow> bytes \<Rightarrow> bool" where
  "dropped p q \<longleftrightarrow> length q \<le> 1024 \<and> ParseFromArray p (q @ replicate (1024 - length q) 0) = None"

lemma header_dropped:
  assumes "proto_api p" "length (SerializeToArray p h) < 1024"
  shows "dropped p (SerializeToArray p h)"
proof -
  obtain n where "1024 - length (SerializeToArray p h) = Suc n"
    using assms(2) by (cases "1024 - length (SerializeToArray p h)") auto
  then show ?thesis using proto_api.padded_rejected [OF assms(1)] assms(2) by (simp add: dropped_def)
qed

lemma handle_messages_round:
  assumes "packet_stream (connection_stream c) inbox outbox" "inbox w = q # qs" "dropped p q"
  shows "inbox (handle_messages_body p c w) = qs \<and> outbox (handle_messages_body p c w) = outbox w"
  using packet_stream.read_type_packet [OF assms(1,2), of 1024 p] assms(3)
  by (auto simp: handle_messages_body_def dropped_def)

lemma handle_messages_drains:
  assumes "packet_stream (connection_stream c) inbox outbox"
    and valid: "\<And>w. stream_valid (connection_stream c) w \<longleftrightarrow> inbox w \<noteq> []"
  shows "inbox w = qs \<Longrightarrow> \<forall>q \<in> set qs. dropped p q \<Longrightarrow>
    handle_messages p c w = Some ((handle_messages_body p c ^^ length qs) w) \<and>
    inbox ((handle_messages_body p c ^^ length qs) w) = [] \<and>
    outbox ((handle_messages_body p c ^^ length qs) w) = outbox w"
proof (induction qs arbitrary: w)
  case Nil
  then show ?case by (simp add: handle_messages.simps valid)
next
  case (Cons q qs)
  then have "inbox (handle_messages_body p c w) = qs" "outbox (handle_messages_body p c w) = outbox w"
    using handle_messages_round [OF assms(1), of w q qs p] by simp_all
  moreover have "handle_messages p c w = handle_messages p c (handle_messages_body p c w)"
    using Cons.prems by (simp add: handle_messages.simps [of p c w] valid)
  ultimately show ?case using Cons by (simp add: funpow_swap1)
qed

lemma decode_fields_rest:
  "decode_fields 0 r = None \<Longrightarrow> decode_fields (length ns) (concat (map encode_varuint ns) @ r) = None"
  by (induction ns) (simp_all add: decode_varuint_encode)

lemma sample_data_dropped: "dropped sample_header_proto [7, 8]"
proof -
  have enc: "encode_varuint 7 = [7]" "encode_varuint 8 = [8]" "encode_varuint 0 = [0]" by code_simp+
  have rep: "replicate 1022 (0 :: u8) = [0, 0, 0] @ replicate 1019 0"
    using replicate_add [of 3 1019 "0 :: u8"] by (simp add: numeral_3_eq_3)
  have "concat (map encode_varuint [7, 8, 0, 0, 0]) @ replicate 1019 0 = [7, 8] @ replicate 1022 0"
    by (simp add: enc rep)
  moreover have "length [7, 8, 0, 0, 0 :: u64] = 5" "decode_fields 0 (replicate 1019 0) = None" by simp_all
  ultimately have "decode_fields 5 ([7, 8] @ replicate 1022 0) = None"
    using decode_fields_rest [of "replicate 1019 0" "[7, 8, 0, 0, 0]"] by metis
  then show ?thesis by (simp add: dropped_def sample_header_proto_def)
qed

text \<open>
  A packet of 1024 bytes that parses as a header is taken for one, and the next packet, if it fits, is
  swallowed as its data: the data of a message may pose as a header.
\<close>

lemma data_taken_as_header:
  assumes "packet_stream (connection_stream c) inbox outbox" "inbox w = q # r # qs"
    and "length q = 1024" "ParseFromArray p q = Some h" "length r \<le> unat (header_size h)"
  shows "inbox (handle_messages_body p c w) = qs"
proof -
  obtain w1 where w1: "stream_read_type 1024 (connection_stream c) p w = (Inr h, w1)" "inbox w1 = r # qs"
    using packet_stream.read_type_packet [OF assms(1,2), of 1024 p] assms(3,4) by auto
  from packet_stream.read_packet [OF assms(1) w1(2), of "replicate (unat (header_size h)) 0"] assms(5) w1(1)
  show ?thesis by (auto simp: handle_messages_body_def)
qed

lemma batch_dropped:
  assumes "proto_api p" "\<forall>m \<in> set (syncer_messages y).
      length (SerializeToArray p (message_hdr m)) < 1024 \<and> dropped p (message_data m)"
  shows "\<forall>q \<in> set (batch p y c mode). dropped p q"
  using assms(2) header_dropped [OF assms(1)] by (auto simp: batch_def message_packets_def)

lemma batch_length: "length (batch p y c mode) = 2 * length (filter (selected mode c) (syncer_messages y))"
  by (induction "syncer_messages y" arbitrary: y rule: rev_induct)
    (simp_all add: batch_def message_packets_def length_concat comp_def sum_list_triv)

section \<open>Properties\<close>

text \<open>C6: A synchronisation writes, for each stored message in the order of \<open>add_message\<close> that is not
  older than the last sync of the contact and, in direct mode, names the contact among its recipients,
  one packet with the serialized header and one with the data, and nothing else; a message added later
  comes last. It reports success whatever the stream answers.\<close>

theorem sync_sends:
  assumes "packet_stream (connection_stream c) inbox outbox"
  shows "outbox (snd (sync p y c mode w)) = outbox w @ batch p y c mode \<and>
    inbox (snd (sync p y c mode w)) = inbox w \<and>
    fst (sync p y any_connection mode any_world) = Inr () \<and>
    batch p (add_message y m) c mode = batch p y c mode @ (if selected mode c m then message_packets p m else [])"
  using sync_packets [OF assms, of p y mode w] by (simp add: sync_def batch_def add_message_def)

theorem sync_sends_witness:
  "queue_out (snd (sync sample_header_proto \<lparr>syncer_messages = [sample_message]\<rparr> sample_connection Full
      \<lparr>queue_in = [], queue_out = [[1]]\<rparr>)) =
    [[1], SerializeToArray sample_header_proto (message_hdr sample_message), [7, 8]]"
proof -
  have "packet_stream (connection_stream sample_connection) queue_in queue_out"
    by (simp add: sample_connection_def queues.packet_stream_axioms)
  from sync_sends [OF this, of sample_header_proto "\<lparr>syncer_messages = [sample_message]\<rparr>" Full
      "\<lparr>queue_in = [], queue_out = [[1]]\<rparr>", THEN conjunct1]
  show ?thesis
    by (simp add: batch_def selected_def message_packets_def sample_connection_def fresh_contact_def)
      (simp add: sample_message_def)
qed

text \<open>C39: The periodic synchronisation never remembers what it sent: after \<open>n\<close> rounds the stream carries
  \<open>n\<close> copies of all selected messages, with nothing between the rounds that waits. It ends exactly when
  a round finds the flag cleared or the stream invalid, and as long as that never happens it runs for
  ever.\<close>

theorem periodic_sync_resends:
  assumes "packet_stream (connection_stream c) inbox outbox"
  shows "outbox ((sync_round p y c ^^ n) w) = outbox w @ concat (replicate n (batch p y c Full)) \<and>
    ((\<forall>k < n. periodic_guard running c ((sync_round p y c ^^ k) w)) \<longrightarrow>
      periodic_sync p y running c w = periodic_sync p y running c ((sync_round p y c ^^ n) w)) \<and>
    ((\<forall>k. periodic_guard running c ((sync_round p y c ^^ k) w)) \<longrightarrow> periodic_sync p y running c w = None) \<and>
    (periodic_sync p y running c w = Some w' \<longleftrightarrow> (\<exists>n. w' = (sync_round p y c ^^ n) w \<and>
      \<not> periodic_guard running c w' \<and> (\<forall>k < n. periodic_guard running c ((sync_round p y c ^^ k) w))))"
  by (intro conjI impI)
    (simp add: sync_rounds_packets [OF assms], rule syncing.loop_skip, assumption,
      rule syncing.loop_forever, assumption, rule syncing.loop_ends_iff)

theorem periodic_sync_resends_witness:
  "periodic_sync sample_header_proto \<lparr>syncer_messages = [sample_message]\<rparr> (\<lambda>_. True) sample_connection
    \<lparr>queue_in = [[0]], queue_out = []\<rparr> = None"
proof -
  have ps: "packet_stream (connection_stream sample_connection) queue_in queue_out"
    by (simp add: sample_connection_def queues.packet_stream_axioms)
  have "periodic_guard (\<lambda>_. True) sample_connection
      ((sync_round sample_header_proto \<lparr>syncer_messages = [sample_message]\<rparr> sample_connection ^^ k)
        \<lparr>queue_in = [[0]], queue_out = []\<rparr>)" for k
    using sync_rounds_packets [OF ps, where p = sample_header_proto and n = k
        and y = "\<lparr>syncer_messages = [sample_message]\<rparr>" and w = "\<lparr>queue_in = [[0]], queue_out = []\<rparr>"]
    by (simp add: sample_connection_def queue_stream_def)
  then show ?thesis
    by (intro periodic_sync_resends [OF ps, THEN conjunct2, THEN conjunct2, THEN conjunct1, THEN mp] allI)
qed

text \<open>Packets with nothing but headers: each is dropped, without a read of the data that belongs to it.\<close>

lemma handle_messages_drops_headers:
  assumes "packet_stream (connection_stream c) inbox outbox" and "proto_api p"
    and "\<And>w. stream_valid (connection_stream c) w \<longleftrightarrow> inbox w \<noteq> []"
    and "inbox w = map (SerializeToArray p) hs" and "\<forall>h \<in> set hs. length (SerializeToArray p h) < 1024"
  shows "\<exists>w'. handle_messages p c w = Some w' \<and> w' = (handle_messages_body p c ^^ length hs) w \<and>
    inbox w' = [] \<and> outbox w' = outbox w"
  using handle_messages_drains [OF assms(1,3,4), of p] header_dropped [OF assms(2)] assms(5) by auto

text \<open>C16: What one program synchronises is lost on the other. When the packets that \<open>sync\<close> has written are
  all that \<open>handle_messages\<close> gets, and no message carries data that would itself pass for a header, then
  each packet, header or data, is read as a header and dropped in a round of its own: the receiver makes
  two rounds for each message sent, never reads the data of one, writes nothing, and ends.\<close>

theorem sync_is_lost:
  assumes "packet_stream (connection_stream c1) inbox1 outbox1" and "outbox1 w1 = []"
    and "packet_stream (connection_stream c) inbox outbox" and "proto_api p"
    and "\<And>w. stream_valid (connection_stream c) w \<longleftrightarrow> inbox w \<noteq> []"
    and "\<forall>m \<in> set (syncer_messages y). length (SerializeToArray p (message_hdr m)) < 1024 \<and> dropped p (message_data m)"
    and "inbox w = outbox1 (snd (sync p y c1 mode w1))"
  shows "\<exists>w'. handle_messages p c w = Some w' \<and>
    w' = (handle_messages_body p c ^^ (2 * length (filter (selected mode c1) (syncer_messages y)))) w \<and>
    inbox w' = [] \<and> outbox w' = outbox w"
proof -
  have "inbox w = batch p y c1 mode" using sync_packets [OF assms(1)] assms(2,7) by simp
  from handle_messages_drains [OF assms(3,5) this batch_dropped [OF assms(4,6)]] show ?thesis
    by (simp only: batch_length) blast
qed

theorem sync_is_lost_witness:
  "\<exists>w'. handle_messages sample_header_proto sample_connection
      \<lparr>queue_in = queue_out (snd (sync sample_header_proto \<lparr>syncer_messages = [sample_message]\<rparr> sample_connection Full
        \<lparr>queue_in = [], queue_out = []\<rparr>)), queue_out = []\<rparr> = Some w' \<and> queue_in w' = []"
proof -
  have ps: "packet_stream (connection_stream sample_connection) queue_in queue_out"
    by (simp add: sample_connection_def queues.packet_stream_axioms)
  have valid: "stream_valid (connection_stream sample_connection) w \<longleftrightarrow> queue_in w \<noteq> []" for w
    by (simp add: sample_connection_def queue_stream_def)
  have "length (SerializeToArray sample_header_proto h) \<le> 51" for h
    by (simp add: sample_header_proto_def order_trans [OF encode_fields_length])
  then have short: "length (SerializeToArray sample_header_proto h) < 1024" for h
    by (metis le_less_trans numeral_less_iff semiring_norm(76,78,80,81))
  have "\<forall>m \<in> set (syncer_messages \<lparr>syncer_messages = [sample_message]\<rparr>).
      length (SerializeToArray sample_header_proto (message_hdr m)) < 1024 \<and>
      dropped sample_header_proto (message_data m)"
    using short sample_data_dropped by (simp add: sample_message_def)
  moreover have "queue_out \<lparr>queue_in = [], queue_out = []\<rparr> = []" by simp
  moreover have "queue_in \<lparr>queue_in = sent, queue_out = []\<rparr> = sent" for sent by simp
  ultimately show ?thesis using sync_is_lost [OF ps _ ps sample_header_proto.proto_api_axioms valid] by blast
qed

end
