(* ===== verification/Executor.thy ===== *)
theory Executor
  imports "HOL-Library.Multiset"
begin

text \<open>
  The coroutines of \<open>src/hrafn.cpp\<close> on the one thread that calls \<open>asio::io_context::run\<close>: the
  multiplexer, \<open>start_connection\<close> with its final loop, \<open>handle_messages\<close>, \<open>periodic_sync\<close> and the two of the
  Bluetooth service, which do nothing. A coroutine runs until it awaits an unfinished operation. What the
  operations answer is left open, so the steps are a relation; the data that is exchanged is in the
  theories \<open>Net\<close> and \<open>Sync\<close>.

  \<open>asio::co_spawn\<close> may queue the new coroutine or run it at once up to its first suspension; both are
  steps here, the second by putting the new coroutine on top of its creator.
\<close>

section \<open>The code\<close>

text \<open>A constructor is a place in a coroutine; the number names the stream it works for.\<close>

datatype coroutine =
    Multiplexer_run               \<comment> \<open>the head of the loop of \<open>ConnectionMultiplexer::run\<close>\<close>
  | Multiplexer_received nat      \<comment> \<open>\<open>async_receive\<close> has returned a stream\<close>
  | Start_connection nat          \<comment> \<open>the begin of \<open>start_connection\<close>\<close>
  | Negotiating nat               \<comment> \<open>inside \<open>Connection::negotiate\<close>\<close>
  | Spawn_handle nat              \<comment> \<open>before the first \<open>co_spawn\<close> of \<open>start_connection\<close>\<close>
  | Spawn_sync nat                \<comment> \<open>before the second\<close>
  | Spinning nat                  \<comment> \<open>the final loop of \<open>start_connection\<close>\<close>
  | Handle_messages nat           \<comment> \<open>the head of the loop\<close>
  | Handle_reading nat            \<comment> \<open>inside a round of the loop, before or after an awaited read\<close>
  | Periodic_sync nat             \<comment> \<open>the head of the loop\<close>
  | Bluetooth_service             \<comment> \<open>before the \<open>co_spawn\<close> of \<open>bluetooth_service\<close>\<close>
  | Bluetooth_spawned             \<comment> \<open>before its \<open>co_return\<close>\<close>
  | Discovery_run                 \<comment> \<open>\<open>BluetoothDiscovery::run\<close>, which returns at once\<close>
  | Syncing nat                   \<comment> \<open>inside \<open>Syncer::sync\<close>, before or after an awaited write\<close>

text \<open>
  \<open>alive\<close> are the connections whose object exists: it is a local variable of \<open>start_connection\<close>, which
  the spawned coroutines refer to. \<open>dangling\<close> says that one of them used the reference after the end of
  the object; C++ then promises nothing about what follows, and the steps that the relation still has
  from such a state, without the coroutine that used it, are only one of the things that may happen. The type \<open>'c\<close> of a suspended coroutine is \<open>coroutine\<close> here; the theory \<open>Runtime\<close> has one
  that keeps the local variables as well.
\<close>

record 'c executor =
  running :: bool
  valid :: "nat set"
  alive :: "nat set"
  ready :: "'c list"
  blocked :: "'c multiset"
  stack :: "'c list"
  dangling :: bool

text \<open>Who acts: the thread of the executor, or the world (a peer, the operating system).\<close>

datatype 'c actor = Thread | Disconnect nat | Completion 'c | Incoming nat

inductive exec :: "coroutine executor \<Rightarrow> coroutine actor \<Rightarrow> coroutine executor \<Rightarrow> bool" where
  disconnect: "n \<in> valid s \<Longrightarrow> exec s (Disconnect n) (s\<lparr>valid := valid s - {n}\<rparr>)"
| completion: "c \<in># blocked s \<Longrightarrow> c \<noteq> Multiplexer_run \<Longrightarrow>
    exec s (Completion c) (s\<lparr>blocked := blocked s - {#c#}, ready := ready s @ [c]\<rparr>)"
| incoming: "Multiplexer_run \<in># blocked s \<Longrightarrow> n \<notin> valid s \<Longrightarrow>
    exec s (Incoming n) (s\<lparr>blocked := blocked s - {#Multiplexer_run#}, valid := insert n (valid s),
      ready := ready s @ [Multiplexer_received n]\<rparr>)"
| pick: "stack s = [] \<Longrightarrow> ready s = c # cs \<Longrightarrow> exec s Thread (s\<lparr>ready := cs, stack := [c]\<rparr>)"
| multiplexer_waits: "stack s = Multiplexer_run # cs \<Longrightarrow> running s \<Longrightarrow>
    exec s Thread (s\<lparr>blocked := add_mset Multiplexer_run (blocked s), stack := cs\<rparr>)"
| multiplexer_ends: "stack s = Multiplexer_run # cs \<Longrightarrow> \<not> running s \<Longrightarrow> exec s Thread (s\<lparr>stack := cs\<rparr>)"
| multiplexer_posts: "stack s = Multiplexer_received n # cs \<Longrightarrow>
    exec s Thread (s\<lparr>ready := ready s @ [Start_connection n], stack := Multiplexer_run # cs\<rparr>)"
| multiplexer_calls: "stack s = Multiplexer_received n # cs \<Longrightarrow>
    exec s Thread (s\<lparr>stack := Start_connection n # Multiplexer_run # cs\<rparr>)"
| start: "stack s = Start_connection n # cs \<Longrightarrow> exec s Thread (s\<lparr>stack := Negotiating n # cs\<rparr>)"
| negotiating: "stack s = Negotiating n # cs \<Longrightarrow>
    exec s Thread (s\<lparr>blocked := add_mset (Negotiating n) (blocked s), stack := cs\<rparr>)"
| negotiation_fails: "stack s = Negotiating n # cs \<Longrightarrow> exec s Thread (s\<lparr>stack := cs\<rparr>)"
| negotiated: "stack s = Negotiating n # cs \<Longrightarrow>
    exec s Thread (s\<lparr>alive := insert n (alive s), stack := Spawn_handle n # cs\<rparr>)"
| handle_posted: "stack s = Spawn_handle n # cs \<Longrightarrow>
    exec s Thread (s\<lparr>ready := ready s @ [Handle_messages n], stack := Spawn_sync n # cs\<rparr>)"
| handle_called: "stack s = Spawn_handle n # cs \<Longrightarrow>
    exec s Thread (s\<lparr>stack := Handle_messages n # Spawn_sync n # cs\<rparr>)"
| sync_posted: "stack s = Spawn_sync n # cs \<Longrightarrow>
    exec s Thread (s\<lparr>ready := ready s @ [Periodic_sync n], stack := Spinning n # cs\<rparr>)"
| sync_called: "stack s = Spawn_sync n # cs \<Longrightarrow>
    exec s Thread (s\<lparr>stack := Periodic_sync n # Spinning n # cs\<rparr>)"
| spin: "stack s = Spinning n # cs \<Longrightarrow> running s \<Longrightarrow> n \<in> valid s \<Longrightarrow> exec s Thread s"
| spin_ends: "stack s = Spinning n # cs \<Longrightarrow> \<not> (running s \<and> n \<in> valid s) \<Longrightarrow>
    exec s Thread (s\<lparr>alive := alive s - {n}, stack := cs\<rparr>)"
| handle_dangling: "stack s = Handle_messages n # cs \<Longrightarrow> n \<notin> alive s \<Longrightarrow>
    exec s Thread (s\<lparr>dangling := True, stack := cs\<rparr>)"
| handle_begins: "stack s = Handle_messages n # cs \<Longrightarrow> n \<in> alive s \<Longrightarrow> n \<in> valid s \<Longrightarrow>
    exec s Thread (s\<lparr>stack := Handle_reading n # cs\<rparr>)"
| handle_ends: "stack s = Handle_messages n # cs \<Longrightarrow> n \<in> alive s \<Longrightarrow> n \<notin> valid s \<Longrightarrow>
    exec s Thread (s\<lparr>stack := cs\<rparr>)"
| reading_dangling: "stack s = Handle_reading n # cs \<Longrightarrow> n \<notin> alive s \<Longrightarrow>
    exec s Thread (s\<lparr>dangling := True, stack := cs\<rparr>)"
| reading_waits: "stack s = Handle_reading n # cs \<Longrightarrow> n \<in> alive s \<Longrightarrow>
    exec s Thread (s\<lparr>blocked := add_mset (Handle_reading n) (blocked s), stack := cs\<rparr>)"
| reading_done: "stack s = Handle_reading n # cs \<Longrightarrow> n \<in> alive s \<Longrightarrow>
    exec s Thread (s\<lparr>stack := Handle_messages n # cs\<rparr>)"
| sync_dangling: "stack s = Periodic_sync n # cs \<Longrightarrow> running s \<Longrightarrow> n \<notin> alive s \<Longrightarrow>
    exec s Thread (s\<lparr>dangling := True, stack := cs\<rparr>)"
| sync_begins: "stack s = Periodic_sync n # cs \<Longrightarrow> running s \<Longrightarrow> n \<in> alive s \<Longrightarrow> n \<in> valid s \<Longrightarrow>
    exec s Thread (s\<lparr>stack := Syncing n # cs\<rparr>)"
| sync_ends: "stack s = Periodic_sync n # cs \<Longrightarrow> \<not> running s \<or> n \<in> alive s \<and> n \<notin> valid s \<Longrightarrow>
    exec s Thread (s\<lparr>stack := cs\<rparr>)"
| bluetooth_posts: "stack s = Bluetooth_service # cs \<Longrightarrow>
    exec s Thread (s\<lparr>ready := ready s @ [Discovery_run], stack := Bluetooth_spawned # cs\<rparr>)"
| bluetooth_calls: "stack s = Bluetooth_service # cs \<Longrightarrow>
    exec s Thread (s\<lparr>stack := Discovery_run # Bluetooth_spawned # cs\<rparr>)"
| bluetooth_ends: "stack s = Bluetooth_spawned # cs \<Longrightarrow> exec s Thread (s\<lparr>stack := cs\<rparr>)"
| discovery_ends: "stack s = Discovery_run # cs \<Longrightarrow> exec s Thread (s\<lparr>stack := cs\<rparr>)"
| syncing_dangling: "stack s = Syncing n # cs \<Longrightarrow> n \<notin> alive s \<Longrightarrow>
    exec s Thread (s\<lparr>dangling := True, stack := cs\<rparr>)"
| syncing_writes: "stack s = Syncing n # cs \<Longrightarrow> n \<in> alive s \<Longrightarrow>
    exec s Thread (s\<lparr>blocked := add_mset (Syncing n) (blocked s), stack := cs\<rparr>)"
| syncing_done: "stack s = Syncing n # cs \<Longrightarrow> n \<in> alive s \<Longrightarrow>
    exec s Thread (s\<lparr>stack := Periodic_sync n # cs\<rparr>)"

text \<open>The state in which \<open>main\<close> calls \<open>run\<close>, and the one with the multiplexer spawned.\<close>

definition main_state :: "coroutine executor" where
  "main_state = \<lparr>running = True, valid = {}, alive = {}, ready = [], blocked = {#}, stack = [], dangling = False\<rparr>"

definition multiplexer_state :: "coroutine executor" where
  "multiplexer_state = main_state\<lparr>ready := [Multiplexer_run]\<rparr>"

inductive execs :: "coroutine executor \<Rightarrow> coroutine actor list \<Rightarrow> coroutine executor \<Rightarrow> bool" where
  execs_nil: "execs s [] s"
| execs_snoc: "execs s as s1 \<Longrightarrow> exec s1 a s2 \<Longrightarrow> execs s (as @ [a]) s2"

inductive_cases exec_elim: "exec s a s'"
inductive_cases exec_thread: "exec s Thread s'"

section \<open>Invariants\<close>

lemma exec_running: "exec s a s' \<Longrightarrow> running s' = running s"
  by (induction rule: exec.induct) simp_all

lemma execs_running: "execs s as s' \<Longrightarrow> running s' = running s"
  by (induction rule: execs.induct) (simp_all add: exec_running)

text \<open>While a connection object exists, \<open>start_connection\<close> stands on the stack.\<close>

definition owned :: "coroutine executor \<Rightarrow> bool" where
  "owned s \<longleftrightarrow> (\<forall>n \<in> alive s. \<exists>c \<in> set (stack s). c \<in> {Spawn_handle n, Spawn_sync n, Spinning n})"

lemma exec_owned: "exec s a s' \<Longrightarrow> owned s \<Longrightarrow> owned s'"
  by (induction rule: exec.induct) (auto simp: owned_def)

lemma execs_owned: "execs s as s' \<Longrightarrow> owned s \<Longrightarrow> owned s'"
  by (induction rule: execs.induct) (auto intro: exec_owned)

lemma owned_multiplexer: "owned multiplexer_state"
  by (simp add: owned_def multiplexer_state_def main_state_def)

text \<open>So nothing is alive whenever the thread takes the next coroutine from the queue.\<close>

lemma idle_nothing_alive: "execs multiplexer_state as s \<Longrightarrow> stack s = [] \<Longrightarrow> alive s = {}"
  using execs_owned [OF _ owned_multiplexer] by (fastforce simp: owned_def)

lemma exec_spinning:
  "exec s a s' \<Longrightarrow> stack s = Spinning n # cs \<Longrightarrow> running s \<Longrightarrow> n \<in> valid s \<Longrightarrow> a \<noteq> Disconnect n \<Longrightarrow>
    stack s' = stack s \<and> n \<in> valid s' \<and> alive s' = alive s \<and> (\<exists>cs. ready s' = ready s @ cs)"
  by (induction rule: exec.induct) auto

lemma execs_spinning:
  "execs s as s' \<Longrightarrow> stack s = Spinning n # cs \<Longrightarrow> running s \<Longrightarrow> n \<in> valid s \<Longrightarrow> Disconnect n \<notin> set as \<Longrightarrow>
    stack s' = stack s \<and> n \<in> valid s' \<and> alive s' = alive s \<and> (\<exists>cs. ready s' = ready s @ cs)"
proof (induction rule: execs.induct)
  case (execs_nil s)
  then show ?case by simp
next
  case (execs_snoc s as s1 a s2)
  then have IH: "stack s1 = stack s" "n \<in> valid s1" "alive s1 = alive s" "\<exists>cs. ready s1 = ready s @ cs" by auto
  moreover have "running s1" using execs_snoc execs_running by simp
  ultimately have "stack s2 = stack s1 \<and> n \<in> valid s2 \<and> alive s2 = alive s1 \<and> (\<exists>cs. ready s2 = ready s1 @ cs)"
    using execs_snoc by (intro exec_spinning) auto
  with IH show ?case by fastforce
qed

lemma picked_coroutine:
  "exec s Thread s1 \<Longrightarrow> stack s = [] \<Longrightarrow> ready s = c # cs \<Longrightarrow> s1 = s\<lparr>ready := cs, stack := [c]\<rparr>"
  by (erule exec_thread) simp_all

lemma resumed_dangling:
  "exec s1 Thread s2 \<Longrightarrow> stack s1 = c # cs \<Longrightarrow> alive s1 = {} \<Longrightarrow> running s1 \<Longrightarrow>
    c \<in> {Handle_messages n, Handle_reading n, Periodic_sync n, Syncing n} \<Longrightarrow> dangling s2"
  by (erule exec_thread) auto

text \<open>A run of the program with the multiplexer, up to the end of the first connection.\<close>

definition sample_state :: "nat set \<Rightarrow> nat set \<Rightarrow> coroutine list \<Rightarrow> coroutine multiset \<Rightarrow> coroutine list \<Rightarrow> coroutine executor" where
  "sample_state v l r b k =
     \<lparr>running = True, valid = v, alive = l, ready = r, blocked = b, stack = k, dangling = False\<rparr>"

definition reaches :: "coroutine executor \<Rightarrow> bool" where
  "reaches s \<longleftrightarrow> (\<exists>as. execs multiplexer_state as s)"

lemma reaches_step: "reaches s \<Longrightarrow> exec s a s' \<Longrightarrow> reaches s'"
  unfolding reaches_def by (blast intro: execs_snoc)

lemma sample_steps:
  "exec (sample_state v l (c # r) b []) Thread (sample_state v l r b [c])"
  "exec (sample_state v l r b [Multiplexer_run]) Thread (sample_state v l r (add_mset Multiplexer_run b) [])"
  "0 \<notin> v \<Longrightarrow> exec (sample_state v l r {#Multiplexer_run#} []) (Incoming 0)
     (sample_state (insert 0 v) l (r @ [Multiplexer_received 0]) {#} [])"
  "exec (sample_state v l r b [Multiplexer_received 0]) Thread
     (sample_state v l (r @ [Start_connection 0]) b [Multiplexer_run])"
  "exec (sample_state v l r b [Start_connection 0]) Thread (sample_state v l r b [Negotiating 0])"
  "exec (sample_state v l r b [Negotiating 0]) Thread (sample_state v (insert 0 l) r b [Spawn_handle 0])"
  "exec (sample_state v l r b [Spawn_handle 0]) Thread
     (sample_state v l (r @ [Handle_messages 0]) b [Spawn_sync 0])"
  "exec (sample_state v l r b [Spawn_sync 0]) Thread (sample_state v l (r @ [Periodic_sync 0]) b [Spinning 0])"
  "0 \<in> v \<Longrightarrow> exec (sample_state v l r b k) (Disconnect 0) (sample_state (v - {0}) l r b k)"
  "0 \<notin> v \<Longrightarrow> exec (sample_state v l r b [Spinning 0]) Thread (sample_state v (l - {0}) r b [])"
  using exec.pick [of "sample_state v l (c # r) b []"]
    exec.multiplexer_waits [of "sample_state v l r b [Multiplexer_run]"]
    exec.incoming [of "sample_state v l r {#Multiplexer_run#} []" 0]
    exec.multiplexer_posts [of "sample_state v l r b [Multiplexer_received 0]"]
    exec.start [of "sample_state v l r b [Start_connection 0]"]
    exec.negotiated [of "sample_state v l r b [Negotiating 0]"]
    exec.handle_posted [of "sample_state v l r b [Spawn_handle 0]"]
    exec.sync_posted [of "sample_state v l r b [Spawn_sync 0]"]
    exec.disconnect [of 0 "sample_state v l r b k"]
    exec.spin_ends [of "sample_state v l r b [Spinning 0]"]
  by (simp_all add: sample_state_def)

lemma sample_spinning:
  "reaches (sample_state {0} {0} [Handle_messages 0, Periodic_sync 0] {#Multiplexer_run#} [Spinning 0])"
proof -
  have "reaches (sample_state {} {} [Multiplexer_run] {#} [])"
    unfolding reaches_def using execs_nil [of multiplexer_state]
    by (auto simp: multiplexer_state_def main_state_def sample_state_def)
  then have "reaches (sample_state {} {} [] {#Multiplexer_run#} [])"
    by (intro reaches_step [OF reaches_step, OF _ sample_steps(1) sample_steps(2)])
  then have "reaches (sample_state {0} {} [Multiplexer_received 0] {#} [])"
    using reaches_step [OF _ sample_steps(3) [of "{}" "{}" "[]"]] by simp
  then have "reaches (sample_state {0} {} [Start_connection 0] {#} [Multiplexer_run])"
    using reaches_step [OF reaches_step, OF _ sample_steps(1) sample_steps(4) [of _ _ "[]"]] by simp
  then have "reaches (sample_state {0} {} [] {#Multiplexer_run#} [Start_connection 0])"
    by (intro reaches_step [OF reaches_step, OF _ sample_steps(2) sample_steps(1)])
  then have "reaches (sample_state {0} {0} [] {#Multiplexer_run#} [Spawn_handle 0])"
    using reaches_step [OF reaches_step, OF _ sample_steps(5) sample_steps(6)] by simp
  then have "reaches (sample_state {0} {0} [Handle_messages 0] {#Multiplexer_run#} [Spawn_sync 0])"
    using reaches_step [OF _ sample_steps(7) [of _ _ "[]"]] by simp
  then show ?thesis using reaches_step [OF _ sample_steps(8) [of _ _ "[Handle_messages 0]"]] by simp
qed

lemma sample_finished:
  "reaches (sample_state {} {} [Handle_messages 0, Periodic_sync 0] {#Multiplexer_run#} [])"
proof -
  have "reaches (sample_state {} {0} [Handle_messages 0, Periodic_sync 0] {#Multiplexer_run#} [Spinning 0])"
    using reaches_step [OF sample_spinning sample_steps(9)] by simp
  from reaches_step [OF this sample_steps(10)] show ?thesis by simp
qed

section \<open>Properties\<close>

text \<open>C17: The final loop of \<open>start_connection\<close> starves the program: from the moment a connection enters it,
  as long as its stream stays valid, whatever else happens (completions, new streams, other streams
  going away) the thread never leaves the loop; the queued coroutines, \<open>handle_messages\<close> and
  \<open>periodic_sync\<close> of that connection among them, stay queued in their order. The flag that could end
  the loop is never cleared.\<close>

theorem start_connection_starves:
  assumes "execs s as s'" and "stack s = Spinning n # cs" and "running s" and "n \<in> valid s"
    and "Disconnect n \<notin> set as"
  shows "stack s' = Spinning n # cs \<and> (\<exists>more. ready s' = ready s @ more) \<and> alive s' = alive s \<and> running s'"
  using execs_spinning [OF assms] execs_running [OF assms(1)] assms(2,3) by simp

theorem start_connection_starves_witness:
  "stack (sample_state {0} {0} [Handle_messages 0] {#} [Spinning 0]) = Spinning 0 # [] \<and>
    (\<exists>more. ready (sample_state {0} {0} [Handle_messages 0] {#} [Spinning 0]) =
      ready (sample_state {0} {0} [Handle_messages 0] {#} [Spinning 0]) @ more) \<and>
    alive (sample_state {0} {0} [Handle_messages 0] {#} [Spinning 0]) =
      alive (sample_state {0} {0} [Handle_messages 0] {#} [Spinning 0]) \<and>
    running (sample_state {0} {0} [Handle_messages 0] {#} [Spinning 0])"
proof (rule start_connection_starves)
  have "exec (sample_state {0} {0} [Handle_messages 0] {#} [Spinning 0]) Thread
      (sample_state {0} {0} [Handle_messages 0] {#} [Spinning 0])"
    by (rule exec.spin) (simp_all add: sample_state_def)
  from execs_snoc [OF execs_nil this]
  show "execs (sample_state {0} {0} [Handle_messages 0] {#} [Spinning 0]) ([] @ [Thread])
      (sample_state {0} {0} [Handle_messages 0] {#} [Spinning 0])" .
qed (simp_all add: sample_state_def)

text \<open>C3: The coroutines of a connection run after its end: in every execution, when the thread takes
  \<open>handle_messages\<close>, \<open>periodic_sync\<close> or a suspended synchronisation from its queue, no connection
  object exists any more, for it blocks the thread in \<open>start_connection\<close> as long as it exists. So the
  first thing such a coroutine does is to use a dangling reference.\<close>

theorem connection_used_after_free:
  assumes "reaches s" and "stack s = []" and "ready s = c # cs"
    and "c \<in> {Handle_messages n, Handle_reading n, Periodic_sync n, Syncing n}"
    and "exec s Thread s1" and "exec s1 Thread s2"
  shows "alive s1 = {} \<and> dangling s2"
proof -
  obtain as where as: "execs multiplexer_state as s" using assms(1) by (auto simp: reaches_def)
  have "running s" using execs_running [OF as] by (simp add: multiplexer_state_def main_state_def)
  moreover have "s1 = s\<lparr>ready := cs, stack := [c]\<rparr>" by (rule picked_coroutine [OF assms(5,2,3)])
  moreover have "alive s = {}" by (rule idle_nothing_alive [OF as assms(2)])
  ultimately show ?thesis using resumed_dangling [OF assms(6), of c "[]" n] assms(4) by simp
qed

theorem connection_used_after_free_witness:
  "alive (sample_state {} {} [Periodic_sync 0] {#Multiplexer_run#} [Handle_messages 0]) = {} \<and>
   dangling (sample_state {} {} [Periodic_sync 0] {#Multiplexer_run#} [Handle_messages 0]
     \<lparr>dangling := True, stack := []\<rparr>)"
proof (rule connection_used_after_free [OF sample_finished, where n = 0 and c = "Handle_messages 0" and cs = "[Periodic_sync 0]"])
  show "exec (sample_state {} {} [Handle_messages 0, Periodic_sync 0] {#Multiplexer_run#} []) Thread
      (sample_state {} {} [Periodic_sync 0] {#Multiplexer_run#} [Handle_messages 0])"
    by (rule sample_steps(1))
  show "exec (sample_state {} {} [Periodic_sync 0] {#Multiplexer_run#} [Handle_messages 0]) Thread
      (sample_state {} {} [Periodic_sync 0] {#Multiplexer_run#} [Handle_messages 0]\<lparr>dangling := True, stack := []\<rparr>)"
    by (rule exec.handle_dangling) (simp_all add: sample_state_def)
qed (simp_all add: sample_state_def)

text \<open>\<open>main\<close> runs nothing: it spawns no coroutine before it calls \<open>run\<close>, so in the state it calls it in
  no step is possible, neither of the thread nor of the world, and \<open>run\<close> returns at once.\<close>

theorem main_runs_nothing:
  "\<not> exec main_state actor s \<and> (execs main_state as s \<longleftrightarrow> as = [] \<and> s = main_state)"
proof -
  have stuck: "\<not> exec main_state actor s" for actor s
    by (auto elim!: exec_elim simp: main_state_def)
  have "execs s0 as s \<Longrightarrow> s0 = main_state \<Longrightarrow> as = [] \<and> s = main_state" for s0
    by (induction rule: execs.induct) (auto simp: stuck)
  with stuck show ?thesis by (auto intro: execs_nil)
qed

end
