(* ===== verification/Runtime.thy ===== *)
theory Runtime
  imports Executor Sync
begin

text \<open>
  The coroutines of \<open>src/hrafn.cpp\<close> with their local variables and the packets they write: the small
  steps of which \<open>Executor\<close> is the control flow and \<open>Net\<close> and \<open>Sync\<close> are the effects. An awaited
  operation hands its packet to the stream and then either suspends the coroutine or lets it run on; what
  a read delivers is left open. The projection to \<open>Executor\<close> forgets the data and is a simulation.
\<close>

section \<open>The code\<close>

text \<open>The libraries and the parts of \<open>Context\<close> that the coroutines use.\<close>

record app =
  app_sha256 :: "bytes \<Rightarrow> bytes"
  app_Base64Escape :: "bytes \<Rightarrow> string"
  app_handshake_proto :: "handshake_proto proto"
  app_header_proto :: "message_header proto"
  app_no_pubkey :: pubkey
  app_pubkey :: pubkey
  app_syncer :: syncer

text \<open>
  The frame of a coroutine: where it stands, the stream it works for and its local variables: the buffer
  of a finished read, the size of the data to read, the message of \<open>sync_one\<close> and the messages that the
  loop of \<open>Syncer::sync\<close> has not looked at.
\<close>

datatype frame =
    Run
  | Received nat
  | Start nat
  | Negotiate nat
  | Handshake_sent nat
  | Handshake_read nat bytes
  | Before_handle nat
  | Before_sync nat
  | Spin nat
  | Handle nat
  | Reading_header nat
  | Header_read nat bytes
  | Reading_data nat nat
  | Data_read nat
  | At_sync nat
  | Sync_loop nat "message list"
  | Sync_data nat message "message list"

record runtime = "frame executor" +
  used :: "nat set"
  outbox :: "nat \<Rightarrow> bytes list"

definition own_handshake :: "app \<Rightarrow> bytes" where
  "own_handshake ctx = SerializeToArray (app_handshake_proto ctx) (handshake_to_proto (app_Base64Escape ctx)
     (handshake_generate (peer_id_from_pubkey (app_sha256 ctx) (app_pubkey ctx))))"

text \<open>The loop of \<open>Syncer::sync\<close> up to the next call of \<open>sync_one\<close>.\<close>

fun next_message :: "contact \<Rightarrow> sync_mode \<Rightarrow> message list \<Rightarrow> (message \<times> message list) option" where
  "next_message c mode [] = None"
| "next_message c mode (m # ms) =
     (if header_timestamp (message_hdr m) < last_sync c then next_message c mode ms
      else if mode = Full then Some (m, ms)
      else if find (pubkey_equal (contact_pubkey c)) (message_recipients m) \<noteq> None then Some (m, ms)
      else next_message c mode ms)"

text \<open>
  The awaited operations: the frame before, the frame in which the coroutine goes on, and the packets
  handed to the stream.
\<close>

inductive awaits :: "app \<Rightarrow> frame \<Rightarrow> frame \<Rightarrow> bytes list \<Rightarrow> bool" for ctx where
  handshake_written: "awaits ctx (Negotiate n) (Handshake_sent n) [own_handshake ctx]"
| handshake_received: "length buffer = kHandshakeMessageMaxSize \<Longrightarrow>
    awaits ctx (Handshake_sent n) (Handshake_read n buffer) []"
| header_received: "length buffer = 1024 \<Longrightarrow> awaits ctx (Reading_header n) (Header_read n buffer) []"
| data_received: "awaits ctx (Reading_data n k) (Data_read n) []"
| header_written: "next_message (fresh_contact (app_no_pubkey ctx)) Full ms = Some (m, ms') \<Longrightarrow>
    awaits ctx (Sync_loop n ms) (Sync_data n m ms') [SerializeToArray (app_header_proto ctx) (message_hdr m)]"
| data_written: "awaits ctx (Sync_data n m ms) (Sync_loop n ms) [message_data m]"

text \<open>
  The steps between them: the frame on the top of the stack, the frames that replace it, the spawned
  coroutines that are queued, and the connections that are alive afterwards.
\<close>

inductive advances :: "app \<Rightarrow> runtime \<Rightarrow> frame \<Rightarrow> frame list \<Rightarrow> frame list \<Rightarrow> nat set \<Rightarrow> bool" for ctx s where
  run_ends: "\<not> running s \<Longrightarrow> advances ctx s Run [] [] (alive s)"
| received_posts: "advances ctx s (Received n) [Run] [Start n] (alive s)"
| received_calls: "advances ctx s (Received n) [Start n, Run] [] (alive s)"
| starts: "advances ctx s (Start n) [Negotiate n] [] (alive s)"
| negotiate_fails: "ParseFromArray (app_handshake_proto ctx) buffer = None \<Longrightarrow>
    advances ctx s (Handshake_read n buffer) [] [] (alive s)"
| negotiate_succeeds: "ParseFromArray (app_handshake_proto ctx) buffer = Some handshake \<Longrightarrow>
    advances ctx s (Handshake_read n buffer) [Before_handle n] [] (insert n (alive s))"
| posts_handle: "advances ctx s (Before_handle n) [Before_sync n] [Handle n] (alive s)"
| calls_handle: "advances ctx s (Before_handle n) [Handle n, Before_sync n] [] (alive s)"
| posts_sync: "advances ctx s (Before_sync n) [Spin n] [At_sync n] (alive s)"
| calls_sync: "advances ctx s (Before_sync n) [At_sync n, Spin n] [] (alive s)"
| spins: "running s \<Longrightarrow> n \<in> valid s \<Longrightarrow> advances ctx s (Spin n) [Spin n] [] (alive s)"
| stops_spinning: "\<not> (running s \<and> n \<in> valid s) \<Longrightarrow> advances ctx s (Spin n) [] [] (alive s - {n})"
| begins_round: "n \<in> alive s \<Longrightarrow> n \<in> valid s \<Longrightarrow> advances ctx s (Handle n) [Reading_header n] [] (alive s)"
| ends_handle: "n \<in> alive s \<Longrightarrow> n \<notin> valid s \<Longrightarrow> advances ctx s (Handle n) [] [] (alive s)"
| header_rejected: "n \<in> alive s \<Longrightarrow> ParseFromArray (app_header_proto ctx) buffer = None \<Longrightarrow>
    advances ctx s (Header_read n buffer) [Handle n] [] (alive s)"
| header_accepted: "n \<in> alive s \<Longrightarrow> ParseFromArray (app_header_proto ctx) buffer = Some header \<Longrightarrow>
    advances ctx s (Header_read n buffer) [Reading_data n (unat (header_size header))] [] (alive s)"
| ends_round: "n \<in> alive s \<Longrightarrow> advances ctx s (Data_read n) [Handle n] [] (alive s)"
| begins_sync: "running s \<Longrightarrow> n \<in> alive s \<Longrightarrow> n \<in> valid s \<Longrightarrow>
    advances ctx s (At_sync n) [Sync_loop n (syncer_messages (app_syncer ctx))] [] (alive s)"
| ends_syncing: "\<not> running s \<or> n \<in> alive s \<and> n \<notin> valid s \<Longrightarrow> advances ctx s (At_sync n) [] [] (alive s)"
| ends_sync: "n \<in> alive s \<Longrightarrow> next_message (fresh_contact (app_no_pubkey ctx)) Full ms = None \<Longrightarrow>
    advances ctx s (Sync_loop n ms) [At_sync n] [] (alive s)"

text \<open>
  The stream of a frame. The frames of the spawned coroutines refer to the connection; they hang when it
  is gone and their next action uses it, which is every action but the look at the flag.
\<close>

fun stream_of :: "frame \<Rightarrow> nat option" where
  "stream_of Run = None"
| "stream_of (Received n) = Some n"
| "stream_of (Start n) = Some n"
| "stream_of (Negotiate n) = Some n"
| "stream_of (Handshake_sent n) = Some n"
| "stream_of (Handshake_read n _) = Some n"
| "stream_of (Before_handle n) = Some n"
| "stream_of (Before_sync n) = Some n"
| "stream_of (Spin n) = Some n"
| "stream_of (Handle n) = Some n"
| "stream_of (Reading_header n) = Some n"
| "stream_of (Header_read n _) = Some n"
| "stream_of (Reading_data n _) = Some n"
| "stream_of (Data_read n) = Some n"
| "stream_of (At_sync n) = Some n"
| "stream_of (Sync_loop n _) = Some n"
| "stream_of (Sync_data n _ _) = Some n"

fun refers :: "frame \<Rightarrow> bool" where
  "refers (Handle n) = True"
| "refers (Reading_header n) = True"
| "refers (Header_read n buffer) = True"
| "refers (Reading_data n k) = True"
| "refers (Data_read n) = True"
| "refers (At_sync n) = True"
| "refers (Sync_loop n ms) = True"
| "refers (Sync_data n m ms) = True"
| "refers _ = False"

definition hanging :: "runtime \<Rightarrow> frame \<Rightarrow> bool" where
  "hanging s f \<longleftrightarrow> refers f \<and> the (stream_of f) \<notin> alive s \<and> (case f of At_sync n \<Rightarrow> running s | _ \<Rightarrow> True)"

fun hand_over :: "nat option \<Rightarrow> bytes list \<Rightarrow> (nat \<Rightarrow> bytes list) \<Rightarrow> nat \<Rightarrow> bytes list" where
  "hand_over None ps out = out"
| "hand_over (Some n) ps out = out(n := out n @ ps)"

inductive steps :: "app \<Rightarrow> runtime \<Rightarrow> frame actor \<Rightarrow> runtime \<Rightarrow> bool" for ctx s where
  disconnects: "n \<in> valid s \<Longrightarrow> steps ctx s (Disconnect n) (s\<lparr>valid := valid s - {n}\<rparr>)"
| completes: "f \<in># blocked s \<Longrightarrow> f \<noteq> Run \<Longrightarrow>
    steps ctx s (Completion f) (s\<lparr>blocked := blocked s - {#f#}, ready := ready s @ [f]\<rparr>)"
| arrives: "Run \<in># blocked s \<Longrightarrow> n \<notin> used s \<Longrightarrow> n \<notin> valid s \<Longrightarrow>
    steps ctx s (Incoming n) (s\<lparr>blocked := blocked s - {#Run#}, valid := insert n (valid s),
      ready := ready s @ [Received n], used := insert n (used s)\<rparr>)"
| picks: "stack s = [] \<Longrightarrow> ready s = f # fs \<Longrightarrow> steps ctx s Thread (s\<lparr>ready := fs, stack := [f]\<rparr>)"
| run_waits: "stack s = Run # fs \<Longrightarrow> running s \<Longrightarrow>
    steps ctx s Thread (s\<lparr>blocked := add_mset Run (blocked s), stack := fs\<rparr>)"
| runs_on: "stack s = f # fs \<Longrightarrow> advances ctx s f gs hs l \<Longrightarrow>
    steps ctx s Thread (s\<lparr>stack := gs @ fs, ready := ready s @ hs, alive := l\<rparr>)"
| suspends: "stack s = f # fs \<Longrightarrow> \<not> hanging s f \<Longrightarrow> awaits ctx f g ps \<Longrightarrow>
    steps ctx s Thread (s\<lparr>stack := fs, blocked := add_mset g (blocked s),
      outbox := hand_over (stream_of f) ps (outbox s)\<rparr>)"
| goes_on: "stack s = f # fs \<Longrightarrow> \<not> hanging s f \<Longrightarrow> awaits ctx f g ps \<Longrightarrow>
    steps ctx s Thread (s\<lparr>stack := g # fs, outbox := hand_over (stream_of f) ps (outbox s)\<rparr>)"
| dangles: "stack s = f # fs \<Longrightarrow> hanging s f \<Longrightarrow>
    steps ctx s Thread (s\<lparr>dangling := True, stack := fs\<rparr>)"

text \<open>As in \<open>Executor\<close>, the program is undefined once \<open>dangling\<close> holds; the runs go on only formally.\<close>

inductive runs :: "app \<Rightarrow> runtime \<Rightarrow> frame actor list \<Rightarrow> runtime \<Rightarrow> bool" for ctx s where
  runs_nil: "runs ctx s [] s"
| runs_snoc: "runs ctx s as s1 \<Longrightarrow> steps ctx s1 a s2 \<Longrightarrow> runs ctx s (as @ [a]) s2"

text \<open>The program with the multiplexer spawned.\<close>

definition start_state :: runtime where
  "start_state = \<lparr>running = True, valid = {}, alive = {}, ready = [Run], blocked = {#}, stack = [],
     dangling = False, used = {}, outbox = (\<lambda>_. [])\<rparr>"

definition runtime_reaches :: "app \<Rightarrow> runtime \<Rightarrow> bool" where
  "runtime_reaches ctx s \<longleftrightarrow> (\<exists>as. runs ctx start_state as s)"

section \<open>The projection to the executor\<close>

fun place :: "frame \<Rightarrow> coroutine" where
  "place Run = Multiplexer_run"
| "place (Received n) = Multiplexer_received n"
| "place (Start n) = Start_connection n"
| "place (Negotiate n) = Negotiating n"
| "place (Handshake_sent n) = Negotiating n"
| "place (Handshake_read n _) = Negotiating n"
| "place (Before_handle n) = Spawn_handle n"
| "place (Before_sync n) = Spawn_sync n"
| "place (Spin n) = Spinning n"
| "place (Handle n) = Handle_messages n"
| "place (Reading_header n) = Handle_reading n"
| "place (Header_read n _) = Handle_reading n"
| "place (Reading_data n _) = Handle_reading n"
| "place (Data_read n) = Handle_reading n"
| "place (At_sync n) = Periodic_sync n"
| "place (Sync_loop n _) = Syncing n"
| "place (Sync_data n _ _) = Syncing n"

definition project :: "runtime \<Rightarrow> coroutine executor" where
  "project s = \<lparr>running = running s, valid = valid s, alive = alive s, ready = map place (ready s),
     blocked = image_mset place (blocked s), stack = map place (stack s), dangling = dangling s\<rparr>"

lemma place_run [simp]: "place f = Multiplexer_run \<longleftrightarrow> f = Run" "Multiplexer_run = place f \<longleftrightarrow> f = Run"
  by (cases f; simp)+

text \<open>The thread of the executor makes the step of the model, or none.\<close>

definition follows :: "coroutine executor \<Rightarrow> coroutine executor \<Rightarrow> bool" where
  "follows s s' \<longleftrightarrow> s' = s \<or> exec s Thread s'"


lemma follows_refl [simp]: "follows s s"
  by (simp add: follows_def)

lemma exec_to: "exec s a t \<Longrightarrow> t = t' \<Longrightarrow> exec s a t'"
  by simp

lemma follows_by: "exec (project s) Thread t \<Longrightarrow> t = project s' \<Longrightarrow> follows (project s) (project s')"
  by (simp add: follows_def)

lemma follows_same: "project s' = project s \<Longrightarrow> follows (project s) (project s')"
  by (simp add: follows_def)

lemmas thread_moves = exec.multiplexer_ends exec.multiplexer_posts exec.multiplexer_calls exec.start
  exec.negotiation_fails exec.negotiated exec.handle_posted exec.handle_called exec.sync_posted exec.sync_called
  exec.spin_ends exec.handle_begins exec.handle_ends exec.reading_done exec.sync_begins exec.sync_ends exec.syncing_done

lemma advances_follows:
  assumes "advances ctx s f gs hs l" "stack s = f # fs"
  shows "follows (project s) (project (s\<lparr>stack := gs @ fs, ready := ready s @ hs, alive := l\<rparr>))"
  using assms
  by (cases rule: advances.cases)
    ((rule follows_same, simp add: project_def; fail) |
      (rule follows_by, rule thread_moves, (simp add: project_def; fail)+))+

lemma suspends_follows:
  assumes "awaits ctx f g ps" "stack s = f # fs" "\<not> hanging s f"
  shows "follows (project s) (project (s\<lparr>stack := fs, blocked := add_mset g (blocked s), outbox := out\<rparr>))"
  using assms
  by (cases rule: awaits.cases)
    (rule follows_by, rule exec.negotiating exec.reading_waits exec.syncing_writes,
      (simp add: project_def hanging_def; fail)+)+

lemma goes_on_follows:
  "awaits ctx f g ps \<Longrightarrow> stack s = f # fs \<Longrightarrow> project (s\<lparr>stack := g # fs, outbox := out\<rparr>) = project s"
  by (cases rule: awaits.cases, assumption) (simp_all add: project_def)

lemma dangles_follows:
  assumes "hanging s f" "stack s = f # fs"
  shows "exec (project s) Thread (project (s\<lparr>dangling := True, stack := fs\<rparr>))"
  using assms exec.handle_dangling [of "project s" "the (stream_of f)" "map place fs"]
    exec.reading_dangling [of "project s" "the (stream_of f)" "map place fs"]
    exec.sync_dangling [of "project s" "the (stream_of f)" "map place fs"]
    exec.syncing_dangling [of "project s" "the (stream_of f)" "map place fs"]
  by (cases f) (simp_all add: project_def hanging_def)

text \<open>The actions of the world stay, with frames replaced by their places; the thread may idle.\<close>

lemma steps_follow:
  "steps ctx s a s' \<Longrightarrow>
    if a = Thread then follows (project s) (project s') else exec (project s) (map_actor place a) (project s')"
proof (cases rule: steps.cases, assumption)
  fix n assume "s' = s\<lparr>valid := valid s - {n}\<rparr>" "a = Disconnect n" "n \<in> valid s"
  then show ?thesis using exec.disconnect [of n "project s"] by (simp add: project_def)
next
  fix f assume "s' = s\<lparr>blocked := blocked s - {#f#}, ready := ready s @ [f]\<rparr>" "a = Completion f" "f \<in># blocked s" "f \<noteq> Run"
  then show ?thesis using exec.completion [of "place f" "project s"]
    by (simp add: project_def image_mset_Diff)
next
  fix n assume "s' = s\<lparr>blocked := blocked s - {#Run#}, valid := insert n (valid s),
      ready := ready s @ [Received n], used := insert n (used s)\<rparr>"
    "a = Incoming n" "Run \<in># blocked s" "n \<notin> valid s"
  then show ?thesis using exec.incoming [of "project s" n]
    by (force simp add: project_def image_mset_Diff)
next
  fix f fs assume "s' = s\<lparr>ready := fs, stack := [f]\<rparr>" "a = Thread" "stack s = []" "ready s = f # fs"
  then show ?thesis using exec.pick [of "project s" "place f" "map place fs"]
    by (simp add: project_def follows_def)
next
  fix fs assume "s' = s\<lparr>blocked := add_mset Run (blocked s), stack := fs\<rparr>" "a = Thread" "stack s = Run # fs" "running s"
  then show ?thesis using exec.multiplexer_waits [of "project s" "map place fs"]
    by (simp add: project_def follows_def)
qed (simp_all add: advances_follows suspends_follows goes_on_follows dangles_follows [unfolded follows_def] follows_def [of "project s" "project s"],
  simp add: dangles_follows follows_def)

lemma runs_follow:
  "runs ctx s as s' \<Longrightarrow> \<exists>bs. execs (project s) bs (project s') \<and>
    filter (\<lambda>b. b \<noteq> Thread) bs = map (map_actor place) (filter (\<lambda>a. a \<noteq> Thread) as)"
proof (induction rule: runs.induct)
  case runs_nil
  then show ?case using execs_nil by fastforce
next
  case (runs_snoc as s1 a s2)
  then obtain bs where bs: "execs (project s) bs (project s1)"
    "filter (\<lambda>b. b \<noteq> Thread) bs = map (map_actor place) (filter (\<lambda>a. a \<noteq> Thread) as)" by blast
  show ?case
  proof (cases "a = Thread")
    case True
    then have "project s2 = project s1 \<or> exec (project s1) Thread (project s2)"
      using steps_follow [OF runs_snoc.hyps(2)] by (simp add: follows_def)
    then show ?thesis using bs True execs_snoc [OF bs(1), of Thread] by fastforce
  next
    case False
    then have "exec (project s1) (map_actor place a) (project s2)"
      using steps_follow [OF runs_snoc.hyps(2)] by simp
    moreover have "map_actor place a \<noteq> Thread" using False by (cases a) simp_all
    ultimately show ?thesis using bs False
      by (intro exI [of _ "bs @ [map_actor place a]"]) (simp add: execs_snoc)
  qed
qed

lemma project_start: "project start_state = multiplexer_state"
  by (simp add: project_def start_state_def multiplexer_state_def main_state_def)

lemma runtime_reaches_project: "runtime_reaches ctx s \<Longrightarrow> reaches (project s)"
  using runs_follow [of ctx start_state] unfolding runtime_reaches_def reaches_def project_start by blast

section \<open>What the streams carry\<close>

lemma next_message_sync_loop:
  "sync_loop p c mode ms w = (case next_message (connection_contact c) mode ms of
     None \<Rightarrow> w | Some (m, ms') \<Rightarrow> sync_loop p c mode ms' (sync_one p c m w))"
  by (induction ms) auto

lemma next_message_fresh: "next_message (fresh_contact k) Full ms = (case ms of [] \<Rightarrow> None | m # ms \<Rightarrow> Some (m, ms))"
  by (cases ms) (simp_all add: fresh_contact_def)

text \<open>The frames on the way to the writes of a stream; at any time a stream has at most one.\<close>

fun sender :: "frame \<Rightarrow> nat option" where
  "sender (Received n) = Some n"
| "sender (Start n) = Some n"
| "sender (Negotiate n) = Some n"
| "sender (Handshake_sent n) = Some n"
| "sender (Handshake_read n _) = Some n"
| "sender (Before_handle n) = Some n"
| "sender (Before_sync n) = Some n"
| "sender (At_sync n) = Some n"
| "sender (Sync_loop n _) = Some n"
| "sender (Sync_data n _ _) = Some n"
| "sender _ = None"

definition packets :: "app \<Rightarrow> message list \<Rightarrow> bytes list" where
  "packets ctx ms = concat (map (message_packets (app_header_proto ctx)) ms)"

text \<open>What is still to be written of the handshake or of the round.\<close>

fun due :: "app \<Rightarrow> frame \<Rightarrow> bytes list" where
  "due ctx (Received n) = [own_handshake ctx]"
| "due ctx (Start n) = [own_handshake ctx]"
| "due ctx (Negotiate n) = [own_handshake ctx]"
| "due ctx (Sync_loop n ms) = packets ctx ms"
| "due ctx (Sync_data n m ms) = message_data m # packets ctx ms"
| "due ctx _ = []"

definition rounds :: "app \<Rightarrow> nat \<Rightarrow> bytes list" where
  "rounds ctx k = own_handshake ctx # concat (replicate k (packets ctx (syncer_messages (app_syncer ctx))))"

definition complete :: "app \<Rightarrow> bytes list \<Rightarrow> bool" where
  "complete ctx out \<longleftrightarrow> (\<exists>k. out = rounds ctx k)"

lemma complete_handshake: "complete ctx [own_handshake ctx]"
  unfolding complete_def rounds_def by (rule exI [of _ 0]) simp

lemma complete_round: "complete ctx out \<Longrightarrow> complete ctx (out @ packets ctx (syncer_messages (app_syncer ctx)))"
proof -
  assume "complete ctx out"
  then obtain k where "out = rounds ctx k" by (auto simp: complete_def)
  then have "out @ packets ctx (syncer_messages (app_syncer ctx)) = rounds ctx (Suc k)"
    by (simp add: rounds_def concat_replicate_snoc del: replicate_Suc)
  then show ?thesis unfolding complete_def by blast
qed

definition fits :: "app \<Rightarrow> frame \<Rightarrow> bytes list \<Rightarrow> bool" where
  "fits ctx f out \<longleftrightarrow> complete ctx (out @ due ctx f) \<and> (case f of
       Received _ \<Rightarrow> out = [] | Start _ \<Rightarrow> out = [] | Negotiate _ \<Rightarrow> out = []
     | Handshake_sent _ \<Rightarrow> out = [own_handshake ctx] | Handshake_read _ _ \<Rightarrow> out = [own_handshake ctx]
     | Before_handle _ \<Rightarrow> out = [own_handshake ctx] | Before_sync _ \<Rightarrow> out = [own_handshake ctx]
     | _ \<Rightarrow> True)"

definition frames :: "runtime \<Rightarrow> frame multiset" where
  "frames s = mset (ready s) + blocked s + mset (stack s)"

definition senders :: "nat \<Rightarrow> frame multiset \<Rightarrow> frame multiset" where
  "senders n fs = filter_mset (\<lambda>f. sender f = Some n) fs"

lemma senders_simps [simp]:
  "senders n {#} = {#}"
  "senders n (add_mset f fs) = (if sender f = Some n then add_mset f (senders n fs) else senders n fs)"
  "senders n (fs + gs) = senders n fs + senders n gs"
  by (simp_all add: senders_def)

lemma senders_member: "f \<in># senders n fs \<longleftrightarrow> f \<in># fs \<and> sender f = Some n"
  by (simp add: senders_def)

definition orderly :: "app \<Rightarrow> runtime \<Rightarrow> bool" where
  "orderly ctx s \<longleftrightarrow> (\<forall>n. size (senders n (frames s)) \<le> 1 \<and>
     (\<forall>f \<in># senders n (frames s). fits ctx f (outbox s n)) \<and>
     (\<exists>rest. complete ctx (outbox s n @ rest)) \<and>
     (n \<notin> used s \<longrightarrow> senders n (frames s) = {#} \<and> outbox s n = []))"

lemma orderly_start: "orderly ctx start_state"
  using complete_handshake by (auto simp: orderly_def start_state_def frames_def)

text \<open>A step replaces one frame by others.\<close>

definition passes :: "app \<Rightarrow> frame \<Rightarrow> bytes list \<Rightarrow> frame multiset \<Rightarrow> bool" where
  "passes ctx f ps gs \<longleftrightarrow> (\<forall>n. if sender f \<noteq> Some n then senders n gs = {#}
     else senders n gs = {#} \<and> ps = [] \<or>
      (\<exists>g. senders n gs = {#g#} \<and> (\<forall>out. fits ctx f out \<longrightarrow> fits ctx g (out @ ps))))"

lemma orderly_pass:
  assumes "orderly ctx s" "frames s = add_mset f r" "frames s' = gs + r" "used s' = used s"
    and "passes ctx f ps gs" "\<And>n. outbox s' n = (if sender f = Some n then outbox s n @ ps else outbox s n)"
  shows "orderly ctx s'"
  unfolding orderly_def
proof (intro allI)
  fix n
  note old = assms(1) [unfolded orderly_def, rule_format, of n]
  note new = assms(5) [unfolded passes_def, rule_format, of n]
  show "size (senders n (frames s')) \<le> 1 \<and>
     (\<forall>f \<in># senders n (frames s'). fits ctx f (outbox s' n)) \<and>
     (\<exists>rest. complete ctx (outbox s' n @ rest)) \<and>
     (n \<notin> used s' \<longrightarrow> senders n (frames s') = {#} \<and> outbox s' n = [])"
  proof (cases "sender f = Some n")
    case False
    then have "senders n gs = {#}" using new by argo
    then have "senders n (frames s') = senders n (frames s)" "outbox s' n = outbox s n"
      using False assms(2,3,6) by simp_all
    then show ?thesis using old assms(4) by simp
  next
    case True
    then have all: "senders n (frames s) = add_mset f (senders n r)" using assms(2) by simp
    then have r: "senders n r = {#}" "fits ctx f (outbox s n)" "n \<in> used s"
      using old by auto
    show ?thesis
    proof (cases "senders n gs = {#} \<and> ps = []")
      case True
      moreover have "senders n (frames s') = {#}" "outbox s' n = outbox s n"
        using calculation r(1) assms(3,6) by simp_all
      ultimately show ?thesis using old r assms(4) by simp
    next
      case False
      then obtain g where g: "senders n gs = {#g#}" "fits ctx g (outbox s n @ ps)"
        using new \<open>sender f = Some n\<close> r(2) by auto
      moreover have "senders n (frames s') = {#g#}" "outbox s' n = outbox s n @ ps"
        using g(1) r(1) assms(3,6) \<open>sender f = Some n\<close> by simp_all
      ultimately show ?thesis using r(3) assms(4) by (auto simp: fits_def)
    qed
  qed
qed

lemma passes_advance: "advances ctx s f gs hs l \<Longrightarrow> passes ctx f [] (mset gs + mset hs)"
proof (cases rule: advances.cases, assumption)
  fix n assume *: "gs = [Sync_loop n (syncer_messages (app_syncer ctx))]" "f = At_sync n" "hs = []"
  then show ?thesis using complete_round by (simp add: passes_def fits_def)
next
  fix n ms assume "gs = [At_sync n]" "f = Sync_loop n ms" "hs = []"
    "next_message (fresh_contact (app_no_pubkey ctx)) Full ms = None"
  then show ?thesis by (simp add: passes_def fits_def next_message_fresh packets_def split: list.splits)
qed (simp_all add: passes_def fits_def)

lemma passes_await: "awaits ctx f g ps \<Longrightarrow> passes ctx f ps {#g#}"
proof (cases rule: awaits.cases, assumption)
  fix ms m ms' n assume "f = Sync_loop n ms" "g = Sync_data n m ms'"
    "ps = [SerializeToArray (app_header_proto ctx) (message_hdr m)]"
    "next_message (fresh_contact (app_no_pubkey ctx)) Full ms = Some (m, ms')"
  then show ?thesis
    by (simp add: passes_def fits_def next_message_fresh packets_def message_packets_def split: list.splits)
qed (simp_all add: passes_def fits_def packets_def)

lemma hand_over_sender: "awaits ctx f g ps \<Longrightarrow>
    hand_over (stream_of f) ps out n = (if sender f = Some n then out n @ ps else out n)"
  by (cases rule: awaits.cases, assumption) simp_all

lemma passes_same: "passes ctx f [] {#f#}"
  by (simp add: passes_def)

lemma passes_drop: "passes ctx f [] {#}"
  by (simp add: passes_def)

lemma orderly_same: "orderly ctx s \<Longrightarrow> frames s' = frames s \<Longrightarrow> used s' = used s \<Longrightarrow> outbox s' = outbox s \<Longrightarrow> orderly ctx s'"
  by (simp add: orderly_def)

lemma orderly_arrival:
  assumes "orderly ctx s" "n \<notin> used s" "frames s' = add_mset (Received n) r" "frames s = add_mset Run r"
    "used s' = insert n (used s)" "outbox s' = outbox s"
  shows "orderly ctx s'"
  unfolding orderly_def
proof (intro allI)
  fix m
  note old = assms(1) [unfolded orderly_def, rule_format, of m]
  show "size (senders m (frames s')) \<le> 1 \<and>
     (\<forall>f \<in># senders m (frames s'). fits ctx f (outbox s' m)) \<and>
     (\<exists>rest. complete ctx (outbox s' m @ rest)) \<and>
     (m \<notin> used s' \<longrightarrow> senders m (frames s') = {#} \<and> outbox s' m = [])"
    using old assms(2-6) complete_handshake by (cases "m = n") (auto simp: fits_def)
qed

lemma steps_orderly: "steps ctx s a s' \<Longrightarrow> orderly ctx s \<Longrightarrow> orderly ctx s'"
proof (cases rule: steps.cases, assumption)
  fix f assume "s' = s\<lparr>blocked := blocked s - {#f#}, ready := ready s @ [f]\<rparr>" "f \<in># blocked s"
    and o: "orderly ctx s"
  then show ?thesis by (intro orderly_same [OF o]) (auto simp: frames_def dest!: multi_member_split)
next
  fix n assume "s' = s\<lparr>blocked := blocked s - {#Run#}, valid := insert n (valid s),
      ready := ready s @ [Received n], used := insert n (used s)\<rparr>" "Run \<in># blocked s" "n \<notin> used s"
    and o: "orderly ctx s"
  then show ?thesis by (intro orderly_arrival [OF o]) (auto simp: frames_def dest!: multi_member_split)
next
  fix f fs gs hs l assume s': "s' = s\<lparr>stack := gs @ fs, ready := ready s @ hs, alive := l\<rparr>"
    and "stack s = f # fs" "advances ctx s f gs hs l" and o: "orderly ctx s"
  then show ?thesis
    by (intro orderly_pass [OF o _ _ _ passes_advance, where r = "mset (ready s) + blocked s + mset fs"])
      (simp_all add: frames_def)
next
  fix f fs g ps assume "s' = s\<lparr>stack := fs, blocked := add_mset g (blocked s), outbox := hand_over (stream_of f) ps (outbox s)\<rparr>"
    "stack s = f # fs" "awaits ctx f g ps" and o: "orderly ctx s"
  then show ?thesis
    by (intro orderly_pass [OF o _ _ _ passes_await, where r = "mset (ready s) + blocked s + mset fs"])
      (simp_all add: frames_def hand_over_sender)
next
  fix f fs g ps assume "s' = s\<lparr>stack := g # fs, outbox := hand_over (stream_of f) ps (outbox s)\<rparr>"
    "stack s = f # fs" "awaits ctx f g ps" and o: "orderly ctx s"
  then show ?thesis
    by (intro orderly_pass [OF o _ _ _ passes_await, where r = "mset (ready s) + blocked s + mset fs"])
      (simp_all add: frames_def hand_over_sender)
next
  fix f fs assume "s' = s\<lparr>dangling := True, stack := fs\<rparr>" "stack s = f # fs" and o: "orderly ctx s"
  then show ?thesis
    by (intro orderly_pass [OF o _ _ _ passes_drop, where r = "mset (ready s) + blocked s + mset fs"])
      (simp_all add: frames_def)
qed (simp_all add: orderly_same frames_def)

lemma runs_orderly: "runs ctx s as s' \<Longrightarrow> orderly ctx s \<Longrightarrow> orderly ctx s'"
  by (induction rule: runs.induct) (auto intro: steps_orderly)

lemma runtime_reaches_orderly: "runtime_reaches ctx s \<Longrightarrow> orderly ctx s"
  unfolding runtime_reaches_def by (blast intro: runs_orderly orderly_start)

lemma runtime_reaches_runs: "runtime_reaches ctx s \<Longrightarrow> runs ctx s as s' \<Longrightarrow> runtime_reaches ctx s'"
  unfolding runtime_reaches_def
  by (rotate_tac, induction rule: runs.induct) (blast intro: runs_snoc)+

text \<open>Nothing is alive when the thread takes a frame from the queue.\<close>

lemma runtime_idle: "runtime_reaches ctx s \<Longrightarrow> stack s = [] \<Longrightarrow> alive s = {}"
  using runtime_reaches_project [of ctx s] idle_nothing_alive [of _ "project s"]
  by (auto simp: reaches_def project_def)

section \<open>Synchronisations off the stack\<close>

definition syncs :: "frame \<Rightarrow> bool" where
  "syncs f \<longleftrightarrow> (case f of At_sync _ \<Rightarrow> True | Sync_loop _ _ \<Rightarrow> True | Sync_data _ _ _ \<Rightarrow> True | _ \<Rightarrow> False)"

text \<open>The output of a stream is final when its synchronisation can only be resumed to hang.\<close>

definition frozen :: "nat \<Rightarrow> runtime \<Rightarrow> bool" where
  "frozen n s \<longleftrightarrow> n \<in> used s \<and>
     (\<forall>f \<in># senders n (frames s). syncs f \<and> (f \<in> set (stack s) \<longrightarrow> n \<notin> alive s))"

lemma frozen_intro:
  assumes "frozen n s" "used s \<subseteq> used s'" "senders n (frames s') \<subseteq># senders n (frames s)"
    "\<And>f. f \<in> set (stack s') \<Longrightarrow> sender f = Some n \<Longrightarrow> n \<in> alive s' \<Longrightarrow> f \<in> set (stack s) \<and> n \<in> alive s"
  shows "frozen n s'"
proof -
  have "f \<in># senders n (frames s)" if "f \<in># senders n (frames s')" for f
    using that assms(3) by (rule mset_subset_eqD [rotated])
  moreover have "sender f = Some n" if "f \<in># senders n (frames s')" for f
    using that by (simp add: senders_member)
  ultimately show ?thesis using assms(1,2,4) unfolding frozen_def by blast
qed

lemma advances_frozen:
  "advances ctx s f gs hs l \<Longrightarrow> sender f = Some n \<Longrightarrow> syncs f \<Longrightarrow> n \<notin> alive s \<Longrightarrow> gs = [] \<and> hs = [] \<and> l = alive s"
  "advances ctx s f gs hs l \<Longrightarrow> sender f \<noteq> Some n \<Longrightarrow>
    senders n (mset gs) = {#} \<and> senders n (mset hs) = {#} \<and> (n \<in> l \<longrightarrow> n \<in> alive s)"
  by (cases rule: advances.cases, assumption; simp add: syncs_def; fail)+

lemma awaits_frozen:
  "awaits ctx f g ps \<Longrightarrow> sender f \<noteq> Some n \<Longrightarrow> senders n {#g#} = {#}"
  "awaits ctx f g ps \<Longrightarrow> sender f = Some n \<Longrightarrow> syncs f \<Longrightarrow> n \<notin> alive s \<Longrightarrow> hanging s f"
  by (cases rule: awaits.cases, assumption; simp add: syncs_def hanging_def; fail)+

lemma senders_empty_member: "senders n (mset gs) = {#} \<Longrightarrow> f \<in> set gs \<Longrightarrow> sender f \<noteq> Some n"
  by (induction gs) (auto split: if_splits)

lemma steps_frozen:
  assumes "steps ctx s a s'" "frozen n s" "stack s = [] \<Longrightarrow> alive s = {}"
  shows "frozen n s' \<and> outbox s' n = outbox s n"
  using assms(1)
proof (cases rule: steps.cases)
  case (disconnects m)
  then show ?thesis using frozen_intro [OF assms(2), of s'] by (simp add: frames_def)
next
  case (completes f)
  then have "frames s' = frames s" by (auto simp: frames_def dest!: multi_member_split)
  then show ?thesis using frozen_intro [OF assms(2), of s'] completes by simp
next
  case (arrives m)
  then have "m \<noteq> n" using assms(2) by (auto simp: frozen_def)
  with arrives have "senders n (frames s') = senders n (frames s)"
    by (auto simp: frames_def dest!: multi_member_split)
  then show ?thesis using frozen_intro [OF assms(2), of s'] arrives by auto
next
  case (picks f fs)
  then show ?thesis using frozen_intro [OF assms(2), of s'] assms(3) by (simp add: frames_def)
next
  case (run_waits fs)
  then show ?thesis using frozen_intro [OF assms(2), of s'] by (simp add: frames_def)
next
  case (runs_on f fs gs hs l)
  show ?thesis
  proof (cases "sender f = Some n")
    case True
    then have "syncs f \<and> n \<notin> alive s" using assms(2) runs_on(3) by (auto simp: frozen_def frames_def)
    then have "gs = [] \<and> hs = [] \<and> l = alive s" using advances_frozen(1) [OF runs_on(4) True] by simp
    then show ?thesis using frozen_intro [OF assms(2), of s'] runs_on by (simp add: frames_def)
  next
    case False
    note * = advances_frozen(2) [OF runs_on(4) False]
    then show ?thesis using frozen_intro [OF assms(2), of s'] runs_on False senders_empty_member [of n gs]
      by (auto simp: frames_def)
  qed
next
  case (suspends f fs g ps)
  have "sender f \<noteq> Some n"
    using awaits_frozen(2) [OF suspends(5), of n s] assms(2) suspends(3,4) by (auto simp: frozen_def frames_def)
  then show ?thesis
    using frozen_intro [OF assms(2), of s'] awaits_frozen(1) [OF suspends(5), of n] suspends
    by (auto simp: frames_def hand_over_sender split: if_splits)
next
  case (goes_on f fs g ps)
  have "sender f \<noteq> Some n"
    using awaits_frozen(2) [OF goes_on(5), of n s] assms(2) goes_on(3,4) by (auto simp: frozen_def frames_def)
  then show ?thesis
    using frozen_intro [OF assms(2), of s'] awaits_frozen(1) [OF goes_on(5), of n] goes_on
    by (auto simp: frames_def hand_over_sender split: if_splits)
next
  case (dangles f fs)
  then show ?thesis using frozen_intro [OF assms(2), of s'] by (simp add: frames_def)
qed

lemma runs_frozen:
  "runs ctx s as s' \<Longrightarrow> runtime_reaches ctx s \<Longrightarrow> frozen n s \<Longrightarrow> frozen n s' \<and> outbox s' n = outbox s n"
proof (induction rule: runs.induct)
  case runs_nil
  then show ?case by simp
next
  case (runs_snoc as s1 a s2)
  then show ?case
    using steps_frozen [OF runs_snoc.hyps(2)] runtime_idle [OF runtime_reaches_runs [OF _ runs_snoc.hyps(1)]] by auto
qed

lemma detached_frozen:
  assumes "runtime_reaches ctx s" "f \<in> set (ready s) \<or> f \<in># blocked s" "syncs f" "stream_of f = Some n"
  shows "frozen n s"
proof -
  have o: "orderly ctx s" by (rule runtime_reaches_orderly [OF assms(1)])
  have f: "sender f = Some n" using assms(3,4) by (cases f) (simp_all add: syncs_def)
  have "f \<in># mset (ready s) + blocked s" using assms(2) by auto
  from multi_member_split [OF this] obtain r where r: "mset (ready s) + blocked s = add_mset f r" ..
  then have all: "senders n (frames s) = add_mset f (senders n r + senders n (mset (stack s)))"
    using f by (simp add: frames_def)
  moreover have "size (senders n (frames s)) \<le> 1" "n \<notin> used s \<longrightarrow> senders n (frames s) = {#}"
    using o [unfolded orderly_def, rule_format, of n] by simp_all
  ultimately have "senders n r = {#}" "senders n (mset (stack s)) = {#}" "n \<in> used s" by auto
  then show ?thesis
    using all f assms(3) senders_empty_member [of n "stack s" f] by (auto simp: frozen_def)
qed

section \<open>A run\<close>

definition sample_app :: app where
  "sample_app = \<lparr>app_sha256 = id, app_Base64Escape = ref_Base64Escape, app_handshake_proto = sample_proto,
     app_header_proto = sample_header_proto, app_no_pubkey = \<lparr>pubkey_data = []\<rparr>,
     app_pubkey = \<lparr>pubkey_data = [3, 4]\<rparr>, app_syncer = \<lparr>syncer_messages = [sample_message]\<rparr>\<rparr>"

text \<open>A handshake that fills the whole buffer.\<close>

definition full_handshake :: bytes where
  "full_handshake = encode_fields [0] (replicate 1022 65)"

lemma full_handshake_length: "length full_handshake = kHandshakeMessageMaxSize"
proof -
  have "length (encode_varuint 0) = 1" by code_simp
  then show ?thesis by (simp add: full_handshake_def encode_fields_def kHandshakeMessageMaxSize_def)
qed

lemma full_handshake_parses: "\<exists>h. ParseFromArray sample_proto full_handshake = Some h"
  using decode_encode_fields [of "[0]" "replicate 1022 65"]
  by (simp add: full_handshake_def sample_proto_def)

definition runtime_state :: "frame list \<Rightarrow> frame multiset \<Rightarrow> frame list \<Rightarrow> nat set \<Rightarrow> bytes list \<Rightarrow> runtime" where
  "runtime_state r b k l out = \<lparr>running = True, valid = {0}, alive = l, ready = r, blocked = b, stack = k,
     dangling = False, used = {0}, outbox = (\<lambda>_. [])(0 := out)\<rparr>"

lemma runtime_reaches_step: "runtime_reaches ctx s \<Longrightarrow> steps ctx s a s' \<Longrightarrow> runtime_reaches ctx s'"
  unfolding runtime_reaches_def by (blast intro: runs_snoc)

lemma runtime_reaches_advance:
  "runtime_reaches ctx (runtime_state r b (f # k) l out) \<Longrightarrow>
    advances ctx (runtime_state r b (f # k) l out) f gs hs l' \<Longrightarrow>
    runtime_reaches ctx (runtime_state (r @ hs) b (gs @ k) l' out)"
  using runtime_reaches_step [OF _ steps.runs_on, of ctx "runtime_state r b (f # k) l out" f k gs hs l']
  by (simp add: runtime_state_def)

lemma runtime_reaches_goes_on:
  assumes "runtime_reaches ctx (runtime_state r b (f # k) l out)" "awaits ctx f g ps" "stream_of f = Some 0"
    "refers f \<Longrightarrow> 0 \<in> l"
  shows "runtime_reaches ctx (runtime_state r b (g # k) l (out @ ps))"
    and "runtime_reaches ctx (runtime_state r (add_mset g b) k l (out @ ps))"
proof -
  have "\<not> hanging (runtime_state r b (f # k) l out) f"
    using assms(3,4) by (auto simp: hanging_def runtime_state_def)
  then show "runtime_reaches ctx (runtime_state r b (g # k) l (out @ ps))"
    "runtime_reaches ctx (runtime_state r (add_mset g b) k l (out @ ps))"
    using runtime_reaches_step [OF assms(1) steps.goes_on, of f k g ps]
      runtime_reaches_step [OF assms(1) steps.suspends, of f k g ps] assms(2,3)
    by (simp_all add: runtime_state_def)
qed

lemma nothing_sent: "(\<lambda>_. [])(0 := []) = (\<lambda>_. [])"
  by auto

lemma sample_received: "runtime_reaches ctx (runtime_state [] {#} [Received 0] {} [])"
proof -
  have "runtime_reaches ctx start_state" unfolding runtime_reaches_def by (blast intro: runs_nil)
  then have "runtime_reaches ctx (start_state\<lparr>ready := [], stack := [Run]\<rparr>)"
    by (rule runtime_reaches_step [OF _ steps.picks]) (simp_all add: start_state_def)
  then have "runtime_reaches ctx (start_state\<lparr>ready := [], blocked := {#Run#}\<rparr>)"
    using runtime_reaches_step [OF _ steps.run_waits, of ctx "start_state\<lparr>ready := [], stack := [Run]\<rparr>" "[]"]
    by (simp add: start_state_def)
  then have "runtime_reaches ctx (runtime_state [Received 0] {#} [] {} [])"
    using runtime_reaches_step [OF _ steps.arrives, of ctx "start_state\<lparr>ready := [], blocked := {#Run#}\<rparr>" 0]
    by (simp add: start_state_def runtime_state_def nothing_sent)
  then show ?thesis
    using runtime_reaches_step [OF _ steps.picks, of ctx "runtime_state [Received 0] {#} [] {} []" "Received 0" "[]"]
    by (simp add: runtime_state_def)
qed

lemma sample_before_sync:
  "runtime_reaches sample_app (runtime_state [Handle 0] {#} [Before_sync 0, Run] {0} [own_handshake sample_app])"
proof -
  obtain h where h: "ParseFromArray sample_proto full_handshake = Some h" using full_handshake_parses ..
  have "runtime_reaches sample_app (runtime_state [] {#} [Start 0, Run] {} [])"
    using runtime_reaches_advance [OF sample_received received_calls] by (simp add: runtime_state_def)
  then have "runtime_reaches sample_app (runtime_state [] {#} [Negotiate 0, Run] {} [])"
    by (rule runtime_reaches_advance [OF _ starts, simplified, unfolded runtime_state_def, simplified, folded runtime_state_def])
  from runtime_reaches_goes_on(1) [OF this handshake_written]
  have "runtime_reaches sample_app (runtime_state [] {#} [Handshake_sent 0, Run] {} [own_handshake sample_app])" by simp
  from runtime_reaches_goes_on(1) [OF this handshake_received [OF full_handshake_length]]
  have "runtime_reaches sample_app (runtime_state [] {#} [Handshake_read 0 full_handshake, Run] {} [own_handshake sample_app])"
    by simp
  from runtime_reaches_advance [OF this negotiate_succeeds, of h] h
  have "runtime_reaches sample_app (runtime_state [] {#} [Before_handle 0, Run] {0} [own_handshake sample_app])"
    by (simp add: sample_app_def runtime_state_def)
  from runtime_reaches_advance [OF this posts_handle] show ?thesis by (simp add: runtime_state_def)
qed

lemma sample_suspended:
  "runtime_reaches sample_app (runtime_state [Handle 0] {#Sync_data 0 sample_message []#} [Spin 0, Run] {0}
     [own_handshake sample_app, SerializeToArray sample_header_proto (message_hdr sample_message)])"
proof -
  have "runtime_reaches sample_app (runtime_state [Handle 0] {#} [At_sync 0, Spin 0, Run] {0} [own_handshake sample_app])"
    using runtime_reaches_advance [OF sample_before_sync calls_sync] by (simp add: runtime_state_def)
  from runtime_reaches_advance [OF this begins_sync]
  have "runtime_reaches sample_app (runtime_state [Handle 0] {#} [Sync_loop 0 [sample_message], Spin 0, Run] {0}
      [own_handshake sample_app])"
    by (simp add: runtime_state_def sample_app_def)
  from runtime_reaches_goes_on(2) [OF this header_written, of sample_message "[]"]
  show ?thesis by (simp add: next_message_fresh sample_app_def del: next_message.simps)
qed

section \<open>Properties\<close>

text \<open>C11: The coroutines with their data refine the executor: every run of the program, with all local
  variables, packets and answers of the libraries, is a run of the control flow alone, in which the
  world acts in the same order and the thread makes at most the same steps. So whatever holds of all
  executions of the executor holds of the program.\<close>

theorem runtime_refines_executor:
  "runs ctx start_state as s \<Longrightarrow> \<exists>bs. execs multiplexer_state bs (project s) \<and>
    filter (\<lambda>b. b \<noteq> Thread) bs = map (map_actor place) (filter (\<lambda>a. a \<noteq> Thread) as)"
  using runs_follow [of ctx start_state] by (simp add: project_start)

theorem runtime_refines_executor_witness:
  "\<exists>bs. execs multiplexer_state bs (project (start_state\<lparr>ready := [], stack := [Run]\<rparr>)) \<and>
    filter (\<lambda>b. b \<noteq> Thread) bs = map (map_actor place) (filter (\<lambda>a. a \<noteq> Thread) ([] @ [Thread]))"
proof (rule runtime_refines_executor [of sample_app])
  have "steps sample_app start_state Thread (start_state\<lparr>ready := [], stack := [Run]\<rparr>)"
    by (rule steps.picks) (simp_all add: start_state_def)
  from runs_snoc [OF runs_nil this]
  show "runs sample_app start_state ([] @ [Thread]) (start_state\<lparr>ready := [], stack := [Run]\<rparr>)" .
qed

text \<open>C4: What a stream carries, whatever the interleaving of the coroutines, the world and the answers it
  gives: the own handshake, then copies of the packets that one \<open>sync\<close> writes, the last copy possibly cut
  off. Packets of different writers never mix, for at any time at most one coroutine of a stream can
  write to it; the mutex of the connection is never contended.\<close>

theorem connection_output:
  assumes "runtime_reaches ctx s" and "connection_contact c = fresh_contact (app_no_pubkey ctx)"
  shows "(\<exists>k rest. outbox s n @ rest =
      own_handshake ctx # concat (replicate k (batch (app_header_proto ctx) (app_syncer ctx) c Full))) \<and>
    size (senders n (frames s)) \<le> 1"
proof -
  have "batch (app_header_proto ctx) (app_syncer ctx) c Full = packets ctx (syncer_messages (app_syncer ctx))"
    by (simp add: batch_def packets_def selected_def assms(2) fresh_contact_def)
  then show ?thesis
    using runtime_reaches_orderly [OF assms(1)] unfolding orderly_def complete_def rounds_def by metis
qed

theorem connection_output_witness:
  "(\<exists>k rest. [own_handshake sample_app, SerializeToArray sample_header_proto (message_hdr sample_message)] @ rest =
      own_handshake sample_app # concat (replicate k (batch sample_header_proto \<lparr>syncer_messages = [sample_message]\<rparr>
        \<lparr>connection_stream = queue_stream, connection_contact = fresh_contact \<lparr>pubkey_data = []\<rparr>\<rparr> Full)))"
  using connection_output [OF sample_suspended, of "\<lparr>connection_stream = queue_stream,
      connection_contact = fresh_contact \<lparr>pubkey_data = []\<rparr>\<rparr>" 0, THEN conjunct1]
  by (simp add: sample_app_def runtime_state_def)

text \<open>C5: A synchronisation that waits once is lost: when \<open>periodic_sync\<close>, or \<open>sync\<close> inside it, is queued or
  suspended, at whatever place, then in every continuation not one more packet is written to the stream
  of its connection. It can only be resumed after the end of the connection.\<close>

theorem suspended_sync_is_silent:
  assumes "runtime_reaches ctx s" and "f \<in> set (ready s) \<or> f \<in># blocked s"
    and "place f \<in> {Periodic_sync n, Syncing n}" and "runs ctx s as s'"
  shows "outbox s' n = outbox s n"
proof -
  have "syncs f" "stream_of f = Some n" using assms(3) by (cases f; simp add: syncs_def)+
  then have "frozen n s" by (rule detached_frozen [OF assms(1,2)])
  then show ?thesis using runs_frozen [OF assms(4,1)] by simp
qed

theorem suspended_sync_is_silent_witness:
  "outbox (runtime_state [Handle 0] {#Sync_data 0 sample_message []#} [Spin 0, Run] {0}
      [own_handshake sample_app, SerializeToArray sample_header_proto (message_hdr sample_message)]\<lparr>valid := {}\<rparr>) 0 =
    outbox (runtime_state [Handle 0] {#Sync_data 0 sample_message []#} [Spin 0, Run] {0}
      [own_handshake sample_app, SerializeToArray sample_header_proto (message_hdr sample_message)]) 0"
proof (rule suspended_sync_is_silent [OF sample_suspended, where f = "Sync_data 0 sample_message []"])
  have "steps sample_app (runtime_state [Handle 0] {#Sync_data 0 sample_message []#} [Spin 0, Run] {0}
      [own_handshake sample_app, SerializeToArray sample_header_proto (message_hdr sample_message)]) (Disconnect 0)
    (runtime_state [Handle 0] {#Sync_data 0 sample_message []#} [Spin 0, Run] {0}
      [own_handshake sample_app, SerializeToArray sample_header_proto (message_hdr sample_message)]\<lparr>valid := {}\<rparr>)"
    using steps.disconnects [of 0 "runtime_state [Handle 0] {#Sync_data 0 sample_message []#} [Spin 0, Run] {0}
      [own_handshake sample_app, SerializeToArray sample_header_proto (message_hdr sample_message)]" sample_app]
    by (simp add: runtime_state_def)
  from runs_snoc [OF runs_nil this]
  show "runs sample_app (runtime_state [Handle 0] {#Sync_data 0 sample_message []#} [Spin 0, Run] {0}
      [own_handshake sample_app, SerializeToArray sample_header_proto (message_hdr sample_message)]) ([] @ [Disconnect 0])
    (runtime_state [Handle 0] {#Sync_data 0 sample_message []#} [Spin 0, Run] {0}
      [own_handshake sample_app, SerializeToArray sample_header_proto (message_hdr sample_message)]\<lparr>valid := {}\<rparr>)" .
qed (simp_all add: runtime_state_def)

text \<open>C14: When \<open>co_spawn\<close> queues \<open>periodic_sync\<close> instead of running it at once, the handshake is all that the
  program ever sends on a connection: no message leaves it.\<close>

theorem queued_sync_sends_no_message:
  assumes "runtime_reaches ctx s" and "stack s = Before_sync n # fs"
    and "runs ctx (s\<lparr>stack := [Spin n] @ fs, ready := ready s @ [At_sync n], alive := alive s\<rparr>) as s'"
  shows "outbox s' n = [own_handshake ctx]"
proof -
  let ?t = "s\<lparr>stack := [Spin n] @ fs, ready := ready s @ [At_sync n], alive := alive s\<rparr>"
  have t: "runtime_reaches ctx ?t"
    by (rule runtime_reaches_step [OF assms(1) steps.runs_on [OF assms(2) posts_sync]])
  have "fits ctx (Before_sync n) (outbox s n)"
    using runtime_reaches_orderly [OF assms(1)] assms(2) by (auto simp: orderly_def frames_def senders_member)
  then have "outbox ?t n = [own_handshake ctx]" by (simp add: fits_def)
  moreover have "frozen n ?t"
    by (rule detached_frozen [OF t, of "At_sync n"]) (simp_all add: syncs_def)
  ultimately show ?thesis using runs_frozen [OF assms(3) t] by simp
qed

theorem queued_sync_sends_no_message_witness:
  "outbox (runtime_state [Handle 0] {#} [Before_sync 0, Run] {0} [own_handshake sample_app]
      \<lparr>stack := [Spin 0] @ [Run], ready := [Handle 0] @ [At_sync 0], alive := {0}\<rparr>) 0 = [own_handshake sample_app]"
proof (rule queued_sync_sends_no_message [OF sample_before_sync, of 0 "[Run]" "[]"])
  show "stack (runtime_state [Handle 0] {#} [Before_sync 0, Run] {0} [own_handshake sample_app]) = [Before_sync 0, Run]"
    by (simp add: runtime_state_def)
qed (simp add: runtime_state_def runs_nil)

end
