(* ===== verification/Peers.thy ===== *)
theory Peers
  imports Runtime
begin

text \<open>
  Programs that talk to each other: the runtime of \<open>Runtime\<close> when each buffer that \<open>negotiate\<close> reads holds
  what a peer that runs the same program has sent, as \<open>net/net.h\<close> promises of a stream.
\<close>

section \<open>Runs among peers\<close>

text \<open>The receive buffer of 1024 bytes with a packet at its begin.\<close>

definition padded :: "bytes \<Rightarrow> bytes" where
  "padded packet = packet @ replicate (kHandshakeMessageMaxSize - length packet) 0"

text \<open>A peer runs the same program, with its own keys.\<close>

definition peer_of :: "app \<Rightarrow> app \<Rightarrow> bool" where
  "peer_of ctx ctx' \<longleftrightarrow> app_handshake_proto ctx' = app_handshake_proto ctx \<and>
     length (own_handshake ctx') < kHandshakeMessageMaxSize"

definition from_peers :: "app \<Rightarrow> runtime \<Rightarrow> bool" where
  "from_peers ctx s \<longleftrightarrow> (\<forall>n buffer. Handshake_read n buffer \<in># frames s \<longrightarrow>
     (\<exists>ctx'. peer_of ctx ctx' \<and> buffer = padded (own_handshake ctx')))"

inductive peer_runs :: "app \<Rightarrow> runtime \<Rightarrow> bool" for ctx where
  peers_start: "peer_runs ctx start_state"
| peers_step: "peer_runs ctx s \<Longrightarrow> steps ctx s a s' \<Longrightarrow> from_peers ctx s' \<Longrightarrow> peer_runs ctx s'"

section \<open>No connection\<close>

lemma padded_handshake_rejected:
  assumes "proto_api (app_handshake_proto ctx)" "peer_of ctx ctx'"
  shows "ParseFromArray (app_handshake_proto ctx) (padded (own_handshake ctx')) = None"
proof -
  obtain k where "kHandshakeMessageMaxSize - length (own_handshake ctx') = Suc k"
    using assms(2) by (cases "kHandshakeMessageMaxSize - length (own_handshake ctx')") (auto simp: peer_of_def)
  then show ?thesis
    using assms(2) proto_api.padded_rejected [OF assms(1)]
    by (simp add: padded_def own_handshake_def peer_of_def del: replicate_Suc)
qed

lemma peer_runs_reaches: "peer_runs ctx s \<Longrightarrow> runtime_reaches ctx s"
  by (induction rule: peer_runs.induct)
    (auto simp: runtime_reaches_def intro: runs_nil runs_snoc)

lemma peer_runs_from_peers: "peer_runs ctx s \<Longrightarrow> from_peers ctx s"
  by (cases rule: peer_runs.cases, assumption) (simp_all add: from_peers_def frames_def start_state_def)

text \<open>The frames of a stream that has no connection.\<close>

fun early :: "frame \<Rightarrow> bool" where
  "early Run = True"
| "early (Received n) = True"
| "early (Start n) = True"
| "early (Negotiate n) = True"
| "early (Handshake_sent n) = True"
| "early (Handshake_read n buffer) = True"
| "early _ = False"

definition unconnected :: "app \<Rightarrow> runtime \<Rightarrow> bool" where
  "unconnected ctx s \<longleftrightarrow> (\<forall>f \<in># frames s. early f) \<and> alive s = {} \<and> \<not> dangling s \<and>
     (\<forall>n. outbox s n = [] \<or> outbox s n = [own_handshake ctx])"

lemma early_advances:
  "advances ctx s f gs hs l \<Longrightarrow> early f \<Longrightarrow>
    (\<And>n buffer. f = Handshake_read n buffer \<Longrightarrow> ParseFromArray (app_handshake_proto ctx) buffer = None) \<Longrightarrow>
    list_all early gs \<and> list_all early hs \<and> l = alive s"
  by (cases rule: advances.cases, assumption) auto

lemma early_awaits:
  "awaits ctx f g ps \<Longrightarrow> early f \<Longrightarrow> early g \<and> (ps = [] \<or> (\<exists>n. f = Negotiate n \<and> ps = [own_handshake ctx]))"
  by (cases rule: awaits.cases, assumption) simp_all

lemma early_writes:
  assumes "orderly ctx s" "unconnected ctx s" "awaits ctx f g ps" "f \<in># frames s"
  shows "hand_over (stream_of f) ps (outbox s) n = [] \<or> hand_over (stream_of f) ps (outbox s) n = [own_handshake ctx]"
proof -
  have f: "early f" using assms(2,4) by (simp add: unconnected_def)
  show ?thesis
  proof (cases "ps = []")
    case True
    then have "hand_over (stream_of f) ps (outbox s) n = outbox s n" by (cases "stream_of f") auto
    then show ?thesis using assms(2) by (simp add: unconnected_def)
  next
    case False
    then obtain m where m: "f = Negotiate m" "ps = [own_handshake ctx]" using early_awaits [OF assms(3) f] by auto
    then have "fits ctx (Negotiate m) (outbox s m)"
      using assms(1,4) by (auto simp: orderly_def senders_member)
    then have "outbox s m = []" by (simp add: fits_def)
    then show ?thesis using m assms(2) by (simp add: unconnected_def)
  qed
qed

lemma steps_unconnected:
  assumes "steps ctx s a s'" "unconnected ctx s" "orderly ctx s" "from_peers ctx s" "proto_api (app_handshake_proto ctx)"
  shows "unconnected ctx s'"
  using assms(1)
proof (cases rule: steps.cases)
  case (completes f)
  then have "frames s' = frames s" by (auto simp: frames_def dest!: multi_member_split)
  then show ?thesis using assms(2) completes by (simp add: unconnected_def)
next
  case (arrives m)
  then have "set_mset (frames s') \<subseteq> insert (Received m) (set_mset (frames s))"
    by (auto simp: frames_def dest: in_diffD)
  then show ?thesis using assms(2) arrives by (auto simp: unconnected_def)
next
  case (runs_on f fs gs hs l)
  then have f: "f \<in># frames s" by (simp add: frames_def)
  then have "early f" using assms(2) by (simp add: unconnected_def)
  moreover have "ParseFromArray (app_handshake_proto ctx) buffer = None" if eq: "f = Handshake_read n buffer" for n buffer
  proof -
    obtain ctx' where "peer_of ctx ctx'" "buffer = padded (own_handshake ctx')"
      using eq f assms(4) unfolding from_peers_def by blast
    then show ?thesis using padded_handshake_rejected [OF assms(5)] by simp
  qed
  ultimately have "list_all early gs \<and> list_all early hs \<and> l = alive s"
    by (rule early_advances [OF runs_on(4)])
  then show ?thesis using assms(2) runs_on by (auto simp: unconnected_def frames_def list_all_iff)
next
  case (suspends f fs g ps)
  then have f: "f \<in># frames s" by (simp add: frames_def)
  then have "early g" using early_awaits [OF suspends(5)] assms(2) by (simp add: unconnected_def)
  then show ?thesis
    using assms(2) suspends early_writes [OF assms(3,2) suspends(5) f] by (auto simp: unconnected_def frames_def)
next
  case (goes_on f fs g ps)
  then have f: "f \<in># frames s" by (simp add: frames_def)
  then have "early g" using early_awaits [OF goes_on(5)] assms(2) by (simp add: unconnected_def)
  then show ?thesis
    using assms(2) goes_on early_writes [OF assms(3,2) goes_on(5) f] by (auto simp: unconnected_def frames_def)
next
  case (dangles f fs)
  then have "f \<in># frames s" by (simp add: frames_def)
  then have "early f" using assms(2) by (simp add: unconnected_def)
  then show ?thesis using dangles by (cases f) (simp_all add: hanging_def)
qed (use assms(2) in \<open>auto simp: unconnected_def frames_def\<close>)

lemma peer_runs_unconnected:
  "peer_runs ctx s \<Longrightarrow> proto_api (app_handshake_proto ctx) \<Longrightarrow> unconnected ctx s"
proof (induction rule: peer_runs.induct)
  case peers_start
  then show ?case by (simp add: unconnected_def start_state_def frames_def)
next
  case (peers_step s a s')
  then show ?case
    using steps_unconnected [OF peers_step.hyps(2)] runtime_reaches_orderly [OF peer_runs_reaches [OF peers_step.hyps(1)]]
      peer_runs_from_peers [OF peers_step.hyps(1)] by blast
qed

section \<open>A run among peers\<close>

lemma sample_peer: "peer_of sample_app sample_app"
proof -
  have "length (ref_Base64Escape [3, 4]) = 4" by code_simp
  moreover have "length (own_handshake sample_app) \<le> 10 * length [0 :: u64] + length (ref_Base64Escape [3, 4]) + 1"
    using encode_fields_length [of "[0]" "map (\<lambda>c. word_of_nat (of_char c)) (ref_Base64Escape [3, 4])"]
    by (simp add: own_handshake_def sample_app_def sample_proto_def handshake_to_proto_def handshake_generate_def
        peer_id_from_pubkey_def peer_id_to_base64_def)
  ultimately show ?thesis by (simp add: peer_of_def kHandshakeMessageMaxSize_def)
qed

lemma no_handshake_from_peers: "(\<And>f. f \<in># frames s \<Longrightarrow> \<forall>n buffer. f \<noteq> Handshake_read n buffer) \<Longrightarrow> from_peers ctx s"
  by (auto simp: from_peers_def)

lemma sample_handshake_read:
  "peer_runs sample_app (runtime_state [] {#} [Handshake_read 0 (padded (own_handshake sample_app)), Run] {}
     [own_handshake sample_app])"
proof -
  note step = peers_step [OF _ _ no_handshake_from_peers]
  have "peer_runs sample_app (start_state\<lparr>ready := [], stack := [Run]\<rparr>)"
    by (rule step [OF peers_start steps.picks]) (auto simp: start_state_def frames_def)
  from step [OF this steps.run_waits]
  have "peer_runs sample_app (start_state\<lparr>ready := [], blocked := {#Run#}\<rparr>)"
    by (force simp: start_state_def frames_def)
  from step [OF this steps.arrives [where n = 0]]
  have "peer_runs sample_app (runtime_state [Received 0] {#} [] {} [])"
    by (force simp: start_state_def runtime_state_def nothing_sent frames_def)
  from step [OF this steps.picks]
  have "peer_runs sample_app (runtime_state [] {#} [Received 0] {} [])"
    by (force simp: runtime_state_def frames_def)
  from step [OF this steps.runs_on [OF _ received_calls]]
  have "peer_runs sample_app (runtime_state [] {#} [Start 0, Run] {} [])"
    by (force simp: runtime_state_def frames_def)
  from step [OF this steps.runs_on [OF _ starts]]
  have "peer_runs sample_app (runtime_state [] {#} [Negotiate 0, Run] {} [])"
    by (force simp: runtime_state_def frames_def)
  from step [OF this steps.goes_on [OF _ _ handshake_written]]
  have "peer_runs sample_app (runtime_state [] {#} [Handshake_sent 0, Run] {} [own_handshake sample_app])"
    by (force simp: runtime_state_def frames_def hanging_def)
  moreover have "steps sample_app (runtime_state [] {#} [Handshake_sent 0, Run] {} [own_handshake sample_app]) Thread
      (runtime_state [] {#} [Handshake_read 0 (padded (own_handshake sample_app)), Run] {} [own_handshake sample_app])"
  proof -
    have "length (padded (own_handshake sample_app)) = kHandshakeMessageMaxSize"
      using sample_peer by (simp add: padded_def peer_of_def)
    from steps.goes_on [OF _ _ handshake_received [OF this], of "runtime_state [] {#} [Handshake_sent 0, Run] {}
        [own_handshake sample_app]" 0 "[Run]"]
    show ?thesis by (simp add: runtime_state_def hanging_def)
  qed
  moreover have "from_peers sample_app (runtime_state [] {#} [Handshake_read 0 (padded (own_handshake sample_app)), Run] {}
      [own_handshake sample_app])"
    using sample_peer by (auto simp: from_peers_def frames_def runtime_state_def)
  ultimately show ?thesis by (rule peers_step)
qed

section \<open>Properties\<close>

text \<open>C15: Programs that talk to each other never connect. When every buffer that \<open>negotiate\<close> reads holds the
  handshake of a peer that runs this program, at the begin of the 1024 bytes, then in every run, with
  any number of streams and any interleaving, no connection ever exists, nothing is read or written but
  the handshakes, one on each stream, and none of the dangling references is ever used.\<close>

theorem peers_never_connect:
  assumes "peer_runs ctx s" and "proto_api (app_handshake_proto ctx)"
  shows "alive s = {} \<and> \<not> dangling s \<and> (outbox s n = [] \<or> outbox s n = [own_handshake ctx]) \<and>
    {f \<in> set_mset (frames s). refers f} = {}"
proof -
  have "unconnected ctx s" by (rule peer_runs_unconnected [OF assms])
  moreover have "early f \<Longrightarrow> \<not> refers f" for f by (cases f) simp_all
  ultimately show ?thesis by (auto simp: unconnected_def)
qed

theorem peers_never_connect_witness:
  "peer_runs sample_app (runtime_state [] {#} [Handshake_read 0 (padded (own_handshake sample_app)), Run] {}
      [own_handshake sample_app]) \<and>
    \<not> dangling (runtime_state [] {#} [Handshake_read 0 (padded (own_handshake sample_app)), Run] {}
      [own_handshake sample_app])"
proof -
  have "proto_api (app_handshake_proto sample_app)"
    using sample_proto.proto_api_axioms by (simp add: sample_app_def)
  from peers_never_connect [OF sample_handshake_read this] sample_handshake_read show ?thesis by blast
qed

end
