(* ===== verification/Gatt.thy ===== *)
theory Gatt
  imports Uuid
begin

text \<open>
  Descriptors, characteristics, services and peripherals of \<open>btle/corebluetooth/bt.h\<close>, \<open>types.mm\<close> and the
  \<open>PeripheralDelegate\<close> of \<open>bt.mm\<close>: what they do to the contents of the objects. Objective-C objects are in a
  store with one list for each class and are named by their index, as the wrappers name them by a raw
  pointer. The store says what the objects hold while they live and frees none; which objects live, and
  which wrappers dangle, is the matter of \<open>Lifetime\<close> and \<open>Handles\<close>, and \<open>Building\<close> shows when the two agree.
  A request to CoreBluetooth is an entry of a list.
\<close>

section \<open>The code\<close>

subsection \<open>Properties and permissions\<close>

datatype characteristic_property =
    Broadcast | Read | WriteWithoutResponse | Write | Notify | Indicate | AuthenticatedSignedWrites
  | ExtendedProperties | NotifyEncryptionRequired | IndicateEncryptionRequired | WriteSigned
  | WriteSignedWithoutResponse | WriteAuxiliaries

fun property_value :: "characteristic_property \<Rightarrow> u32" where
  "property_value Broadcast = 1"
| "property_value Read = push_bit 2 1"
| "property_value WriteWithoutResponse = push_bit 3 1"
| "property_value Write = push_bit 4 1"
| "property_value Notify = push_bit 5 1"
| "property_value Indicate = push_bit 6 1"
| "property_value AuthenticatedSignedWrites = push_bit 7 1"
| "property_value ExtendedProperties = push_bit 8 1"
| "property_value NotifyEncryptionRequired = push_bit 9 1"
| "property_value IndicateEncryptionRequired = push_bit 10 1"
| "property_value WriteSigned = push_bit 11 1"
| "property_value WriteSignedWithoutResponse = push_bit 12 1"
| "property_value WriteAuxiliaries = push_bit 13 1"

record permissions =
  perm_read :: bool
  perm_write :: bool

definition as_int :: "permissions \<Rightarrow> int" where
  "as_int p = (if perm_read p then 1 else 0) OR (if perm_write p then 2 else 0)"

subsection \<open>Objects\<close>

text \<open>The value of a descriptor is any Foundation object; a string is kept as its UTF-8 bytes.\<close>

datatype foundation_value = Ns_data bytes | Ns_string bytes | Ns_other

record descriptor_object =
  dsc_uuid :: uuid
  dsc_value :: foundation_value

text \<open>
  A characteristic that the program builds is a \<open>CBMutableCharacteristic\<close>; one that is discovered on a
  peripheral is a plain \<open>CBCharacteristic\<close>, which has no setters. The same holds of services.
\<close>

record characteristic_object =
  chr_mutable :: bool
  chr_uuid :: uuid
  chr_properties :: u32
  chr_value :: "bytes option"
  chr_permissions :: int
  chr_descriptors :: "nat list"

record service_object =
  svc_mutable :: bool
  svc_uuid :: uuid
  svc_primary :: bool
  svc_characteristics :: "nat list"
  svc_included :: "nat list"

record peripheral_object =
  per_identifier :: uuid
  per_state :: nat
  per_services :: "nat list"

record objects =
  dscs :: "descriptor_object list"
  chrs :: "characteristic_object list"
  svcs :: "service_object list"
  pers :: "peripheral_object list"

definition object_at :: "'o list \<Rightarrow> nat \<Rightarrow> 'o outcome" where
  "object_at objs raw = (if raw < length objs then Ret (objs ! raw) else Undef Out_of_bounds)"

text \<open>The loops that copy an array element by element.\<close>

definition push_all :: "nat list \<Rightarrow> nat list" where
  "push_all arr = foldl (\<lambda>objs x. objs @ [x]) [] arr"

subsection \<open>Descriptors\<close>

definition descriptor_from :: "uuid \<Rightarrow> bytes \<Rightarrow> objects \<Rightarrow> nat option \<times> objects" where
  "descriptor_from u v h = (Some (length (dscs h)), h\<lparr>dscs := dscs h @ [\<lparr>dsc_uuid = u, dsc_value = Ns_data v\<rparr>]\<rparr>)"

definition descriptor_value :: "nat \<Rightarrow> objects \<Rightarrow> bytes outcome" where
  "descriptor_value raw h = obind (object_at (dscs h) raw) (\<lambda>dsc. case dsc_value dsc of
       Ns_data bs \<Rightarrow> Ret bs
     | Ns_string bs \<Rightarrow> Ret bs
     | Ns_other \<Rightarrow> Ret [])"

subsection \<open>Characteristics\<close>

definition managed_characteristic ::
  "uuid \<Rightarrow> u32 \<Rightarrow> permissions \<Rightarrow> bytes option \<Rightarrow> objects \<Rightarrow> nat \<times> objects" where
  "managed_characteristic u properties permissions v h =
     (length (chrs h), h\<lparr>chrs := chrs h @ [\<lparr>chr_mutable = True, chr_uuid = u, chr_properties = properties,
        chr_value = v, chr_permissions = as_int permissions, chr_descriptors = []\<rparr>]\<rparr>)"

definition characteristic_from ::
  "uuid \<Rightarrow> u32 \<Rightarrow> permissions \<Rightarrow> bytes \<Rightarrow> objects \<Rightarrow> nat option \<times> objects" where
  "characteristic_from u properties permissions v h =
     (Some (length (chrs h)), h\<lparr>chrs := chrs h @ [\<lparr>chr_mutable = True, chr_uuid = u, chr_properties = properties,
        chr_value = Some v, chr_permissions = as_int permissions, chr_descriptors = []\<rparr>]\<rparr>)"

definition change_characteristic ::
  "nat \<Rightarrow> (characteristic_object \<Rightarrow> characteristic_object) \<Rightarrow> objects \<Rightarrow> objects outcome" where
  "change_characteristic raw f h = obind (object_at (chrs h) raw) (\<lambda>chr.
     if chr_mutable chr then Ret (h\<lparr>chrs := (chrs h)[raw := f chr]\<rparr>) else Throw Objc_exception)"

definition characteristic_set_value :: "nat \<Rightarrow> bytes \<Rightarrow> objects \<Rightarrow> objects outcome" where
  "characteristic_set_value raw v h = change_characteristic raw (\<lambda>chr. chr\<lparr>chr_value := Some v\<rparr>) h"

definition characteristic_value :: "nat \<Rightarrow> objects \<Rightarrow> bytes outcome" where
  "characteristic_value raw h = obind (object_at (chrs h) raw) (\<lambda>chr.
     Ret (case chr_value chr of None \<Rightarrow> [] | Some v \<Rightarrow> v))"

definition characteristic_set_descriptors :: "nat \<Rightarrow> nat list \<Rightarrow> objects \<Rightarrow> objects outcome" where
  "characteristic_set_descriptors raw ds h = (let arr = push_all ds in
     change_characteristic raw (\<lambda>chr. chr\<lparr>chr_descriptors := arr\<rparr>) h)"

definition characteristic_descriptors :: "nat \<Rightarrow> objects \<Rightarrow> nat list outcome" where
  "characteristic_descriptors raw h = obind (object_at (chrs h) raw) (\<lambda>chr. Ret (push_all (chr_descriptors chr)))"

subsection \<open>Services\<close>

definition managed_service :: "uuid \<Rightarrow> bool \<Rightarrow> objects \<Rightarrow> nat \<times> objects" where
  "managed_service u primary h =
     (length (svcs h), h\<lparr>svcs := svcs h @ [\<lparr>svc_mutable = True, svc_uuid = u, svc_primary = primary,
        svc_characteristics = [], svc_included = []\<rparr>]\<rparr>)"

definition managed_service_add :: "nat \<Rightarrow> nat \<Rightarrow> objects \<Rightarrow> objects outcome" where
  "managed_service_add raw chr h = obind (object_at (svcs h) raw) (\<lambda>svc. let
     chars = svc_characteristics svc;
     chars = chars @ [chr] in
     if svc_mutable svc then Ret (h\<lparr>svcs := (svcs h)[raw := svc\<lparr>svc_characteristics := chars\<rparr>]\<rparr>)
     else Throw Objc_exception)"

definition service_characteristics :: "nat \<Rightarrow> objects \<Rightarrow> nat list outcome" where
  "service_characteristics raw h = obind (object_at (svcs h) raw) (\<lambda>svc. Ret (push_all (svc_characteristics svc)))"

definition included_services :: "nat \<Rightarrow> objects \<Rightarrow> nat list outcome" where
  "included_services raw h = obind (object_at (svcs h) raw) (\<lambda>svc. Ret (push_all (svc_included svc)))"

definition is_primary :: "nat \<Rightarrow> objects \<Rightarrow> bool outcome" where
  "is_primary raw h = obind (object_at (svcs h) raw) (\<lambda>svc. Ret (svc_primary svc))"

text \<open>The class \<open>Service\<close> has a list of characteristics of its own beside the pointer.\<close>

record service =
  service_raw :: nat
  own_characteristics :: "nat list"

definition service_from_raw :: "nat \<Rightarrow> service" where
  "service_from_raw raw = \<lparr>service_raw = raw, own_characteristics = []\<rparr>"

definition set_characteristics :: "nat list \<Rightarrow> service \<Rightarrow> service" where
  "set_characteristics chars s = s\<lparr>own_characteristics := chars\<rparr>"

text \<open>
  The getters of the identifier parse what \<open>UUIDString\<close> of the Objective-C object returned and take the
  value of the optional.
\<close>

definition object_uuid :: "(string \<Rightarrow> string option) \<Rightarrow> string \<Rightarrow> uuid outcome" where
  "object_uuid HexStringToBytes UUIDString = obind (uuid_parse HexStringToBytes UUIDString) (\<lambda>u.
     case u of None \<Rightarrow> Throw Bad_optional_access | Some u \<Rightarrow> Ret u)"

subsection \<open>Peripherals\<close>

text \<open>The cast of a number to the enumeration; \<open>None\<close> is a number without an enumerator.\<close>

datatype peripheral_state = Disconnected | Connecting | Connected | Disconnecting

definition to_peripheral_state :: "nat \<Rightarrow> peripheral_state option" where
  "to_peripheral_state n = (if n < 4 then Some ([Disconnected, Connecting, Connected, Disconnecting] ! n) else None)"

record 'a peripheral =
  peripheral_raw :: nat
  peripheral_services :: "service list"
  on_disconnected :: "('a \<Rightarrow> 'a) option"

definition peripheral_from_raw :: "nat \<Rightarrow> 'a peripheral" where
  "peripheral_from_raw raw = \<lparr>peripheral_raw = raw, peripheral_services = [], on_disconnected = None\<rparr>"

definition on_disconnection :: "('a \<Rightarrow> 'a) option \<Rightarrow> 'a peripheral \<Rightarrow> 'a peripheral" where
  "on_disconnection callback p = p\<lparr>on_disconnected := callback\<rparr>"

definition clear_services :: "'a peripheral \<Rightarrow> 'a peripheral" where
  "clear_services p = p\<lparr>peripheral_services := []\<rparr>"

definition add_service :: "service \<Rightarrow> 'a peripheral \<Rightarrow> 'a peripheral" where
  "add_service service p = p\<lparr>peripheral_services := peripheral_services p @ [service]\<rparr>"

definition services :: "'a peripheral \<Rightarrow> objects \<Rightarrow> service list outcome" where
  "services p h = obind (object_at (pers h) (peripheral_raw p)) (\<lambda>prph.
     Ret (foldl (\<lambda>objs svc. objs @ [service_from_raw svc]) [] (per_services prph)))"

definition state_of_peripheral :: "'a peripheral \<Rightarrow> objects \<Rightarrow> peripheral_state option outcome" where
  "state_of_peripheral p h = obind (object_at (pers h) (peripheral_raw p)) (\<lambda>prph.
     Ret (to_peripheral_state (per_state prph)))"

text \<open>Two getters pass on what the object answers: their first argument is its method.\<close>

definition max_write_len :: "(peripheral_object \<Rightarrow> int \<Rightarrow> u64) \<Rightarrow> int \<Rightarrow> 'a peripheral \<Rightarrow> objects \<Rightarrow> u64 outcome" where
  "max_write_len maximumWriteValueLengthForType type p h =
     obind (object_at (pers h) (peripheral_raw p)) (\<lambda>prph. Ret (maximumWriteValueLengthForType prph type))"

definition can_send_write_without_response ::
  "(peripheral_object \<Rightarrow> bool) \<Rightarrow> 'a peripheral \<Rightarrow> objects \<Rightarrow> bool outcome" where
  "can_send_write_without_response canSendWriteWithoutResponse p h =
     obind (object_at (pers h) (peripheral_raw p)) (\<lambda>prph. Ret (canSendWriteWithoutResponse prph))"

text \<open>What a \<open>Peripheral\<close> asks of CoreBluetooth; characteristics and descriptors are passed as pointers.\<close>

datatype request =
    Discover_services nat "uuid list"
  | Discover_characteristics nat "uuid list" nat
  | Discover_descriptors nat nat
  | Read_characteristic nat nat
  | Read_descriptor nat nat
  | Write_characteristic nat bytes nat int
  | Write_descriptor nat bytes nat
  | Set_notify nat bool nat
  | Read_rssi nat

definition discover_services :: "uuid list \<Rightarrow> 'a peripheral \<Rightarrow> request list \<Rightarrow> request list" where
  "discover_services uuids p log = log @ [Discover_services (peripheral_raw p) uuids]"

definition discover_characteristics :: "service \<Rightarrow> uuid list \<Rightarrow> 'a peripheral \<Rightarrow> request list \<Rightarrow> request list" where
  "discover_characteristics service uuids p log =
     log @ [Discover_characteristics (peripheral_raw p) uuids (service_raw service)]"

definition discover_descriptors :: "nat \<Rightarrow> 'a peripheral \<Rightarrow> request list \<Rightarrow> request list" where
  "discover_descriptors chr p log = log @ [Discover_descriptors (peripheral_raw p) chr]"

definition read_characteristic :: "nat \<Rightarrow> 'a peripheral \<Rightarrow> request list \<Rightarrow> request list" where
  "read_characteristic chr p log = log @ [Read_characteristic (peripheral_raw p) chr]"

definition read_descriptor :: "nat \<Rightarrow> 'a peripheral \<Rightarrow> request list \<Rightarrow> request list" where
  "read_descriptor dsc p log = log @ [Read_descriptor (peripheral_raw p) dsc]"

definition write_characteristic :: "nat \<Rightarrow> bytes \<Rightarrow> int \<Rightarrow> 'a peripheral \<Rightarrow> request list \<Rightarrow> request list" where
  "write_characteristic chr v type p log = log @ [Write_characteristic (peripheral_raw p) v chr type]"

definition write_descriptor :: "nat \<Rightarrow> bytes \<Rightarrow> 'a peripheral \<Rightarrow> request list \<Rightarrow> request list" where
  "write_descriptor dsc v p log = log @ [Write_descriptor (peripheral_raw p) v dsc]"

definition set_notify :: "bool \<Rightarrow> nat \<Rightarrow> 'a peripheral \<Rightarrow> request list \<Rightarrow> request list" where
  "set_notify enabled chr p log = log @ [Set_notify (peripheral_raw p) enabled chr]"

definition read_rssi :: "'a peripheral \<Rightarrow> request list \<Rightarrow> request list" where
  "read_rssi p log = log @ [Read_rssi (peripheral_raw p)]"

subsection \<open>The delegate of a peripheral\<close>

text \<open>\<open>parent_\<close> is a plain pointer, which no code sets.\<close>

definition deref :: "'p option \<Rightarrow> ('p \<Rightarrow> 'b outcome) \<Rightarrow> 'b outcome" where
  "deref parent k = (case parent of None \<Rightarrow> Undef Null_dereference | Some p \<Rightarrow> k p)"

definition did_discover_services :: "'a peripheral option \<Rightarrow> nat list \<Rightarrow> 'a peripheral outcome" where
  "did_discover_services parent discovered =
     deref parent (\<lambda>p. Ret (foldl (\<lambda>p svc. add_service (service_from_raw svc) p) (clear_services p) discovered))"

text \<open>The service is a local variable.\<close>

definition did_discover_characteristics :: "nat \<Rightarrow> objects \<Rightarrow> objects outcome" where
  "did_discover_characteristics raw h = obind (object_at (svcs h) raw) (\<lambda>obj. let
     svc = service_from_raw raw;
     chars = push_all (svc_characteristics obj);
     svc = set_characteristics chars svc in
     Ret h)"

definition did_discover_descriptors :: "nat \<Rightarrow> objects \<Rightarrow> objects outcome" where
  "did_discover_descriptors raw h = obind (object_at (chrs h) raw) (\<lambda>obj. let
     ds = push_all (chr_descriptors obj) in
     characteristic_set_descriptors raw ds h)"

definition did_update_characteristic :: "nat \<Rightarrow> objects \<Rightarrow> objects outcome" where
  "did_update_characteristic raw h = obind (characteristic_value raw h) (\<lambda>_. Ret h)"

definition did_update_descriptor :: "nat \<Rightarrow> objects \<Rightarrow> objects outcome" where
  "did_update_descriptor raw h = obind (descriptor_value raw h) (\<lambda>_. Ret h)"

text \<open>Three more wrap their object and drop the wrapper.\<close>

definition did_write_characteristic :: "nat \<Rightarrow> objects \<Rightarrow> objects outcome" where
  "did_write_characteristic raw h = (let chr = raw in Ret h)"

definition did_write_descriptor :: "nat \<Rightarrow> objects \<Rightarrow> objects outcome" where
  "did_write_descriptor raw h = (let dsc = raw in Ret h)"

definition did_update_notification :: "nat \<Rightarrow> objects \<Rightarrow> objects outcome" where
  "did_update_notification raw h = (let chr = raw in Ret h)"

subsection \<open>Identifiers\<close>

text \<open>The helpers of \<open>helpers.h\<close>; \<open>'c\<close> is \<open>CBUUID\<close> and \<open>UUIDWithString\<close> its constructor from a text.\<close>

definition str_to_cbuuid :: "(string \<Rightarrow> 'c) \<Rightarrow> string \<Rightarrow> 'c" where
  "str_to_cbuuid UUIDWithString str = UUIDWithString str"

definition uuids_to_cbuuids :: "(string \<Rightarrow> 'c) \<Rightarrow> (u8 \<Rightarrow> string) \<Rightarrow> uuid list \<Rightarrow> 'c list" where
  "uuids_to_cbuuids UUIDWithString StrFormat_02x uuids = foldl (\<lambda>arr u. let
     str = uuid_to_string StrFormat_02x u;
     cbuuid = UUIDWithString str in
     arr @ [cbuuid]) [] uuids"

section \<open>Facts on the operations\<close>

lemma foldl_snoc: "foldl (\<lambda>objs x. objs @ [x]) acc xs = acc @ xs"
  by (induction xs arbitrary: acc) simp_all

lemma push_all [simp]: "push_all xs = xs"
  by (simp add: push_all_def foldl_snoc)

lemma foldl_map_snoc: "foldl (\<lambda>objs x. objs @ [f x]) acc xs = acc @ map f xs"
  by (induction xs arbitrary: acc) simp_all

lemma add_services:
  "foldl (\<lambda>p svc. add_service (service_from_raw svc) p) p xs =
     p\<lparr>peripheral_services := peripheral_services p @ map service_from_raw xs\<rparr>"
  by (induction xs arbitrary: p) (simp_all add: add_service_def)

lemma uuids_to_cbuuids_map:
  "uuids_to_cbuuids UUIDWithString StrFormat_02x us =
     map (\<lambda>u. str_to_cbuuid UUIDWithString (uuid_to_string StrFormat_02x u)) us"
  by (simp add: uuids_to_cbuuids_def foldl_map_snoc Let_def str_to_cbuuid_def)

text \<open>
  When CoreBluetooth keeps the text, an identifier that is handed to it comes back through the getters.
\<close>

lemma cbuuid_roundtrip:
  assumes "uuid_text HexStringToBytes StrFormat_02x" "uuid_wf u" "\<And>str. UUIDString (UUIDWithString str) = str"
  shows "object_uuid HexStringToBytes (UUIDString (str_to_cbuuid UUIDWithString (uuid_to_string StrFormat_02x u))) = Ret u"
  using uuid_text.uuid_parse_to_string [OF assms(1,2)] by (simp add: object_uuid_def str_to_cbuuid_def assms(3))

lemma service_from_raw_simps [simp]:
  "service_raw (service_from_raw raw) = raw" "own_characteristics (service_from_raw raw) = []"
  by (simp_all add: service_from_raw_def)

lemma object_at_live [simp]: "raw < length objs \<Longrightarrow> object_at objs raw = Ret (objs ! raw)"
  by (simp add: object_at_def)

text \<open>The store of a program that has built nothing.\<close>

definition no_objects :: objects where
  "no_objects = \<lparr>dscs = [], chrs = [], svcs = [], pers = []\<rparr>"

section \<open>Properties\<close>

text \<open>What is discovered on a peripheral is lost. Were its delegate attached and \<open>parent_\<close> set, the cache of
  the peripheral would hold the services just discovered; as it is, the callback dereferences a null
  pointer. But \<open>services\<close> reads the object of CoreBluetooth and not the cache, the wrappers it returns
  have no characteristics of their own, the callback for characteristics fills a local variable, and
  the callback for descriptors calls a setter that a discovered characteristic does not have.\<close>

theorem discovery_is_lost:
  assumes "r < length (pers h)" and "s < length (svcs h)" and "c < length (chrs h)" and "\<not> chr_mutable (chrs h ! c)"
  shows "did_discover_services (None :: 'a peripheral option) discovered = Undef Null_dereference \<and>
    (\<exists>p'. did_discover_services (Some (p :: 'a peripheral)) discovered = Ret p' \<and>
      peripheral_services p' = map service_from_raw discovered \<and> peripheral_raw p' = peripheral_raw p \<and>
      services p' h = services p h) \<and>
    (\<exists>ss. services (p\<lparr>peripheral_raw := r\<rparr>) h = Ret ss \<and> map service_raw ss = per_services (pers h ! r) \<and>
      own_characteristics ` set ss \<subseteq> {[]}) \<and>
    did_discover_characteristics s h = Ret h \<and>
    did_discover_descriptors c h = Throw Objc_exception"
  using assms
  by (auto simp: did_discover_services_def deref_def add_services clear_services_def services_def foldl_map_snoc
      comp_def did_discover_characteristics_def did_discover_descriptors_def
      characteristic_set_descriptors_def change_characteristic_def)

theorem discovery_is_lost_witness:
  "did_discover_descriptors 0 \<lparr>dscs = [], chrs = [\<lparr>chr_mutable = False, chr_uuid = zero_uuid, chr_properties = 2,
      chr_value = None, chr_permissions = 0, chr_descriptors = []\<rparr>], svcs = [\<lparr>svc_mutable = False,
      svc_uuid = zero_uuid, svc_primary = True, svc_characteristics = [0], svc_included = []\<rparr>],
      pers = [\<lparr>per_identifier = zero_uuid, per_state = 2, per_services = [0]\<rparr>]\<rparr> = Throw Objc_exception"
  by (rule discovery_is_lost [where r = 0 and s = 0, THEN conjunct2, THEN conjunct2, THEN conjunct2, THEN conjunct2]) simp_all

end
