(* ===== verification/Corebluetooth.thy ===== *)
theory Corebluetooth
  imports Gatt
begin

text \<open>
  The managers of the CoreBluetooth wrapper: \<open>CentralManager\<close> and \<open>PeripheralManager\<close> of \<open>btle/corebluetooth/bt.h\<close>
  and \<open>bt.mm\<close>, their delegates, and the adapters of \<open>cbtle.h\<close>. What the managers ask CoreBluetooth to do is a
  list of commands. Callbacks are functions on a client state \<open>'a\<close>; an empty \<open>std::function\<close> is \<open>None\<close>.
\<close>

section \<open>Commands and their options\<close>

datatype dict_key =
    AllowDuplicates | ScanSolicitedServiceUUIDs
  | NotifyOnConnection | NotifyOnDisconnection | NotifyOnNotification
  | TxPowerLevel | LocalName | ServiceUUIDs | ManufacturerData | ServiceDataFor uuid
  | OverflowServiceUUIDs | SolicitedServiceUUIDs

datatype dict_value = Yes | Uuids "uuid list" | Data bytes | Name string

type_synonym dict = "dict_key \<rightharpoonup> dict_value"

datatype command =
    Scan "uuid list" dict | Stop_scan | Connect nat dict | Cancel_connect nat
  | Add_service nat | Start_advertising dict | Stop_advertising

definition set_if :: "bool \<Rightarrow> dict_key \<Rightarrow> dict_value \<Rightarrow> dict \<Rightarrow> dict" where
  "set_if b k v d = (if b then d(k \<mapsto> v) else d)"

text \<open>The durations of the scan options, which no code reads, are left out.\<close>

record scan_options =
  allow_dups :: bool
  solicited_services :: "uuid list"

record connect_options =
  notify_on_connection :: bool
  notify_on_disconnection :: bool
  notify_on_notification :: bool

record advertising_options =
  opt_local_name :: string
  include_tx_power_level :: bool
  include_local_name :: bool
  include_device_name :: bool
  opt_service_uuids :: "uuid list"
  opt_manufacturer_data :: bytes
  opt_service_data :: "(uuid \<times> bytes) list"
  overflow_service_uuids :: "uuid list"
  solicited_service_uuids :: "uuid list"

definition scan :: "uuid list \<Rightarrow> scan_options \<Rightarrow> command list \<Rightarrow> command list" where
  "scan service_uuids opts log = (let
     d = Map.empty;
     d = set_if (allow_dups opts) AllowDuplicates Yes d;
     d = set_if (solicited_services opts \<noteq> []) ScanSolicitedServiceUUIDs (Uuids (solicited_services opts)) d in
     log @ [Scan service_uuids d])"

definition stop_scan :: "command list \<Rightarrow> command list" where
  "stop_scan log = log @ [Stop_scan]"

definition connect :: "nat \<Rightarrow> connect_options \<Rightarrow> command list \<Rightarrow> command list" where
  "connect peripheral opts log = (let
     d = Map.empty;
     d = set_if (notify_on_connection opts) NotifyOnConnection Yes d;
     d = set_if (notify_on_disconnection opts) NotifyOnDisconnection Yes d;
     d = set_if (notify_on_notification opts) NotifyOnNotification Yes d in
     log @ [Connect peripheral d])"

definition cancel_connect :: "nat \<Rightarrow> command list \<Rightarrow> command list" where
  "cancel_connect peripheral log = log @ [Cancel_connect peripheral]"

fun set_service_data :: "(uuid \<times> bytes) list \<Rightarrow> dict \<Rightarrow> dict" where
  "set_service_data [] d = d"
| "set_service_data ((u, bs) # sd) d = set_service_data sd (d(ServiceDataFor u \<mapsto> Data bs))"

definition advertising_dict :: "advertising_options \<Rightarrow> dict" where
  "advertising_dict opts = (let
     d = Map.empty;
     d = set_if (include_tx_power_level opts) TxPowerLevel Yes d;
     d = set_if (include_local_name opts) LocalName Yes d;
     d = set_if (include_device_name opts) LocalName Yes d;
     d = set_if (opt_service_uuids opts \<noteq> []) ServiceUUIDs (Uuids (opt_service_uuids opts)) d;
     d = set_if (opt_manufacturer_data opts \<noteq> []) ManufacturerData (Data (opt_manufacturer_data opts)) d;
     d = (if opt_service_data opts \<noteq> [] then set_service_data (opt_service_data opts) d else d);
     d = set_if (overflow_service_uuids opts \<noteq> []) OverflowServiceUUIDs (Uuids (overflow_service_uuids opts)) d;
     d = set_if (solicited_service_uuids opts \<noteq> []) SolicitedServiceUUIDs (Uuids (solicited_service_uuids opts)) d;
     d = set_if (opt_local_name opts \<noteq> []) LocalName (Name (opt_local_name opts)) d in
     d)"

definition start_advertising :: "advertising_options \<Rightarrow> command list \<Rightarrow> command list" where
  "start_advertising opts log = log @ [Start_advertising (advertising_dict opts)]"

definition stop_advertising :: "command list \<Rightarrow> command list" where
  "stop_advertising log = log @ [Stop_advertising]"

definition peripheral_add_service :: "nat \<Rightarrow> command list \<Rightarrow> command list" where
  "peripheral_add_service service log = log @ [Add_service service]"

text \<open>The queries: their first argument is the method of the CoreBluetooth manager \<open>'m\<close>.\<close>

definition central_state :: "('m \<Rightarrow> int) \<Rightarrow> 'm \<Rightarrow> int" where
  "central_state state cmgr = state cmgr"

definition is_scanning :: "('m \<Rightarrow> bool) \<Rightarrow> 'm \<Rightarrow> bool" where
  "is_scanning isScanning cmgr = isScanning cmgr"

definition is_advertising :: "('m \<Rightarrow> bool) \<Rightarrow> 'm \<Rightarrow> bool" where
  "is_advertising isAdvertising mgr = isAdvertising mgr"

section \<open>The central role\<close>

record advertising_data =
  local_name :: string
  service_uuids :: "uuid list"
  manufacturer_data :: bytes

type_synonym 'a discovery_callback = "nat \<Rightarrow> advertising_data \<Rightarrow> 'a \<Rightarrow> 'a"

record 'a central_manager =
  discovered_callback :: "'a discovery_callback option"

definition set_discovered_callback ::
  "'a discovery_callback option \<Rightarrow> 'a central_manager \<Rightarrow> 'a central_manager" where
  "set_discovered_callback callback m = m\<lparr>discovered_callback := callback\<rparr>"

definition on_discovered :: "'a central_manager \<Rightarrow> nat \<Rightarrow> advertising_data \<Rightarrow> 'a \<Rightarrow> 'a" where
  "on_discovered m peripheral data a =
     (case discovered_callback m of None \<Rightarrow> a | Some f \<Rightarrow> f peripheral data a)"

text \<open>The delegate of a \<open>CentralManager\<close>; the loop over the received dictionary keeps nothing of it.\<close>

definition did_discover_peripheral :: "'a central_manager option \<Rightarrow> nat \<Rightarrow> (string \<times> bytes) list \<Rightarrow> 'a \<Rightarrow> 'a outcome" where
  "did_discover_peripheral parent peripheral raw_adv a = (let
     advertised = \<lparr>local_name = [], service_uuids = [], manufacturer_data = []\<rparr> in
     case parent of
       None \<Rightarrow> Undef Null_dereference
     | Some m \<Rightarrow> Ret (on_discovered m peripheral advertised a))"

text \<open>\<open>CentralManagerBase\<close> is initialised with the manager that creates it.\<close>

definition central_delegate_parent :: "'a central_manager \<Rightarrow> 'a central_manager option" where
  "central_delegate_parent m = Some m"

text \<open>
  A second delegate class, \<open>CentralManagerDelegate\<close>, collects what was received in a \<open>std::map\<close> and drops it.
  Its \<open>init\<close> leaves \<open>parent\<close> as the runtime zeroed it. \<open>'s\<close> is \<open>NSString\<close>; \<open>UTF8String\<close> is its method, which
  may return a null pointer, and a \<open>std::string\<close> made of its result ends before the first zero byte.
\<close>

datatype 's adv_value = Ns_data bytes | Ns_string 's | Ns_other

definition c_string :: "bytes option \<Rightarrow> bytes outcome" where
  "c_string p = (case p of None \<Rightarrow> Undef Null_dereference | Some bs \<Rightarrow> Ret (takeWhile (\<lambda>b. b \<noteq> 0) bs))"

definition adv_entry :: "('s \<Rightarrow> bytes option) \<Rightarrow> (bytes \<rightharpoonup> bytes) \<Rightarrow> 's \<times> 's adv_value \<Rightarrow> (bytes \<rightharpoonup> bytes) outcome" where
  "adv_entry UTF8String adv_dict entry = (case entry of (key, val) \<Rightarrow>
     (case val of
        Ns_data str \<Rightarrow> obind (c_string (UTF8String key)) (\<lambda>k. Ret (adv_dict(k \<mapsto> str)))
      | Ns_string nsstr \<Rightarrow> obind (c_string (UTF8String nsstr)) (\<lambda>str.
          obind (c_string (UTF8String key)) (\<lambda>k. Ret (adv_dict(k \<mapsto> str))))
      | Ns_other \<Rightarrow> Ret adv_dict))"

definition collect_discovered ::
  "('s \<Rightarrow> bytes option) \<Rightarrow> 'a central_manager option \<Rightarrow> nat \<Rightarrow> ('s \<times> 's adv_value) list \<Rightarrow> 'a \<Rightarrow> 'a outcome" where
  "collect_discovered UTF8String parent peripheral advertisementData a =
     obind (ofold (adv_entry UTF8String) Map.empty advertisementData) (\<lambda>adv_dict.
       deref parent (\<lambda>m.
         Ret (on_discovered m peripheral \<lparr>local_name = [], service_uuids = [], manufacturer_data = []\<rparr> a)))"

definition collecting_delegate_parent :: "'a central_manager option" where
  "collecting_delegate_parent = None"

section \<open>The peripheral role\<close>

text \<open>Centrals and characteristics are raw pointers.\<close>

record 'a peripheral_manager =
  connect_callback :: "(nat \<Rightarrow> 'a \<Rightarrow> 'a) option"
  disconnect_callback :: "(nat \<Rightarrow> 'a \<Rightarrow> 'a) option"
  subscribe_callback :: "(nat \<Rightarrow> nat \<Rightarrow> 'a \<Rightarrow> 'a) option"
  unsubscribe_callback :: "(nat \<Rightarrow> nat \<Rightarrow> 'a \<Rightarrow> 'a) option"
  read_callback :: "(nat \<Rightarrow> nat \<Rightarrow> 'a \<Rightarrow> 'a) option"
  write_callback :: "(nat \<Rightarrow> nat \<Rightarrow> bytes \<Rightarrow> 'a \<Rightarrow> 'a) option"

definition new_peripheral_manager :: "'a peripheral_manager" where
  "new_peripheral_manager = \<lparr>connect_callback = None, disconnect_callback = None, subscribe_callback = None,
     unsubscribe_callback = None, read_callback = None, write_callback = None\<rparr>"

text \<open>A setter swaps: the caller's function object gets the previous callback.\<close>

definition set_on_connect where
  "set_on_connect callback m = (m\<lparr>connect_callback := callback\<rparr>, connect_callback m)"
definition set_on_disconnect where
  "set_on_disconnect callback m = (m\<lparr>disconnect_callback := callback\<rparr>, disconnect_callback m)"
definition set_on_subscribe where
  "set_on_subscribe callback m = (m\<lparr>subscribe_callback := callback\<rparr>, subscribe_callback m)"
definition set_on_unsubscribe where
  "set_on_unsubscribe callback m = (m\<lparr>unsubscribe_callback := callback\<rparr>, unsubscribe_callback m)"
definition set_on_read where
  "set_on_read callback m = (m\<lparr>read_callback := callback\<rparr>, read_callback m)"
definition set_on_write where
  "set_on_write callback m = (m\<lparr>write_callback := callback\<rparr>, write_callback m)"

definition on_connect where
  "on_connect m central a = (case connect_callback m of None \<Rightarrow> a | Some f \<Rightarrow> f central a)"
definition on_disconnect where
  "on_disconnect m central a = (case disconnect_callback m of None \<Rightarrow> a | Some f \<Rightarrow> f central a)"
definition on_subscribe where
  "on_subscribe m central chr a = (case subscribe_callback m of None \<Rightarrow> a | Some f \<Rightarrow> f central chr a)"
definition on_unsubscribe where
  "on_unsubscribe m central chr a = (case unsubscribe_callback m of None \<Rightarrow> a | Some f \<Rightarrow> f central chr a)"
definition on_read where
  "on_read m central chr a = (case read_callback m of None \<Rightarrow> a | Some f \<Rightarrow> f central chr a)"
definition on_write where
  "on_write m central chr v a = (case write_callback m of None \<Rightarrow> a | Some f \<Rightarrow> f central chr v a)"

text \<open>The events of the delegate, and what it does with them; \<open>parent\<close> is a plain pointer.\<close>

datatype peripheral_event =
    Did_subscribe nat nat
  | Did_unsubscribe nat nat
  | Did_receive_read nat nat
  | Did_receive_writes "(nat \<times> nat \<times> bytes) list"
  | Did_receive_connection nat
  | Did_lose_connection nat
  | Did_update_state | Did_add_service nat | Ready_to_update_subscribers | Will_restore_state
  | Did_start_advertising | Did_open_channel | Did_publish_channel | Did_unpublish_channel
  | Did_close_channel | Did_update_value nat

text \<open>Events about characteristics and services come only when a service was published.\<close>

fun needs_service :: "peripheral_event \<Rightarrow> bool" where
  "needs_service (Did_subscribe c r) = True"
| "needs_service (Did_unsubscribe c r) = True"
| "needs_service (Did_receive_read c r) = True"
| "needs_service (Did_receive_writes ws) = True"
| "needs_service (Did_add_service s) = True"
| "needs_service (Did_update_value r) = True"
| "needs_service _ = False"

fun handle_peripheral_event :: "'a peripheral_manager option \<Rightarrow> peripheral_event \<Rightarrow> 'a \<Rightarrow> 'a outcome" where
  "handle_peripheral_event parent (Did_subscribe c r) a = deref parent (\<lambda>m. Ret (on_subscribe m c r a))"
| "handle_peripheral_event parent (Did_unsubscribe c r) a = deref parent (\<lambda>m. Ret (on_unsubscribe m c r a))"
| "handle_peripheral_event parent (Did_receive_read c r) a = deref parent (\<lambda>m. Ret (on_read m c r a))"
| "handle_peripheral_event parent (Did_receive_writes requests) a =
     ofold (\<lambda>a (c, r, v). deref parent (\<lambda>m. Ret (on_write m c r v a))) a requests"
| "handle_peripheral_event parent (Did_receive_connection c) a = deref parent (\<lambda>m. Ret (on_connect m c a))"
| "handle_peripheral_event parent (Did_lose_connection c) a = deref parent (\<lambda>m. Ret (on_disconnect m c a))"
| "handle_peripheral_event parent Did_update_state a = Ret a"
| "handle_peripheral_event parent (Did_add_service s) a = Ret a"
| "handle_peripheral_event parent Ready_to_update_subscribers a = Ret a"
| "handle_peripheral_event parent Will_restore_state a = Ret a"
| "handle_peripheral_event parent Did_start_advertising a = Ret a"
| "handle_peripheral_event parent Did_open_channel a = Ret a"
| "handle_peripheral_event parent Did_publish_channel a = Ret a"
| "handle_peripheral_event parent Did_unpublish_channel a = Ret a"
| "handle_peripheral_event parent Did_close_channel a = Ret a"
| "handle_peripheral_event parent (Did_update_value r) a = Ret a"

text \<open>
  \<open>PeripheralManagerDelegate\<close> has an \<open>init\<close> without argument, which leaves \<open>parent\<close> as the runtime
  zeroed it; the constructor of \<open>PeripheralManager\<close> calls that one.
\<close>

definition peripheral_delegate_parent :: "'a peripheral_manager \<Rightarrow> 'a peripheral_manager option" where
  "peripheral_delegate_parent m = None"

section \<open>The adapters\<close>

text \<open>The central manager is handed each peripheral in the wrapper class, by its pointer.\<close>

record 'a central_adapter =
  adapter_central :: "'a central_manager"

definition CentralAdapter :: "'a central_adapter" where
  "CentralAdapter = \<lparr>adapter_central = \<lparr>discovered_callback = None\<rparr>\<rparr>"

definition central_start_scanning :: "scan_options \<Rightarrow> command list \<Rightarrow> command list" where
  "central_start_scanning opts log = scan [] opts log"

definition central_stop_scanning :: "command list \<Rightarrow> command list" where
  "central_stop_scanning log = stop_scan log"

definition central_disconnect :: "'p peripheral \<Rightarrow> command list \<Rightarrow> command list" where
  "central_disconnect p log = cancel_connect (peripheral_raw p) log"

definition central_on_discovery :: "'a discovery_callback option \<Rightarrow> 'a central_adapter \<Rightarrow> 'a central_adapter" where
  "central_on_discovery callback a = a\<lparr>adapter_central := set_discovered_callback callback (adapter_central a)\<rparr>"

definition central_connect :: "'p peripheral \<Rightarrow> connect_options \<Rightarrow> command list \<Rightarrow> command list" where
  "central_connect p opts log = connect (peripheral_raw p) opts log"

record 'a peripheral_adapter =
  adapter_peripheral :: "'a peripheral_manager"

definition PeripheralAdapter :: "'a peripheral_adapter" where
  "PeripheralAdapter = \<lparr>adapter_peripheral = new_peripheral_manager\<rparr>"

text \<open>The callback is a copy, so what the swap puts into it is dropped.\<close>

definition adapter_on_connect :: "(nat \<Rightarrow> 'a \<Rightarrow> 'a) option \<Rightarrow> 'a peripheral_adapter \<Rightarrow> 'a peripheral_adapter" where
  "adapter_on_connect callback a = a\<lparr>adapter_peripheral := fst (set_on_connect callback (adapter_peripheral a))\<rparr>"

definition adapter_on_disconnect :: "(nat \<Rightarrow> 'a \<Rightarrow> 'a) option \<Rightarrow> 'a peripheral_adapter \<Rightarrow> 'a peripheral_adapter" where
  "adapter_on_disconnect callback a = a\<lparr>adapter_peripheral := fst (set_on_disconnect callback (adapter_peripheral a))\<rparr>"

definition on_read_request :: "(nat \<Rightarrow> nat \<Rightarrow> 'a \<Rightarrow> 'a) option \<Rightarrow> 'a peripheral_adapter \<Rightarrow> 'a peripheral_adapter" where
  "on_read_request callback a = a\<lparr>adapter_peripheral := fst (set_on_read callback (adapter_peripheral a))\<rparr>"

definition on_write_request ::
  "(nat \<Rightarrow> nat \<Rightarrow> bytes \<Rightarrow> 'a \<Rightarrow> 'a) option \<Rightarrow> 'a peripheral_adapter \<Rightarrow> 'a peripheral_adapter" where
  "on_write_request callback a = a\<lparr>adapter_peripheral := fst (set_on_write callback (adapter_peripheral a))\<rparr>"

definition adapter_start_advertising :: "advertising_options \<Rightarrow> command list \<Rightarrow> command list" where
  "adapter_start_advertising opts log = start_advertising opts log"

definition adapter_add_service :: "nat \<Rightarrow> command list \<Rightarrow> command list" where
  "adapter_add_service service log = peripheral_add_service service log"

definition adapter_stop_advertising :: "command list \<Rightarrow> command list" where
  "adapter_stop_advertising log = stop_advertising log"

section \<open>Facts on the operations\<close>

lemma set_if_apply [simp]: "set_if b k v d x = (if b \<and> x = k then Some v else d x)"
  by (simp add: set_if_def)

lemma set_service_data_apply:
  "set_service_data sd d k = (case k of
     ServiceDataFor u \<Rightarrow> (case map_of (rev sd) u of None \<Rightarrow> d k | Some bs \<Rightarrow> Some (Data bs)) | _ \<Rightarrow> d k)"
proof (induction sd arbitrary: d)
  case Nil
  show ?case by (simp split: dict_key.split)
next
  case (Cons p sd)
  obtain u bs where p: "p = (u, bs)" by (cases p)
  have "set_service_data (p # sd) d k = set_service_data sd (d(ServiceDataFor u \<mapsto> Data bs)) k"
    by (simp add: p)
  also have "\<dots> = (case k of ServiceDataFor u' \<Rightarrow> (case map_of (rev (p # sd)) u' of
      None \<Rightarrow> d k | Some bs \<Rightarrow> Some (Data bs)) | _ \<Rightarrow> d k)"
    unfolding Cons.IH by (cases k) (simp_all add: p map_add_def split: option.split)
  finally show ?case .
qed

lemma write_requests:
  "ofold (\<lambda>a (c, r, v). Ret (k c r v a)) a ws = Ret (foldl (\<lambda>a (c, r, v). k c r v a) a ws)"
  by (induction ws arbitrary: a) (auto split: prod.splits)

lemma write_requests_ignored: "ofold (\<lambda>a (c, r, v). Ret a) a ws = Ret a"
  by (induction ws arbitrary: a) (auto split: prod.splits)

text \<open>The events that use the parent: those with a handler that is not empty.\<close>

fun uses_parent :: "peripheral_event \<Rightarrow> bool" where
  "uses_parent (Did_subscribe c r) = True"
| "uses_parent (Did_unsubscribe c r) = True"
| "uses_parent (Did_receive_read c r) = True"
| "uses_parent (Did_receive_writes requests) = (requests \<noteq> [])"
| "uses_parent (Did_receive_connection c) = True"
| "uses_parent (Did_lose_connection c) = True"
| "uses_parent _ = False"

lemmas callback_defs =
  set_on_connect_def set_on_disconnect_def set_on_subscribe_def set_on_unsubscribe_def set_on_read_def
  set_on_write_def on_connect_def on_disconnect_def on_subscribe_def on_unsubscribe_def on_read_def on_write_def

section \<open>Properties\<close>

text \<open>What \<open>start_advertising\<close> asks for: every entry of the dictionary it passes. The name is there
  exactly when it is not empty or one of the flags for it is set, and a flag without a name puts the
  boolean where CoreBluetooth expects a string; a service has the data that comes last for it.\<close>

theorem advertising_dict_entries:
  "advertising_dict opts LocalName =
     (if opt_local_name opts \<noteq> [] then Some (Name (opt_local_name opts))
      else if include_local_name opts \<or> include_device_name opts then Some Yes else None) \<and>
   advertising_dict opts TxPowerLevel = (if include_tx_power_level opts then Some Yes else None) \<and>
   advertising_dict opts ServiceUUIDs =
     (if opt_service_uuids opts = [] then None else Some (Uuids (opt_service_uuids opts))) \<and>
   advertising_dict opts ManufacturerData =
     (if opt_manufacturer_data opts = [] then None else Some (Data (opt_manufacturer_data opts))) \<and>
   advertising_dict opts (ServiceDataFor u) = map_option Data (map_of (rev (opt_service_data opts)) u) \<and>
   advertising_dict opts OverflowServiceUUIDs =
     (if overflow_service_uuids opts = [] then None else Some (Uuids (overflow_service_uuids opts))) \<and>
   advertising_dict opts SolicitedServiceUUIDs =
     (if solicited_service_uuids opts = [] then None else Some (Uuids (solicited_service_uuids opts))) \<and>
   dom (advertising_dict opts) \<inter>
     {AllowDuplicates, ScanSolicitedServiceUUIDs, NotifyOnConnection, NotifyOnDisconnection, NotifyOnNotification} = {}"
proof -
  have entry: "advertising_dict opts k = (case k of
      LocalName \<Rightarrow> (if opt_local_name opts \<noteq> [] then Some (Name (opt_local_name opts))
        else if include_local_name opts \<or> include_device_name opts then Some Yes else None)
    | TxPowerLevel \<Rightarrow> (if include_tx_power_level opts then Some Yes else None)
    | ServiceUUIDs \<Rightarrow> (if opt_service_uuids opts = [] then None else Some (Uuids (opt_service_uuids opts)))
    | ManufacturerData \<Rightarrow> (if opt_manufacturer_data opts = [] then None else Some (Data (opt_manufacturer_data opts)))
    | ServiceDataFor u \<Rightarrow> map_option Data (map_of (rev (opt_service_data opts)) u)
    | OverflowServiceUUIDs \<Rightarrow>
        (if overflow_service_uuids opts = [] then None else Some (Uuids (overflow_service_uuids opts)))
    | SolicitedServiceUUIDs \<Rightarrow>
        (if solicited_service_uuids opts = [] then None else Some (Uuids (solicited_service_uuids opts)))
    | _ \<Rightarrow> None)" for k
    by (cases k) (simp_all add: advertising_dict_def Let_def set_service_data_apply split: option.split)
  show ?thesis by (simp add: entry dom_def)
qed

text \<open>The delegate as it is made, without a parent.\<close>

lemma events_without_parent:
  "handle_peripheral_event (peripheral_delegate_parent m) event a =
     (if uses_parent event then Undef Null_dereference else Ret a)"
proof (cases event)
  case (Did_receive_writes ws)
  then show ?thesis by (cases ws) (auto simp: peripheral_delegate_parent_def deref_def)
qed (simp_all add: peripheral_delegate_parent_def deref_def)

text \<open>The events of the peripheral role. Were the delegate's \<open>parent\<close> set, each event would call the
  callback that was registered last, with the values of the event, the write requests one by one in their
  order, and do nothing without a callback. But the delegate that \<open>PeripheralManager\<close> creates has no
  parent, so whatever callbacks are set, the first event they are for dereferences a null pointer; only an empty
  array of write requests and the ten events with an empty handler are harmless.\<close>

theorem peripheral_events:
  "handle_peripheral_event (peripheral_delegate_parent m) event a =
     (if uses_parent event then Undef Null_dereference else Ret a) \<and>
   handle_peripheral_event (Some (fst (set_on_subscribe (Some f) m))) (Did_subscribe c r) a = Ret (f c r a) \<and>
   handle_peripheral_event (Some (fst (set_on_unsubscribe (Some f) m))) (Did_unsubscribe c r) a = Ret (f c r a) \<and>
   handle_peripheral_event (Some (fst (set_on_read (Some f) m))) (Did_receive_read c r) a = Ret (f c r a) \<and>
   handle_peripheral_event (Some (fst (set_on_connect (Some g) m))) (Did_receive_connection c) a = Ret (g c a) \<and>
   handle_peripheral_event (Some (fst (set_on_disconnect (Some g) m))) (Did_lose_connection c) a = Ret (g c a) \<and>
   handle_peripheral_event (Some (fst (set_on_write (Some h) m))) (Did_receive_writes ws) a =
     Ret (foldl (\<lambda>a (c, r, v). h c r v a) a ws) \<and>
   handle_peripheral_event (Some new_peripheral_manager) event a = Ret a"
proof (intro conjI)
  show "handle_peripheral_event (Some (fst (set_on_write (Some h) m))) (Did_receive_writes ws) a =
     Ret (foldl (\<lambda>a (c, r, v). h c r v a) a ws)"
    by (simp add: deref_def callback_defs write_requests)
  show "handle_peripheral_event (Some new_peripheral_manager) event a = Ret a"
    by (cases event) (simp_all add: deref_def callback_defs new_peripheral_manager_def write_requests_ignored)
  show "handle_peripheral_event (peripheral_delegate_parent m) event a =
     (if uses_parent event then Undef Null_dereference else Ret a)"
    by (rule events_without_parent)
qed (simp_all add: deref_def callback_defs)

text \<open>
  What \<open>CentralManagerDelegate\<close> collects when its texts convert to bytes without a zero: an entry for each
  key with data or text, the last one where keys coincide, and no other.
\<close>

fun received :: "('s \<Rightarrow> bytes) \<Rightarrow> 's \<times> 's adv_value \<Rightarrow> (bytes \<times> bytes) list" where
  "received utf8 (k, Ns_data str) = [(utf8 k, str)]"
| "received utf8 (k, Ns_string s) = [(utf8 k, utf8 s)]"
| "received utf8 (k, Ns_other) = []"

lemma c_string_text: "U s = Some bs \<Longrightarrow> 0 \<notin> set bs \<Longrightarrow> c_string (U s) = Ret bs"
  by (auto simp: c_string_def takeWhile_eq_all_conv)

lemma adv_entries:
  assumes "\<And>s. U s = Some (utf8 s) \<and> 0 \<notin> set (utf8 s)"
  shows "ofold (adv_entry U) d es = Ret (d ++ map_of (rev (concat (map (received utf8) es))))"
proof (induction es arbitrary: d)
  case (Cons e es)
  have "adv_entry U d e = Ret (d ++ map_of (rev (received utf8 e)))"
    using assms by (cases "(utf8, e)" rule: received.cases) (simp_all add: adv_entry_def c_string_text)
  then show ?case by (simp add: Cons.IH)
qed simp

text \<open>Then it drops them: with a parent it would do what the first delegate does, but it has none.\<close>

lemma delegate_drops_entries:
  assumes "\<And>s. U s = Some (utf8 s) \<and> 0 \<notin> set (utf8 s)"
  shows "collect_discovered U collecting_delegate_parent p es a = Undef Null_dereference"
    and "collect_discovered U (Some m) p es a = did_discover_peripheral (Some m) p [] a"
  by (simp_all add: collect_discovered_def adv_entries [OF assms] collecting_delegate_parent_def deref_def
      did_discover_peripheral_def Let_def)

end
