(* ===== verification/Hrafn_Main.thy ===== *)
theory Hrafn_Main
  imports Sync Executor Corebluetooth
begin

text \<open>
  \<open>main\<close> of \<open>src/hrafn.cpp\<close>. It uses a class \<open>Adapter\<close> that can be made without arguments and calls a member
  \<open>on_discovery\<close>, neither of which any file declares; both are parameters on a state \<open>'w\<close>. The random
  generator of libsodium has a state \<open>'r\<close>.
\<close>

section \<open>The code\<close>

record program_context =
  context_keypair :: keypair
  contact_list :: "contact list"
  context_syncer :: syncer
  context_running :: bool

text \<open>The callback appends to the lines of the log.\<close>

definition print_discovery :: "(u8 \<Rightarrow> string) \<Rightarrow> uuid \<Rightarrow> advertising_data \<Rightarrow> string list \<Rightarrow> string list" where
  "print_discovery StrFormat_02x uuid adv out = out @ [''Discovered peripheral: '' @ uuid_to_string StrFormat_02x uuid]"

text \<open>Everything up to the call of \<open>run\<close>: the context, and the executor as \<open>run\<close> finds it.\<close>

definition main_prepares ::
  "('w \<Rightarrow> 'a \<times> 'w) \<Rightarrow> ((uuid \<Rightarrow> advertising_data \<Rightarrow> string list \<Rightarrow> string list) \<Rightarrow> 'a \<Rightarrow> 'w \<Rightarrow> 'w) \<Rightarrow> (u8 \<Rightarrow> string) \<Rightarrow>
   ('r \<Rightarrow> (bytes \<times> bytes) \<times> 'r) \<Rightarrow> 'w \<Rightarrow> 'r \<Rightarrow> coroutine executor \<times> program_context \<times> 'w \<times> 'r" where
  "main_prepares make_adapter on_discovery StrFormat_02x crypto_sign_keypair w r = (let
     (adapter, w) = make_adapter w;
     w = on_discovery (print_discovery StrFormat_02x) adapter w;
     ctx = main_state;
     (keypair, r) = keypair_generate crypto_sign_keypair r;
     app_ctx = \<lparr>context_keypair = keypair, contact_list = [], context_syncer = \<lparr>syncer_messages = []\<rparr>,
       context_running = True\<rparr> in
     (ctx, app_ctx, w, r))"

text \<open>\<open>run\<close> returns when no coroutine runs, is ready or waits; then \<open>main\<close> returns zero.\<close>

definition run_returns :: "'c executor \<Rightarrow> bool" where
  "run_returns s \<longleftrightarrow> stack s = [] \<and> ready s = [] \<and> blocked s = {#}"

definition main_returns :: "coroutine executor \<Rightarrow> int \<Rightarrow> bool" where
  "main_returns ctx result \<longleftrightarrow> (\<exists>as s. execs ctx as s \<and> run_returns s) \<and> result = 0"

section \<open>What the program does\<close>

text \<open>
  Nothing is spawned, so \<open>run\<close> returns at once and in every case: no thread and no event can make a step.
  The context that was made is not looked at again.
\<close>

lemma main_returns_at_once:
  assumes "main_prepares make_adapter on_discovery F crypto_sign_keypair w r = (ctx, app_ctx, w', r')"
  shows "run_returns ctx" and "execs ctx as s \<longleftrightarrow> as = [] \<and> s = ctx" and "main_returns ctx 0"
    and "contact_list app_ctx = []" and "syncer_messages (context_syncer app_ctx) = []"
proof -
  have ctx: "ctx = main_state" "contact_list app_ctx = [] \<and> syncer_messages (context_syncer app_ctx) = []"
    using assms by (auto simp: main_prepares_def Let_def split: prod.splits)
  then show "contact_list app_ctx = []" "syncer_messages (context_syncer app_ctx) = []" by simp_all
  show returns: "run_returns ctx" by (simp add: ctx(1) run_returns_def main_state_def)
  show "execs ctx as s \<longleftrightarrow> as = [] \<and> s = ctx" using main_runs_nothing ctx(1) by blast
  show "main_returns ctx 0" using returns execs_nil [of ctx] by (auto simp: main_returns_def)
qed

end
