(* ===== verification/Lifetime.thy ===== *)
theory Lifetime
  imports Prelude "HOL-Library.Multiset"
begin

text \<open>
  The lifetime of the Objective-C objects behind the wrappers of \<open>btle/corebluetooth/types.mm\<close> and \<open>bt.mm\<close>.
  The files are compiled without automatic reference counting: an object lives as long as its retain
  count is positive, and the program itself never calls \<open>retain\<close> or \<open>release\<close>. \<open>alloc\<close> gives the caller one
  reference, which must be released; the other constructors give one to the autorelease pool; arrays
  and the properties of CoreBluetooth objects retain what they hold. Addresses are not used again.
\<close>

section \<open>Memory\<close>

text \<open>The references that an object holds. A \<open>Leaf\<close> holds none: data, strings, UUIDs, queues.\<close>

datatype body =
    Leaf
  | Array "nat list"
  | Descriptor_body nat "nat option"                             \<comment> \<open>UUID and value\<close>
  | Characteristic_body bool nat "nat option" "nat option"       \<comment> \<open>mutable; UUID, value, descriptors\<close>
  | Service_body bool nat "nat option"                           \<comment> \<open>mutable; UUID, characteristics\<close>
  | Peripheral_body "nat option"                                 \<comment> \<open>services\<close>
  | Manager_body nat                                             \<comment> \<open>queue\<close>

fun opt_list :: "'a option \<Rightarrow> 'a list" where
  "opt_list None = []"
| "opt_list (Some x) = [x]"

fun children :: "body \<Rightarrow> nat list" where
  "children Leaf = []"
| "children (Array xs) = xs"
| "children (Descriptor_body u v) = u # opt_list v"
| "children (Characteristic_body b u v ds) = u # opt_list v @ opt_list ds"
| "children (Service_body b u cs) = u # opt_list cs"
| "children (Peripheral_body ss) = opt_list ss"
| "children (Manager_body q) = [q]"

record cell =
  retain_count :: nat
  cell_body :: body

text \<open>
  A freed object is \<open>None\<close>. References from outside the heap: the autorelease pool, the program, with
  the references it was given and has not released, and CoreBluetooth.
\<close>

record memory =
  cells :: "cell option list"
  pool :: "nat list"
  program :: "nat list"
  framework :: "nat list"

definition no_memory :: memory where
  "no_memory = \<lparr>cells = [], pool = [], program = [], framework = []\<rparr>"

fun lookup :: "cell option list \<Rightarrow> nat \<Rightarrow> cell option" where
  "lookup cs a = (if a < length cs then cs ! a else None)"

declare lookup.simps [simp del]

definition cell_at :: "memory \<Rightarrow> nat \<Rightarrow> cell outcome" where
  "cell_at m a = (case lookup (cells m) a of None \<Rightarrow> Undef Use_after_free | Some c \<Rightarrow> Ret c)"

definition retain :: "nat \<Rightarrow> memory \<Rightarrow> memory outcome" where
  "retain a m = obind (cell_at m a) (\<lambda>c.
     Ret (m\<lparr>cells := (cells m)[a := Some (c\<lparr>retain_count := Suc (retain_count c)\<rparr>)]\<rparr>))"

text \<open>The release of the last reference frees the object and releases what it holds.\<close>

definition weight :: "cell option list \<Rightarrow> nat" where
  "weight cs = sum_list (map (\<lambda>x. case x of None \<Rightarrow> 0 | Some c \<Rightarrow> Suc (retain_count c)) cs)"

lemma weight_update: "a < length cs \<Longrightarrow> cs ! a = Some c \<Longrightarrow>
  weight (cs[a := x]) + Suc (retain_count c) = weight cs + (case x of None \<Rightarrow> 0 | Some c \<Rightarrow> Suc (retain_count c))"
  unfolding weight_def
  by (induction cs arbitrary: a) (auto simp: nth_Cons split: nat.splits)

function release_all :: "nat list \<Rightarrow> cell option list \<Rightarrow> cell option list outcome" where
  "release_all [] cs = Ret cs"
| "release_all (a # as) cs = (case lookup cs a of
     None \<Rightarrow> Undef Use_after_free
   | Some c \<Rightarrow>
       if retain_count c > 1 then release_all as (cs[a := Some (c\<lparr>retain_count := retain_count c - 1\<rparr>)])
       else release_all (children (cell_body c) @ as) (cs[a := None]))"
  by pat_completeness auto

termination
proof (relation "measure (\<lambda>(as, cs). weight cs)", goal_cases)
  case (2 a as cs c)
  then show ?case using weight_update [of a cs c "Some (c\<lparr>retain_count := retain_count c - 1\<rparr>)"]
    by (auto simp: lookup.simps split: if_splits)
next
  case (3 a as cs c)
  then show ?case using weight_update [of a cs c None] by (auto simp: lookup.simps split: if_splits)
qed simp

declare release_all.simps(2) [simp del]

text \<open>
  A new object has one reference, which the caller holds, and retains nothing by itself; \<open>hold\<close> is an
  initializer that retains its arguments.
\<close>

definition new_object :: "body \<Rightarrow> memory \<Rightarrow> nat \<times> memory" where
  "new_object b m = (length (cells m), m\<lparr>cells := cells m @ [Some \<lparr>retain_count = 1, cell_body = b\<rparr>]\<rparr>)"

definition hold :: "body \<Rightarrow> memory \<Rightarrow> (nat \<times> memory) outcome" where
  "hold b m = obind (ofold (\<lambda>m a. retain a m) m (children b)) (\<lambda>m. Ret (new_object b m))"

definition autorelease :: "nat \<Rightarrow> memory \<Rightarrow> memory" where
  "autorelease a m = m\<lparr>pool := pool m @ [a]\<rparr>"

definition owned :: "nat \<Rightarrow> memory \<Rightarrow> memory" where
  "owned a m = m\<lparr>program := program m @ [a]\<rparr>"

definition release :: "nat list \<Rightarrow> memory \<Rightarrow> memory outcome" where
  "release as m = obind (release_all as (cells m)) (\<lambda>cs. Ret (m\<lparr>cells := cs\<rparr>))"

text \<open>An object gets another body; the caller keeps the counts right.\<close>

definition set_body :: "nat \<Rightarrow> body \<Rightarrow> memory \<Rightarrow> memory outcome" where
  "set_body a b m = obind (cell_at m a) (\<lambda>c. Ret (m\<lparr>cells := (cells m)[a := Some (c\<lparr>cell_body := b\<rparr>)]\<rparr>))"

section \<open>The code\<close>

text \<open>
  The constructors of values that nobody but the pool owns: \<open>dataWithBytes\<close>, \<open>stringWithUTF8String\<close>,
  \<open>UUIDWithString\<close>, and \<open>arrayWithCapacity\<close> with \<open>addObject\<close>.
\<close>

definition temporary :: "memory \<Rightarrow> nat \<times> memory" where
  "temporary m = (let (a, m) = new_object Leaf m in (a, autorelease a m))"

definition new_cbuuid :: "memory \<Rightarrow> nat \<times> memory" where
  "new_cbuuid m = (let (str, m) = temporary m in temporary m)"

definition new_array :: "memory \<Rightarrow> nat \<times> memory" where
  "new_array m = (let (a, m) = new_object (Array []) m in (a, autorelease a m))"

definition array_add :: "nat \<Rightarrow> memory \<Rightarrow> nat \<Rightarrow> memory outcome" where
  "array_add arr m x = obind (retain x m) (\<lambda>m. obind (cell_at m arr) (\<lambda>c.
     case cell_body c of
       Array xs \<Rightarrow> set_body arr (Array (xs @ [x])) m
     | _ \<Rightarrow> Throw Objc_exception))"

text \<open>\<open>Descriptor::from\<close>, \<open>Characteristic::from\<close>, \<open>ManagedCharacteristic\<close>, \<open>ManagedService\<close>.\<close>

definition alloc_descriptor :: "memory \<Rightarrow> (nat \<times> memory) outcome" where
  "alloc_descriptor m = (let
     (cbuuid, m) = new_cbuuid m;
     (nsd, m) = temporary m in
     obind (hold (Descriptor_body cbuuid (Some nsd)) m) (\<lambda>(dsc, m). Ret (dsc, owned dsc m)))"

definition alloc_characteristic :: "memory \<Rightarrow> (nat \<times> memory) outcome" where
  "alloc_characteristic m = (let
     (cbuuid, m) = new_cbuuid m;
     (nsd, m) = temporary m in
     obind (hold (Characteristic_body True cbuuid (Some nsd) None) m) (\<lambda>(chr, m). Ret (chr, owned chr m)))"

definition alloc_managed_characteristic :: "bool \<Rightarrow> memory \<Rightarrow> (nat \<times> memory) outcome" where
  "alloc_managed_characteristic has_value m = (let
     (cbuuid, m) = new_cbuuid m;
     (nsd, m) = (if has_value then (let (a, m) = temporary m in (Some a, m)) else (None, m)) in
     obind (hold (Characteristic_body True cbuuid nsd None) m) (\<lambda>(chr, m). Ret (chr, owned chr m)))"

definition alloc_managed_service :: "memory \<Rightarrow> (nat \<times> memory) outcome" where
  "alloc_managed_service m = (let
     (cbuuid, m) = new_cbuuid m in
     obind (hold (Service_body True cbuuid None) m) (\<lambda>(svc, m). Ret (svc, owned svc m)))"

text \<open>The setters. A property retains the new value and releases the old one.\<close>

definition store_value :: "nat \<Rightarrow> memory \<Rightarrow> memory outcome" where
  "store_value chr m = (let (nsd, m) = temporary m in
     obind (cell_at m chr) (\<lambda>c. case cell_body c of
       Characteristic_body True u v ds \<Rightarrow>
         obind (retain nsd m) (\<lambda>m.
         obind (set_body chr (Characteristic_body True u (Some nsd) ds) m) (\<lambda>m.
         release (opt_list v) m))
     | _ \<Rightarrow> Throw Objc_exception))"

definition store_descriptors :: "nat \<Rightarrow> nat list \<Rightarrow> memory \<Rightarrow> memory outcome" where
  "store_descriptors chr descriptors m = (let (arr, m) = new_array m in
     obind (ofold (array_add arr) m descriptors) (\<lambda>m.
     obind (cell_at m chr) (\<lambda>c. case cell_body c of
       Characteristic_body True u v ds \<Rightarrow>
         obind (retain arr m) (\<lambda>m.
         obind (set_body chr (Characteristic_body True u v (Some arr)) m) (\<lambda>m.
         release (opt_list ds) m))
     | _ \<Rightarrow> Throw Objc_exception)))"

text \<open>The elements of an array property; a property that is nil has none.\<close>

definition elements :: "nat option \<Rightarrow> memory \<Rightarrow> nat list outcome" where
  "elements arr m = (case arr of
     None \<Rightarrow> Ret []
   | Some a \<Rightarrow> obind (cell_at m a) (\<lambda>c. case cell_body c of Array xs \<Rightarrow> Ret xs | _ \<Rightarrow> Throw Objc_exception))"

definition wrapped_characteristics :: "nat \<Rightarrow> memory \<Rightarrow> nat list outcome" where
  "wrapped_characteristics svc m = obind (cell_at m svc) (\<lambda>c. case cell_body c of
     Service_body b u cs \<Rightarrow> elements cs m | _ \<Rightarrow> Throw Objc_exception)"

definition store_characteristic :: "nat \<Rightarrow> nat \<Rightarrow> memory \<Rightarrow> memory outcome" where
  "store_characteristic svc chr m = obind (wrapped_characteristics svc m) (\<lambda>xs. let (chars, m) = new_array m in
     obind (ofold (array_add chars) m (xs @ [chr])) (\<lambda>m.
     obind (cell_at m svc) (\<lambda>c. case cell_body c of
       Service_body True u cs \<Rightarrow>
         obind (retain chars m) (\<lambda>m.
         obind (set_body svc (Service_body True u (Some chars)) m) (\<lambda>m.
         release (opt_list cs) m))
     | _ \<Rightarrow> Throw Objc_exception)))"

text \<open>
  The constructors of the managers: the delegate, its queue and the manager of CoreBluetooth; no
  destructor releases them. CoreBluetooth retains a service that it is given and nothing else: a
  pending connection is cancelled when the peripheral is freed.
\<close>

definition alloc_manager :: "memory \<Rightarrow> (nat \<times> memory) outcome" where
  "alloc_manager m = (let
     (delegate, m) = new_object Leaf m;
     m = owned delegate m;
     (queue, m) = new_object Leaf m;
     m = owned queue m in
     obind (hold (Manager_body queue) m) (\<lambda>(mgr, m). Ret (delegate, owned mgr m)))"

definition publish_service :: "nat \<Rightarrow> memory \<Rightarrow> memory outcome" where
  "publish_service svc m = obind (retain svc m) (\<lambda>m. Ret (m\<lparr>framework := framework m @ [svc]\<rparr>))"

definition request_connection :: "nat \<Rightarrow> memory \<Rightarrow> memory outcome" where
  "request_connection prph m = obind (cell_at m prph) (\<lambda>_. Ret m)"

text \<open>The getters give out the addresses of the elements and retain none of them.\<close>

definition wrapped_services :: "nat \<Rightarrow> memory \<Rightarrow> nat list outcome" where
  "wrapped_services prph m = obind (cell_at m prph) (\<lambda>c. case cell_body c of
     Peripheral_body ss \<Rightarrow> elements ss m | _ \<Rightarrow> Throw Objc_exception)"

definition wrapped_descriptors :: "nat \<Rightarrow> memory \<Rightarrow> nat list outcome" where
  "wrapped_descriptors chr m = obind (cell_at m chr) (\<lambda>c. case cell_body c of
     Characteristic_body b u v ds \<Rightarrow> elements ds m | _ \<Rightarrow> Throw Objc_exception)"

section \<open>What CoreBluetooth does\<close>

text \<open>
  It makes the objects it discovers and keeps a reference to each peripheral until it forgets it; the
  services of a peripheral are held by the array that is its property, and a new discovery replaces
  the array. The same holds of the characteristics of a service and the descriptors of a characteristic.
\<close>

definition finds_peripheral :: "memory \<Rightarrow> nat \<times> memory" where
  "finds_peripheral m = (let (p, m) = new_object (Peripheral_body None) m in
     (p, m\<lparr>framework := framework m @ [p]\<rparr>))"

fun new_children :: "(nat \<Rightarrow> body) \<Rightarrow> nat \<Rightarrow> memory \<Rightarrow> nat list \<times> memory" where
  "new_children mk 0 m = ([], m)"
| "new_children mk (Suc n) m = (let
     (u, m) = new_object Leaf m;
     (x, m) = new_object (mk u) m;
     (xs, m) = new_children mk n m in
     (x # xs, m))"

text \<open>The object \<open>a\<close> gets the body \<open>b arr\<close> with a new array, in the place of the array \<open>old\<close>.\<close>

definition discover ::
  "(nat \<Rightarrow> body) \<Rightarrow> nat \<Rightarrow> nat \<Rightarrow> (nat \<Rightarrow> body) \<Rightarrow> nat option \<Rightarrow> memory \<Rightarrow> memory outcome" where
  "discover mk n a b old m = (let
     (xs, m) = new_children mk n m;
     (arr, m) = new_object (Array xs) m in
     obind (set_body a (b arr) m) (release (opt_list old)))"

definition finds_services :: "nat \<Rightarrow> nat \<Rightarrow> memory \<Rightarrow> memory outcome" where
  "finds_services prph n m = obind (cell_at m prph) (\<lambda>c. case cell_body c of
     Peripheral_body old \<Rightarrow>
       discover (\<lambda>u. Service_body False u None) n prph (\<lambda>arr. Peripheral_body (Some arr)) old m
   | _ \<Rightarrow> Throw Objc_exception)"

definition finds_characteristics :: "nat \<Rightarrow> nat \<Rightarrow> memory \<Rightarrow> memory outcome" where
  "finds_characteristics svc n m = obind (cell_at m svc) (\<lambda>c. case cell_body c of
     Service_body b u old \<Rightarrow>
       discover (\<lambda>u. Characteristic_body False u None None) n svc (\<lambda>arr. Service_body b u (Some arr)) old m
   | _ \<Rightarrow> Throw Objc_exception)"

definition finds_descriptors :: "nat \<Rightarrow> nat \<Rightarrow> memory \<Rightarrow> memory outcome" where
  "finds_descriptors chr n m = obind (cell_at m chr) (\<lambda>c. case cell_body c of
     Characteristic_body b u v old \<Rightarrow>
       discover (\<lambda>u. Descriptor_body u None) n chr (\<lambda>arr. Characteristic_body b u v (Some arr)) old m
   | _ \<Rightarrow> Throw Objc_exception)"

definition forgets :: "nat \<Rightarrow> memory \<Rightarrow> memory outcome" where
  "forgets a m = release [a] (m\<lparr>framework := remove1 a (framework m)\<rparr>)"

text \<open>The pool of a thread or of a queue is drained by the loop that runs it.\<close>

definition drain :: "memory \<Rightarrow> memory outcome" where
  "drain m = release (pool m) (m\<lparr>pool := []\<rparr>)"

inductive happens :: "memory \<Rightarrow> memory \<Rightarrow> bool" for m where
  allocs_descriptor: "alloc_descriptor m = Ret (r, m') \<Longrightarrow> happens m m'"
| allocs_characteristic: "alloc_characteristic m = Ret (r, m') \<Longrightarrow> happens m m'"
| allocs_managed: "alloc_managed_characteristic b m = Ret (r, m') \<Longrightarrow> happens m m'"
| allocs_service: "alloc_managed_service m = Ret (r, m') \<Longrightarrow> happens m m'"
| allocs_manager: "alloc_manager m = Ret (r, m') \<Longrightarrow> happens m m'"
| stores_value: "store_value r m = Ret m' \<Longrightarrow> happens m m'"
| stores_descriptors: "store_descriptors r ds m = Ret m' \<Longrightarrow> happens m m'"
| stores_characteristic: "store_characteristic r c m = Ret m' \<Longrightarrow> happens m m'"
| publishes: "publish_service r m = Ret m' \<Longrightarrow> happens m m'"
| requests: "request_connection r m = Ret m' \<Longrightarrow> happens m m'"
| discovers_peripheral: "finds_peripheral m = (r, m') \<Longrightarrow> happens m m'"
| discovers_services: "finds_services r n m = Ret m' \<Longrightarrow> happens m m'"
| discovers_characteristics: "finds_characteristics r n m = Ret m' \<Longrightarrow> happens m m'"
| discovers_descriptors: "finds_descriptors r n m = Ret m' \<Longrightarrow> happens m m'"
| lets_go: "r \<in> set (framework m) \<Longrightarrow> forgets r m = Ret m' \<Longrightarrow> happens m m'"
| drains: "drain m = Ret m' \<Longrightarrow> happens m m'"

inductive memory_run :: "memory \<Rightarrow> memory \<Rightarrow> bool" for m where
  run_refl: "memory_run m m"
| run_step: "memory_run m m1 \<Longrightarrow> happens m1 m2 \<Longrightarrow> memory_run m m2"

section \<open>Balance\<close>

definition refs :: "cell option \<Rightarrow> nat multiset" where
  "refs x = (case x of None \<Rightarrow> {#} | Some c \<Rightarrow> mset (children (cell_body c)))"

lemma refs_simps [simp]: "refs None = {#}" "refs (Some c) = mset (children (cell_body c))"
  by (simp_all add: refs_def)

definition held :: "cell option list \<Rightarrow> nat multiset" where
  "held cs = sum_list (map refs cs)"

lemma held_append [simp]: "held (cs @ ds) = held cs + held ds" "held [x] = refs x" "held [] = {#}"
  by (simp_all add: held_def)

lemma held_update: "a < length cs \<Longrightarrow> held (cs[a := x]) + refs (cs ! a) = held cs + refs x"
  unfolding held_def by (induction cs arbitrary: a) (auto simp: nth_Cons split: nat.splits)

fun count_of :: "cell option \<Rightarrow> nat" where
  "count_of None = 0"
| "count_of (Some c) = retain_count c"

text \<open>
  Every count is the number of references to the object, those in the multiset included; a freed object
  has none, and a live one at least one.
\<close>

definition exact :: "nat multiset \<Rightarrow> cell option list \<Rightarrow> bool" where
  "exact M cs \<longleftrightarrow> (\<forall>a. count M a = count_of (lookup cs a)) \<and>
     (\<forall>a c. lookup cs a = Some c \<longrightarrow> 0 < retain_count c)"

definition balanced :: "nat multiset \<Rightarrow> cell option list \<Rightarrow> bool" where
  "balanced R cs \<longleftrightarrow> exact (R + held cs) cs"

lemma lookup_Some: "lookup cs a = Some c \<longleftrightarrow> a < length cs \<and> cs ! a = Some c"
  by (simp add: lookup.simps)

lemma lookup_update: "a < length cs \<Longrightarrow> lookup (cs[a := x]) b = (if b = a then x else lookup cs b)"
  by (simp add: lookup.simps)

lemma lookup_append: "lookup (cs @ [x]) b = (if b = length cs then x else lookup cs b)"
  by (auto simp: lookup.simps nth_append)

lemma lookup_end [simp]: "lookup cs (length cs) = None"
  by (simp add: lookup.simps)

lemma balanced_referenced: "balanced R cs \<Longrightarrow> a \<in># R + held cs \<Longrightarrow> \<exists>c. lookup cs a = Some c"
  unfolding balanced_def exact_def by (metis count_of.simps(1) count_eq_zero_iff not_None_eq)

lemma balanced_freed: "balanced R cs \<Longrightarrow> a \<notin># R + held cs \<Longrightarrow> lookup cs a = None"
  unfolding balanced_def exact_def by (metis count_of.elims count_eq_zero_iff less_numeral_extra(3))

lemma held_replace:
  "lookup cs a = Some c \<Longrightarrow> held (cs[a := x]) + mset (children (cell_body c)) = held cs + refs x"
  using held_update [of a cs x] by (simp add: lookup_Some)

lemma lookup_replace: "lookup cs a = Some c \<Longrightarrow> lookup (cs[a := x]) b = (if b = a then x else lookup cs b)"
  by (simp add: lookup_update lookup_Some)

lemma exact_count: "exact M cs \<Longrightarrow> count M a = count_of (lookup cs a)"
  by (simp add: exact_def)

lemma exact_replace:
  assumes "exact M cs" "lookup cs a = Some c" "\<And>c'. x = Some c' \<Longrightarrow> 0 < retain_count c'"
    and "count M' a = count_of x" "\<And>b. b \<noteq> a \<Longrightarrow> count M' b = count M b"
  shows "exact M' (cs[a := x])"
  using assms by (simp add: exact_def lookup_replace)

text \<open>A body is replaced: the caller gives the references \<open>G\<close> to the object and gets \<open>L\<close> from it.\<close>

lemma balanced_update_body:
  assumes "balanced (R + G) cs" "lookup cs a = Some c"
    and "mset (children b) + L = mset (children (cell_body c)) + G"
  shows "balanced (R + L) (cs[a := Some (c\<lparr>cell_body := b\<rparr>)])"
proof -
  let ?cs = "cs[a := Some (c\<lparr>cell_body := b\<rparr>)]"
  have "held ?cs + mset (children (cell_body c)) + L = held cs + (mset (children b) + L)"
    using held_replace [OF assms(2), of "Some (c\<lparr>cell_body := b\<rparr>)"] by (simp add: ac_simps)
  then have "held ?cs + L = held cs + G" unfolding assms(3) by (simp add: ac_simps)
  then have eq: "R + L + held ?cs = R + G + held cs" by (simp add: ac_simps)
  have M: "exact (R + G + held cs) cs" using assms(1) by (simp only: balanced_def)
  then have "0 < retain_count c" using assms(2) by (simp add: exact_def)
  then show ?thesis unfolding balanced_def eq
    by (intro exact_replace [OF M assms(2)]) (use exact_count [OF M, of a] assms(2) in auto)
qed

lemma balanced_new:
  assumes "balanced (R + mset (children b)) cs"
  shows "balanced (add_mset (length cs) R) (cs @ [Some \<lparr>retain_count = 1, cell_body = b\<rparr>])"
proof -
  have M: "exact (R + mset (children b) + held cs) cs" using assms by (simp only: balanced_def)
  have "add_mset (length cs) R + held (cs @ [Some \<lparr>retain_count = 1, cell_body = b\<rparr>]) =
      add_mset (length cs) (R + mset (children b) + held cs)"
    by (simp add: ac_simps)
  moreover have "count (R + mset (children b) + held cs) (length cs) = 0"
    using exact_count [OF M, of "length cs"] by simp
  ultimately show ?thesis
    using M by (simp only: balanced_def exact_def lookup_append count_add_mset) simp
qed

lemma balanced_retain:
  assumes "balanced R cs" "lookup cs a = Some c"
  shows "balanced (add_mset a R) (cs[a := Some (c\<lparr>retain_count := Suc (retain_count c)\<rparr>)])"
proof -
  have M: "exact (R + held cs) cs" using assms(1) by (simp only: balanced_def)
  have eq: "held (cs[a := Some (c\<lparr>retain_count := Suc (retain_count c)\<rparr>)]) = held cs"
    using held_replace [OF assms(2), of "Some (c\<lparr>retain_count := Suc (retain_count c)\<rparr>)"] by simp
  show ?thesis unfolding balanced_def eq
    by (intro exact_replace [OF M assms(2)]) (use exact_count [OF M, of a] assms(2) in auto)
qed

text \<open>Releases of references that exist never touch a freed object, and bodies stay as they are.\<close>

definition thins :: "cell option list \<Rightarrow> cell option list \<Rightarrow> bool" where
  "thins cs cs' \<longleftrightarrow> length cs' = length cs \<and>
     (\<forall>a c'. lookup cs' a = Some c' \<longrightarrow> (\<exists>c. lookup cs a = Some c \<and> cell_body c' = cell_body c))"

lemma thins_refl: "thins cs cs"
  by (simp add: thins_def)

lemma thins_update:
  "thins (cs[a := x]) cs' \<Longrightarrow> lookup cs a = Some c \<Longrightarrow> (\<And>c'. x = Some c' \<Longrightarrow> cell_body c' = cell_body c) \<Longrightarrow> thins cs cs'"
  unfolding thins_def by (auto simp: lookup_update lookup_Some split: if_splits) (metis nth_list_update)+

lemma release_all_balanced:
  "balanced (R + mset as) cs \<Longrightarrow> \<exists>cs'. release_all as cs = Ret cs' \<and> balanced R cs' \<and> thins cs cs'"
proof (induction as cs rule: release_all.induct)
  case (1 cs)
  then show ?case by (simp add: thins_refl)
next
  case (2 a as cs)
  then obtain c where c: "lookup cs a = Some c" using balanced_referenced [of _ cs a] by fastforce
  show ?case
  proof (cases "retain_count c > 1")
    case True
    let ?x = "Some (c\<lparr>retain_count := retain_count c - 1\<rparr>)"
    have eq: "held (cs[a := ?x]) = held cs" using held_replace [OF c, of ?x] by simp
    have M: "exact (R + mset (a # as) + held cs) cs" using 2(3) by (simp only: balanced_def)
    have "balanced (R + mset as) (cs[a := ?x])" unfolding balanced_def eq
      by (intro exact_replace [OF M c]) (use exact_count [OF M, of a] c True in auto)
    with 2(1) [OF c True] c True show ?thesis
      by (auto simp: release_all.simps(2) elim!: thins_update [OF _ c])
  next
    case False
    have M: "exact (R + mset (a # as) + held cs) cs" using 2(3) by (simp only: balanced_def)
    then have "0 < retain_count c" using c by (simp add: exact_def)
    then have one: "retain_count c = 1" using False by simp
    have eq: "R + mset (children (cell_body c) @ as) + held (cs[a := None]) = R + mset as + held cs"
      using held_replace [OF c, of None] by (simp add: ac_simps)
    have "balanced (R + mset (children (cell_body c) @ as)) (cs[a := None])"
      unfolding balanced_def eq
      by (rule exact_replace [OF M c]) (use exact_count [OF M, of a] c one in simp_all)
    with 2(2) [OF c False] c False show ?thesis
      by (auto simp: release_all.simps(2) elim!: thins_update [OF _ c])
  qed
qed

section \<open>Balance of the operations\<close>

definition roots :: "memory \<Rightarrow> nat multiset" where
  "roots m = mset (pool m) + mset (program m) + mset (framework m)"

text \<open>
  The memory is balanced when the caller holds the references \<open>R\<close>; the program still has its references
  to \<open>P\<close>, and has none to the older objects \<open>X\<close>; the objects \<open>D\<close> are freed.
\<close>

definition counted :: "nat set \<Rightarrow> nat set \<Rightarrow> nat set \<Rightarrow> nat multiset \<Rightarrow> memory \<Rightarrow> bool" where
  "counted P X D R m \<longleftrightarrow> balanced (R + roots m) (cells m) \<and> P \<subseteq> set (program m) \<and>
     set (program m) \<inter> X = {} \<and> X \<subseteq> {..<length (cells m)} \<and>
     D \<subseteq> {..<length (cells m)} \<and> (\<forall>a \<in> D. lookup (cells m) a = None)"

lemma cell_at_Ret: "cell_at m a = Ret c \<longleftrightarrow> lookup (cells m) a = Some c"
  by (simp add: cell_at_def split: option.split)

lemma new_object_counted:
  assumes "new_object b m = (a, m')" "counted P X D (R + mset (children b)) m"
  shows "counted P X D (add_mset a R) m' \<and> a \<notin> X"
proof -
  have m': "a = length (cells m)" "m' = m\<lparr>cells := cells m @ [Some \<lparr>retain_count = 1, cell_body = b\<rparr>]\<rparr>"
    using assms(1) by (simp_all add: new_object_def)
  have "balanced (R + roots m + mset (children b)) (cells m)" using assms(2) by (simp add: counted_def ac_simps)
  from balanced_new [OF this] show ?thesis using assms(2) m' by (auto simp: counted_def roots_def lookup_append)
qed

lemma retain_counted:
  assumes "retain a m = Ret m'" "counted P X D R m"
  shows "counted P X D (add_mset a R) m'"
proof -
  obtain c where c: "lookup (cells m) a = Some c"
    "m' = m\<lparr>cells := (cells m)[a := Some (c\<lparr>retain_count := Suc (retain_count c)\<rparr>)]\<rparr>"
    using assms(1) by (auto simp: retain_def obind_eq_Ret cell_at_Ret)
  then show ?thesis using balanced_retain [OF _ c(1)] assms(2) by (auto simp: counted_def roots_def lookup_replace)
qed

lemma retains_counted:
  "ofold (\<lambda>m a. retain a m) m as = Ret m' \<Longrightarrow> counted P X D R m \<Longrightarrow> counted P X D (R + mset as) m'"
proof (induction as arbitrary: m R)
  case (Cons a as)
  then obtain m1 where m1: "retain a m = Ret m1" "ofold (\<lambda>m a. retain a m) m1 as = Ret m'"
    by (auto simp: obind_eq_Ret)
  have "counted P X D (add_mset a R + mset as) m'"
    by (rule Cons.IH [OF m1(2) retain_counted [OF m1(1) Cons.prems(2)]])
  then show ?case by simp
qed simp

lemma set_body_counted:
  assumes "set_body a b m = Ret m'" "cell_at m a = Ret c" "counted P X D (R + G) m"
    and "mset (children b) + L = mset (children (cell_body c)) + G"
  shows "counted P X D (R + L) m'"
proof -
  have c: "lookup (cells m) a = Some c" using assms(2) by (simp add: cell_at_Ret)
  have m': "m' = m\<lparr>cells := (cells m)[a := Some (c\<lparr>cell_body := b\<rparr>)]\<rparr>"
    using assms(1,2) by (simp add: set_body_def)
  have "balanced (R + roots m + G) (cells m)" using assms(3) by (simp add: counted_def ac_simps)
  from balanced_update_body [OF this c assms(4)] show ?thesis
    using assms(3) m' c by (auto simp: counted_def roots_def ac_simps lookup_replace)
qed

lemma release_counted:
  assumes "counted P X D (R + mset as) m"
  shows "\<exists>m'. release as m = Ret m' \<and> counted P X D R m'"
proof -
  have "balanced (R + roots m + mset as) (cells m)" using assms by (simp add: counted_def ac_simps)
  from release_all_balanced [OF this] obtain cs where
    "release_all as (cells m) = Ret cs" "balanced (R + roots m) cs" "thins (cells m) cs" by blast
  moreover from this(3) have "lookup cs a = None" if "lookup (cells m) a = None" for a
    using that unfolding thins_def by (metis not_None_eq option.distinct(1))
  ultimately show ?thesis using assms by (auto simp: release_def counted_def roots_def thins_def)
qed

lemma release_counted_Ret: "release as m = Ret m' \<Longrightarrow> counted P X D (R + mset as) m \<Longrightarrow> counted P X D R m'"
  using release_counted by fastforce

lemma autorelease_counted: "counted P X D (add_mset a R) m \<Longrightarrow> counted P X D R (autorelease a m)"
  by (simp add: counted_def roots_def autorelease_def)

lemma owned_counted: "counted P X D (add_mset a R) m \<Longrightarrow> a \<notin> X \<Longrightarrow> counted P X D R (owned a m)"
  by (auto simp: counted_def roots_def owned_def)

lemma framework_counted:
  "counted P X D (add_mset a R) m \<Longrightarrow> counted P X D R (m\<lparr>framework := framework m @ [a]\<rparr>)"
  by (simp add: counted_def roots_def)

lemma hold_counted: "hold b m = Ret (a, m') \<Longrightarrow> counted P X D R m \<Longrightarrow> counted P X D (add_mset a R) m' \<and> a \<notin> X"
  unfolding hold_def by (auto simp: obind_eq_Ret dest!: retains_counted dest: new_object_counted)

lemma temporary_counted: "temporary m = (a, m') \<Longrightarrow> counted P X D R m \<Longrightarrow> counted P X D R m'"
  by (auto simp: temporary_def split: prod.splits dest!: new_object_counted [where R = R]
      intro: autorelease_counted)

lemma new_cbuuid_counted: "new_cbuuid m = (a, m') \<Longrightarrow> counted P X D R m \<Longrightarrow> counted P X D R m'"
  by (auto simp: new_cbuuid_def split: prod.splits dest: temporary_counted)

lemma new_array_counted: "new_array m = (a, m') \<Longrightarrow> counted P X D R m \<Longrightarrow> counted P X D R m'"
  by (auto simp: new_array_def split: prod.splits dest!: new_object_counted [where R = R]
      intro: autorelease_counted)

lemma body_Ret:
  "(case b of Array xs \<Rightarrow> f xs | _ \<Rightarrow> Throw Objc_exception) = Ret y \<longleftrightarrow> (\<exists>xs. b = Array xs \<and> f xs = Ret y)"
  "(case b of Characteristic_body True u v ds \<Rightarrow> g u v ds | _ \<Rightarrow> Throw Objc_exception) = Ret y \<longleftrightarrow>
    (\<exists>u v ds. b = Characteristic_body True u v ds \<and> g u v ds = Ret y)"
  "(case b of Characteristic_body t u v ds \<Rightarrow> h t u v ds | _ \<Rightarrow> Throw Objc_exception) = Ret y \<longleftrightarrow>
    (\<exists>t u v ds. b = Characteristic_body t u v ds \<and> h t u v ds = Ret y)"
  "(case b of Service_body True u cs \<Rightarrow> k u cs | _ \<Rightarrow> Throw Objc_exception) = Ret y \<longleftrightarrow>
    (\<exists>u cs. b = Service_body True u cs \<and> k u cs = Ret y)"
  "(case b of Service_body t u cs \<Rightarrow> l t u cs | _ \<Rightarrow> Throw Objc_exception) = Ret y \<longleftrightarrow>
    (\<exists>t u cs. b = Service_body t u cs \<and> l t u cs = Ret y)"
  "(case b of Peripheral_body ss \<Rightarrow> p ss | _ \<Rightarrow> Throw Objc_exception) = Ret y \<longleftrightarrow>
    (\<exists>ss. b = Peripheral_body ss \<and> p ss = Ret y)"
  by (cases b; auto split: bool.splits)+

lemma array_add_counted:
  assumes "array_add arr m x = Ret m'" "counted P X D R m"
  shows "counted P X D R m'"
proof -
  obtain m1 c xs where m1: "retain x m = Ret m1" "cell_at m1 arr = Ret c" "cell_body c = Array xs"
    "set_body arr (Array (xs @ [x])) m1 = Ret m'"
    using assms(1) by (auto simp: array_add_def obind_eq_Ret body_Ret)
  have "counted P X D (R + {#x#}) m1" using retain_counted [OF m1(1) assms(2)] by simp
  from set_body_counted [OF m1(4,2) this, of "{#}"] show ?thesis by (simp add: m1(3))
qed

lemma array_adds_counted: "ofold (array_add arr) m xs = Ret m' \<Longrightarrow> counted P X D R m \<Longrightarrow> counted P X D R m'"
  by (induction xs arbitrary: m) (auto simp: obind_eq_Ret dest: array_add_counted)

text \<open>A property gets a new value, which it retains, and releases the old one.\<close>

lemma property_counted:
  assumes "retain x m = Ret m1" "set_body a b m1 = Ret m2" "release (opt_list old) m2 = Ret m'"
    and "cell_at m1 a = Ret c" "mset (children b) + mset (opt_list old) = add_mset x (mset (children (cell_body c)))"
    and "counted P X D R m"
  shows "counted P X D R m'"
proof -
  have "counted P X D (R + {#x#}) m1" using retain_counted [OF assms(1,6)] by simp
  from set_body_counted [OF assms(2,4) this, of "mset (opt_list old)"] have "counted P X D (R + mset (opt_list old)) m2"
    using assms(5) by simp
  then show ?thesis using release_counted_Ret [OF assms(3)] by blast
qed

lemma retain_body: "retain x m = Ret m1 \<Longrightarrow> cell_at m a = Ret c \<Longrightarrow> \<exists>c'. cell_at m1 a = Ret c' \<and> cell_body c' = cell_body c"
  by (auto simp: retain_def obind_eq_Ret cell_at_Ret lookup_replace)

lemmas counted_intros =
  temporary_counted new_cbuuid_counted new_array_counted array_adds_counted

lemma alloc_descriptor_counted: "alloc_descriptor m = Ret (r, m') \<Longrightarrow> counted P X D {#} m \<Longrightarrow> counted P X D {#} m'"
  unfolding alloc_descriptor_def
  by (auto simp: obind_eq_Ret split: prod.splits dest!: counted_intros hold_counted intro: owned_counted)

lemma alloc_characteristic_counted:
  "alloc_characteristic m = Ret (r, m') \<Longrightarrow> counted P X D {#} m \<Longrightarrow> counted P X D {#} m'"
  unfolding alloc_characteristic_def
  by (auto simp: obind_eq_Ret split: prod.splits dest!: counted_intros hold_counted intro: owned_counted)

lemma alloc_managed_characteristic_counted:
  "alloc_managed_characteristic b m = Ret (r, m') \<Longrightarrow> counted P X D {#} m \<Longrightarrow> counted P X D {#} m'"
  unfolding alloc_managed_characteristic_def
  by (auto simp: obind_eq_Ret split: prod.splits if_splits dest!: counted_intros hold_counted intro: owned_counted)

lemma alloc_managed_service_counted:
  "alloc_managed_service m = Ret (r, m') \<Longrightarrow> counted P X D {#} m \<Longrightarrow> counted P X D {#} m'"
  unfolding alloc_managed_service_def
  by (auto simp: obind_eq_Ret split: prod.splits dest!: counted_intros hold_counted intro: owned_counted)

lemma new_leaf_owned:
  "new_object Leaf m = (a, m') \<Longrightarrow> counted P X D {#} m \<Longrightarrow> counted P X D {#} (owned a m')"
  by (auto dest!: new_object_counted [where R = "{#}"] intro: owned_counted)

lemma alloc_manager_counted: "alloc_manager m = Ret (r, m') \<Longrightarrow> counted P X D {#} m \<Longrightarrow> counted P X D {#} m'"
  unfolding alloc_manager_def
  by (auto simp: obind_eq_Ret split: prod.splits dest!: new_leaf_owned hold_counted intro: owned_counted)

lemma store_value_counted:
  assumes "store_value r m = Ret m'" "counted P X D {#} m"
  shows "counted P X D {#} m'"
proof -
  obtain nsd m1 c u v ds m2 m3 where m: "temporary m = (nsd, m1)" "cell_at m1 r = Ret c"
    "cell_body c = Characteristic_body True u v ds" "retain nsd m1 = Ret m2"
    "set_body r (Characteristic_body True u (Some nsd) ds) m2 = Ret m3" "release (opt_list v) m3 = Ret m'"
    using assms(1) by (auto simp: store_value_def obind_eq_Ret body_Ret split: prod.splits)
  obtain c' where "cell_at m2 r = Ret c'" "cell_body c' = Characteristic_body True u v ds"
    using retain_body [OF m(4,2)] m(3) by auto
  with property_counted [OF m(4-6)] temporary_counted [OF m(1) assms(2)] show ?thesis by simp
qed

lemma store_descriptors_counted:
  assumes "store_descriptors r descriptors m = Ret m'" "counted P X D {#} m"
  shows "counted P X D {#} m'"
proof -
  obtain arr m0 m1 c u v ds m2 m3 where m: "new_array m = (arr, m0)" "ofold (array_add arr) m0 descriptors = Ret m1"
    "cell_at m1 r = Ret c" "cell_body c = Characteristic_body True u v ds" "retain arr m1 = Ret m2"
    "set_body r (Characteristic_body True u v (Some arr)) m2 = Ret m3" "release (opt_list ds) m3 = Ret m'"
    using assms(1) by (auto simp: store_descriptors_def obind_eq_Ret body_Ret split: prod.splits)
  obtain c' where "cell_at m2 r = Ret c'" "cell_body c' = Characteristic_body True u v ds"
    using retain_body [OF m(5,3)] m(4) by auto
  with property_counted [OF m(5-7)] array_adds_counted [OF m(2) new_array_counted [OF m(1) assms(2)]]
  show ?thesis by simp
qed

lemma store_characteristic_counted:
  assumes "store_characteristic r chr m = Ret m'" "counted P X D {#} m"
  shows "counted P X D {#} m'"
proof -
  obtain xs arr m0 m1 c u cs m2 m3 where m: "new_array m = (arr, m0)"
    "ofold (array_add arr) m0 (xs @ [chr]) = Ret m1" "cell_at m1 r = Ret c" "cell_body c = Service_body True u cs"
    "retain arr m1 = Ret m2" "set_body r (Service_body True u (Some arr)) m2 = Ret m3" "release (opt_list cs) m3 = Ret m'"
    using assms(1) unfolding store_characteristic_def
    by (cases "new_array m") (auto simp: obind_eq_Ret body_Ret)
  obtain c' where "cell_at m2 r = Ret c'" "cell_body c' = Service_body True u cs"
    using retain_body [OF m(5,3)] m(4) by auto
  with property_counted [OF m(5-7)] array_adds_counted [OF m(2) new_array_counted [OF m(1) assms(2)]]
  show ?thesis by simp
qed

lemma publish_service_counted: "publish_service r m = Ret m' \<Longrightarrow> counted P X D {#} m \<Longrightarrow> counted P X D {#} m'"
  by (auto simp: publish_service_def obind_eq_Ret dest: retain_counted intro: framework_counted)

lemma finds_peripheral_counted: "finds_peripheral m = (r, m') \<Longrightarrow> counted P X D {#} m \<Longrightarrow> counted P X D {#} m'"
  by (auto simp: finds_peripheral_def split: prod.splits dest!: new_object_counted [where R = "{#}"]
      intro: framework_counted)

lemma new_children_counted:
  "new_children mk n m = (xs, m') \<Longrightarrow> counted P X D R m \<Longrightarrow> (\<And>u. children (mk u) = [u]) \<Longrightarrow>
    counted P X D (R + mset xs) m'"
proof (induction n arbitrary: m xs R)
  case (Suc n)
  obtain u m1 x m2 xs' where m: "new_object Leaf m = (u, m1)" "new_object (mk u) m1 = (x, m2)"
    "new_children mk n m2 = (xs', m')" "xs = x # xs'"
    using Suc.prems(1) by (auto split: prod.splits)
  have "counted P X D (R + mset (children (mk u))) m1"
    using new_object_counted [OF m(1), of P X D R] Suc.prems(2,3) by simp
  then have "counted P X D (add_mset x R) m2" using new_object_counted [OF m(2)] by blast
  from Suc.IH [OF m(3) this Suc.prems(3)] show ?case by (simp add: m(4))
qed simp

lemma new_object_keeps: "new_object b m = (a, m') \<Longrightarrow> cell_at m x = Ret c \<Longrightarrow> cell_at m' x = Ret c"
  by (auto simp: new_object_def cell_at_Ret lookup_Some nth_append)

lemma new_children_keep: "new_children mk n m = (xs, m') \<Longrightarrow> cell_at m x = Ret c \<Longrightarrow> cell_at m' x = Ret c"
proof (induction n arbitrary: m xs)
  case (Suc n)
  then show ?case by (auto split: prod.splits) (blast intro: new_object_keeps)
qed simp

lemma discover_counted:
  assumes "discover mk n a b old m = Ret m'" "cell_at m a = Ret c" "\<And>u. children (mk u) = [u]"
    and "\<And>arr. mset (children (b arr)) + mset (opt_list old) = add_mset arr (mset (children (cell_body c)))"
    and "counted P X D {#} m"
  shows "counted P X D {#} m'"
proof -
  obtain xs m1 arr m2 where m: "new_children mk n m = (xs, m1)" "new_object (Array xs) m1 = (arr, m2)"
    by (metis surj_pair)
  then obtain m3 where m3: "set_body a (b arr) m2 = Ret m3" "release (opt_list old) m3 = Ret m'"
    using assms(1) by (auto simp: discover_def obind_eq_Ret)
  have "counted P X D ({#} + mset (children (Array xs))) m1"
    using new_children_counted [OF m(1) assms(5,3)] by simp
  then have "counted P X D ({#} + {#arr#}) m2" using new_object_counted [OF m(2)] by simp
  from set_body_counted [OF m3(1) new_object_keeps [OF m(2) new_children_keep [OF m(1) assms(2)]] this]
  have "counted P X D ({#} + mset (opt_list old)) m3" using assms(4) by simp
  then show ?thesis using release_counted_Ret [OF m3(2)] by blast
qed

lemma finds_services_counted: "finds_services r n m = Ret m' \<Longrightarrow> counted P X D {#} m \<Longrightarrow> counted P X D {#} m'"
  by (auto simp: finds_services_def obind_eq_Ret body_Ret elim!: discover_counted)

lemma finds_characteristics_counted:
  "finds_characteristics r n m = Ret m' \<Longrightarrow> counted P X D {#} m \<Longrightarrow> counted P X D {#} m'"
  by (auto simp: finds_characteristics_def obind_eq_Ret body_Ret elim!: discover_counted)

lemma finds_descriptors_counted:
  "finds_descriptors r n m = Ret m' \<Longrightarrow> counted P X D {#} m \<Longrightarrow> counted P X D {#} m'"
  by (auto simp: finds_descriptors_def obind_eq_Ret body_Ret elim!: discover_counted)

lemma forgets_released:
  assumes "a \<in> set (framework m)" "counted P X D {#} m"
  shows "\<exists>m'. forgets a m = Ret m' \<and> counted P X D {#} m'"
proof -
  have "counted P X D ({#} + mset [a]) (m\<lparr>framework := remove1 a (framework m)\<rparr>)"
    using assms by (simp add: counted_def roots_def)
  from release_counted [OF this] show ?thesis by (simp add: forgets_def)
qed

lemma drain_released:
  assumes "counted P X D {#} m"
  shows "\<exists>m'. drain m = Ret m' \<and> counted P X D {#} m'"
proof -
  have "counted P X D ({#} + mset (pool m)) (m\<lparr>pool := []\<rparr>)" using assms by (simp add: counted_def roots_def ac_simps)
  from release_counted [OF this] show ?thesis by (simp add: drain_def)
qed

lemma happens_counted: "happens m m' \<Longrightarrow> counted P X D {#} m \<Longrightarrow> counted P X D {#} m'"
proof (induction rule: happens.induct)
  case (requests r m')
  then show ?case by (simp add: request_connection_def obind_eq_Ret)
next
  case (lets_go r m')
  then show ?case using forgets_released [of r m P X D] by simp
next
  case (drains m')
  then show ?case using drain_released [of P X D m] by simp
qed (fact alloc_descriptor_counted alloc_characteristic_counted alloc_managed_characteristic_counted
    alloc_managed_service_counted alloc_manager_counted store_value_counted store_descriptors_counted
    store_characteristic_counted publish_service_counted finds_peripheral_counted finds_services_counted
    finds_characteristics_counted finds_descriptors_counted)+

lemma memory_run_counted: "memory_run m m' \<Longrightarrow> counted P X D {#} m \<Longrightarrow> counted P X D {#} m'"
  by (induction rule: memory_run.induct) (auto intro: happens_counted)

section \<open>Who owns what\<close>

abbreviation memory_reaches :: "memory \<Rightarrow> bool" where
  "memory_reaches m \<equiv> memory_run no_memory m"

text \<open>All references to objects: those of the pool, the program and CoreBluetooth, and those of objects.\<close>

definition references :: "memory \<Rightarrow> nat multiset" where
  "references m = roots m + held (cells m)"

lemma counted_start: "counted {} {} {} {#} no_memory"
  by (simp add: counted_def balanced_def exact_def roots_def no_memory_def lookup.simps)

lemma memory_reaches_counted: "memory_reaches m \<Longrightarrow> counted {} {} {} {#} m"
  using memory_run_counted counted_start by blast

lemma memory_run_trans: "memory_run m m1 \<Longrightarrow> memory_run m1 m2 \<Longrightarrow> memory_run m m2"
  by (rotate_tac, induction rule: memory_run.induct) (auto intro: run_step)

lemma counted_references: "counted P X D {#} m \<Longrightarrow> count (references m) a = count_of (lookup (cells m) a)"
  by (simp add: counted_def balanced_def exact_def references_def)

lemma counted_live_iff: "counted P X D {#} m \<Longrightarrow> (\<exists>c. lookup (cells m) a = Some c) \<longleftrightarrow> a \<in># references m"
  unfolding references_def using balanced_referenced [of "roots m" "cells m" a] balanced_freed [of "roots m" "cells m" a]
  by (auto simp: counted_def)

text \<open>What is known of the program's references and of freed objects in one state holds in all later ones.\<close>

lemma later_counted:
  assumes "memory_reaches m" "memory_run m m'"
    and "X \<subseteq> {..<length (cells m)} - set (program m)" "D \<subseteq> {..<length (cells m)}" "\<forall>a \<in> D. lookup (cells m) a = None"
  shows "counted (set (program m)) X D {#} m'"
proof -
  have "counted (set (program m)) X D {#} m"
    using memory_reaches_counted [OF assms(1)] assms(3-5) by (auto simp: counted_def)
  then show ?thesis using memory_run_counted [OF assms(2)] by blast
qed

definition allocates :: "memory \<Rightarrow> nat \<Rightarrow> memory \<Rightarrow> bool" where
  "allocates m r m' \<longleftrightarrow> alloc_descriptor m = Ret (r, m') \<or> alloc_characteristic m = Ret (r, m') \<or>
     alloc_managed_characteristic False m = Ret (r, m') \<or> alloc_managed_characteristic True m = Ret (r, m') \<or>
     alloc_managed_service m = Ret (r, m') \<or> alloc_manager m = Ret (r, m')"

lemma retain_program: "retain a m = Ret m' \<Longrightarrow> program m' = program m"
  by (auto simp: retain_def obind_eq_Ret)

lemma retains_program: "ofold (\<lambda>m a. retain a m) m as = Ret m' \<Longrightarrow> program m' = program m"
  by (induction as arbitrary: m) (auto simp: obind_eq_Ret dest: retain_program)

lemma hold_program: "hold b m = Ret (r, m') \<Longrightarrow> program m' = program m"
  by (auto simp: hold_def obind_eq_Ret new_object_def dest: retains_program)

lemma allocates_happens: "allocates m r m' \<Longrightarrow> happens m m'"
  unfolding allocates_def by (auto intro: happens.intros)

lemma allocates_owned: "allocates m r m' \<Longrightarrow> r \<in> set (program m')"
  unfolding allocates_def
  by (auto simp: alloc_descriptor_def alloc_characteristic_def alloc_managed_characteristic_def
      alloc_managed_service_def alloc_manager_def new_object_def obind_eq_Ret owned_def dest!: hold_program
      split: prod.splits)

lemma fresh_live: "new_object b m = (a, m') \<Longrightarrow> cell_at m' a = Ret \<lparr>retain_count = 1, cell_body = b\<rparr>"
  by (auto simp: new_object_def cell_at_Ret lookup_append)

text \<open>A constructor never fails.\<close>

lemma retain_live:
  assumes "cell_at m a = Ret c"
  shows "\<exists>m'. retain a m = Ret m' \<and> (\<forall>x y. cell_at m x = Ret y \<longrightarrow> (\<exists>y. cell_at m' x = Ret y))"
proof -
  have "retain a m = Ret (m\<lparr>cells := (cells m)[a := Some (c\<lparr>retain_count := Suc (retain_count c)\<rparr>)]\<rparr>)"
    using assms by (simp add: retain_def)
  then show ?thesis using assms by (simp add: cell_at_Ret lookup_replace)
qed

lemma hold_live: "(\<And>a. a \<in> set (children b) \<Longrightarrow> \<exists>c. cell_at m a = Ret c) \<Longrightarrow> \<exists>r m'. hold b m = Ret (r, m')"
proof -
  assume live: "\<And>a. a \<in> set (children b) \<Longrightarrow> \<exists>c. cell_at m a = Ret c"
  have "\<exists>m'. ofold (\<lambda>m a. retain a m) m as = Ret m'" if "\<And>a. a \<in> set as \<Longrightarrow> \<exists>c. cell_at m a = Ret c" for as m
    using that
  proof (induction as arbitrary: m)
    case (Cons a as)
    then obtain m1 where m1: "retain a m = Ret m1" "\<forall>x y. cell_at m x = Ret y \<longrightarrow> (\<exists>y. cell_at m1 x = Ret y)"
      using retain_live by (metis list.set_intros(1))
    have "\<exists>c. cell_at m1 x = Ret c" if "x \<in> set as" for x using m1(2) Cons.prems that by (metis list.set_intros(2))
    then show ?case using Cons.IH [of m1] m1(1) by simp
  qed simp
  then show ?thesis using live by (metis hold_def obind.simps(1) surj_pair)
qed

lemma autorelease_cell [simp]: "cell_at (autorelease a m) x = cell_at m x" "cell_at (owned a m) x = cell_at m x"
  by (simp_all add: autorelease_def owned_def cell_at_def)

lemma temporary_live: "temporary m = (a, m') \<Longrightarrow> (\<exists>c. cell_at m' a = Ret c) \<and>
    (\<forall>x c. cell_at m x = Ret c \<longrightarrow> cell_at m' x = Ret c)"
  by (auto simp: temporary_def split: prod.splits dest: fresh_live new_object_keeps)

lemma new_cbuuid_live: "new_cbuuid m = (a, m') \<Longrightarrow> \<exists>c. cell_at m' a = Ret c"
  by (auto simp: new_cbuuid_def split: prod.splits dest!: temporary_live)

lemma allocations_succeed:
  "\<exists>r m'. alloc_descriptor m = Ret (r, m')" "\<exists>r m'. alloc_characteristic m = Ret (r, m')"
  "\<exists>r m'. alloc_managed_characteristic b m = Ret (r, m')" "\<exists>r m'. alloc_managed_service m = Ret (r, m')"
  "\<exists>r m'. alloc_manager m = Ret (r, m')"
proof -
  obtain u m1 where u: "new_cbuuid m = (u, m1)" by (metis surj_pair)
  obtain d m2 where d: "temporary m1 = (d, m2)" by (metis surj_pair)
  have live: "\<exists>c. cell_at m1 u = Ret c" "\<exists>c. cell_at m2 u = Ret c" "\<exists>c. cell_at m2 d = Ret c"
    using new_cbuuid_live [OF u] temporary_live [OF d] by auto
  have "\<exists>r m'. hold (Descriptor_body u (Some d)) m2 = Ret (r, m')"
    "\<exists>r m'. hold (Characteristic_body True u (Some d) None) m2 = Ret (r, m')"
    "\<exists>r m'. hold (Characteristic_body True u None None) m1 = Ret (r, m')"
    "\<exists>r m'. hold (Service_body True u None) m1 = Ret (r, m')"
    by (rule hold_live; use live in auto)+
  then show "\<exists>r m'. alloc_descriptor m = Ret (r, m')" "\<exists>r m'. alloc_characteristic m = Ret (r, m')"
    "\<exists>r m'. alloc_managed_characteristic b m = Ret (r, m')" "\<exists>r m'. alloc_managed_service m = Ret (r, m')"
    by (auto simp: alloc_descriptor_def alloc_characteristic_def alloc_managed_characteristic_def
        alloc_managed_service_def u d)
  obtain e m3 where e: "new_object Leaf m = (e, m3)" by (metis surj_pair)
  obtain q m4 where q: "new_object Leaf (owned e m3) = (q, m4)" by (metis surj_pair)
  have "\<exists>r m'. hold (Manager_body q) (owned q m4) = Ret (r, m')"
    by (rule hold_live) (use fresh_live [OF q] in auto)
  then show "\<exists>r m'. alloc_manager m = Ret (r, m')" by (auto simp: alloc_manager_def e q)
qed

section \<open>Properties\<close>

text \<open>C23: The retain counts are exact. In every state that the program and CoreBluetooth can reach, the
  count of an object is the number of references that exist to it, an object is alive exactly while
  there is one, and so neither the drain of a pool nor CoreBluetooth, when it lets go of an object,
  ever releases one that is freed.\<close>

theorem retain_counts_exact:
  assumes "memory_reaches m"
  shows "count (references m) a = count_of (lookup (cells m) a) \<and>
    ((\<exists>c. lookup (cells m) a = Some c) \<longleftrightarrow> a \<in># references m) \<and>
    (\<exists>m'. drain m = Ret m') \<and> (a \<in> set (framework m) \<longrightarrow> (\<exists>m'. forgets a m = Ret m'))"
  using counted_references [OF memory_reaches_counted [OF assms], of a]
    counted_live_iff [OF memory_reaches_counted [OF assms], of a]
    drain_released [OF memory_reaches_counted [OF assms]] forgets_released [OF _ memory_reaches_counted [OF assms], of a]
  by auto

lemma peripheral_reached: "memory_reaches (snd (finds_peripheral no_memory))"
  by (rule run_step [OF run_refl discovers_peripheral [OF prod.collapse [symmetric]]])

theorem retain_counts_exact_witness: "\<exists>m'. forgets 0 (snd (finds_peripheral no_memory)) = Ret m'"
  using retain_counts_exact [OF peripheral_reached, of 0]
  by (simp add: finds_peripheral_def new_object_def no_memory_def)

text \<open>C24: What the program builds is never freed: the descriptors, characteristics, services and managers
  that its constructors allocate stay alive in every later state, whatever CoreBluetooth and the pools
  release and whether or not a wrapper is left. So their handles never dangle, and they all leak.\<close>

theorem built_objects_leak:
  assumes "memory_reaches m" and "allocates m r m1" and "memory_run m1 m2"
  shows "r \<in> set (program m2) \<and> (\<exists>c. lookup (cells m2) r = Some c) \<and> 0 < count (references m2) r"
proof -
  have "memory_reaches m1" using assms(1) allocates_happens [OF assms(2)] by (rule run_step)
  from later_counted [OF this assms(3), of "{}" "{}"] have c: "counted (set (program m1)) {} {} {#} m2" by simp
  then have r: "r \<in> set (program m2)" using allocates_owned [OF assms(2)] by (auto simp: counted_def)
  then have "r \<in># references m2" by (simp add: references_def roots_def)
  with counted_live_iff [OF c] r show ?thesis by simp
qed

theorem built_objects_leak_witness:
  "\<exists>r m1 m2 c. alloc_descriptor no_memory = Ret (r, m1) \<and> drain m1 = Ret m2 \<and> lookup (cells m2) r = Some c"
proof -
  obtain r m1 where a: "alloc_descriptor no_memory = Ret (r, m1)" using allocations_succeed by blast
  then have "memory_reaches m1" by (auto intro: run_step run_refl allocs_descriptor)
  then obtain m2 where m2: "drain m1 = Ret m2" using drain_released [OF memory_reaches_counted] by blast
  then have "memory_run m1 m2" by (auto intro: run_step run_refl drains)
  with built_objects_leak [OF run_refl, of r m1 m2] a m2 show ?thesis by (auto simp: allocates_def)
qed

text \<open>C26: A discovered peripheral does not outlive CoreBluetooth's interest in it. The wrapper that the
  discovery callback gets retains nothing, and neither does asking for a connection; so once
  CoreBluetooth lets go of the peripheral, it is freed, and every wrapper that is left dangles for good:
  in every later state each use of it is a use after free.\<close>

theorem discovered_peripheral_dangles:
  assumes "memory_reaches m" and "finds_peripheral m = (p, m1)"
  shows "request_connection p m1 = Ret m1 \<and> wrapped_services p m1 = Ret [] \<and>
    (\<exists>m2. forgets p m1 = Ret m2 \<and> (\<forall>m3. memory_run m2 m3 \<longrightarrow>
      lookup (cells m3) p = None \<and> request_connection p m3 = Undef Use_after_free \<and>
      wrapped_services p m3 = Undef Use_after_free))"
proof -
  have c: "counted {} {} {} {#} m" by (rule memory_reaches_counted [OF assms(1)])
  have m1: "p = length (cells m)" "cell_at m1 p = Ret \<lparr>retain_count = 1, cell_body = Peripheral_body None\<rparr>"
    "framework m1 = framework m @ [p]"
    using assms(2) by (auto simp: finds_peripheral_def new_object_def cell_at_Ret lookup_append)
  have reach: "memory_reaches m1" using assms(1) discovers_peripheral [OF assms(2)] by (rule run_step)
  obtain m2 where m2: "forgets p m1 = Ret m2" "counted {} {} {} {#} m2"
    using forgets_released [OF _ memory_reaches_counted [OF reach], of p] m1(3) by auto
  have "lookup (cells m1) p = Some \<lparr>retain_count = 1, cell_body = Peripheral_body None\<rparr>"
    using m1(2) by (simp add: cell_at_Ret)
  then have freed: "lookup (cells m2) p = None" "length (cells m2) = length (cells m1)"
    using m2(1) by (auto simp: forgets_def release_def release_all.simps lookup_replace)
  have p: "p < length (cells m2)" using freed(2) m1(2) by (simp add: cell_at_Ret lookup_Some)
  have reach2: "memory_reaches m2"
    using reach lets_go [OF _ m2(1)] m1(3) by (auto intro: run_step)
  have "lookup (cells m3) p = None" if "memory_run m2 m3" for m3
    using later_counted [OF reach2 that, of "{}" "{p}"] p freed(1) by (simp add: counted_def)
  then show ?thesis using m1(2) m2(1)
    by (auto simp: request_connection_def wrapped_services_def elements_def cell_at_def)
qed

theorem discovered_peripheral_dangles_witness:
  "\<exists>m2. forgets 0 (snd (finds_peripheral no_memory)) = Ret m2 \<and> request_connection 0 m2 = Undef Use_after_free"
proof -
  have "finds_peripheral no_memory = (0, snd (finds_peripheral no_memory))"
    by (simp add: finds_peripheral_def new_object_def no_memory_def)
  from discovered_peripheral_dangles [OF run_refl this] show ?thesis using run_refl by blast
qed

end
