(* ===== verification/Building.thy ===== *)
theory Building
  imports Lifetime Gatt
begin

text \<open>
  The store of \<open>Gatt\<close>, where objects are never freed, against the memory of \<open>Lifetime\<close>, where they are
  counted: for a program that builds objects they agree, however often the autorelease pool is drained.
\<close>

section \<open>Operations on both\<close>

text \<open>What a program can do with objects that it builds; objects are named by their number in their class.\<close>

datatype operation =
    Make_descriptor uuid bytes
  | Make_characteristic uuid u32 permissions bytes
  | Make_managed uuid u32 permissions "bytes option"
  | Make_service uuid bool
  | Set_value nat bytes
  | Set_descriptors nat "nat list"
  | Add_to_service nat nat
  | Publish nat
  | Drain_pool

fun store_op :: "operation \<Rightarrow> objects \<Rightarrow> objects outcome" where
  "store_op (Make_descriptor u v) h = Ret (snd (descriptor_from u v h))"
| "store_op (Make_characteristic u ps perms v) h = Ret (snd (characteristic_from u ps perms v h))"
| "store_op (Make_managed u ps perms w) h = Ret (snd (managed_characteristic u ps perms w h))"
| "store_op (Make_service u primary) h = Ret (snd (managed_service u primary h))"
| "store_op (Set_value c v) h = characteristic_set_value c v h"
| "store_op (Set_descriptors c ds) h = obind (ofold (\<lambda>_ d. obind (object_at (dscs h) d) (\<lambda>_. Ret ())) () ds)
     (\<lambda>_. characteristic_set_descriptors c ds h)"
| "store_op (Add_to_service s c) h = obind (object_at (chrs h) c) (\<lambda>_. managed_service_add s c h)"
| "store_op (Publish s) h = obind (object_at (svcs h) s) (\<lambda>_. Ret h)"
| "store_op Drain_pool h = Ret h"

text \<open>The addresses of the objects of each class, by their numbers.\<close>

record naming =
  dsc_at :: "nat list"
  chr_at :: "nat list"
  svc_at :: "nat list"

definition address_of :: "nat list \<Rightarrow> nat \<Rightarrow> nat outcome" where
  "address_of as i = (if i < length as then Ret (as ! i) else Undef Out_of_bounds)"

fun addresses :: "nat list \<Rightarrow> nat list \<Rightarrow> nat list outcome" where
  "addresses as [] = Ret []"
| "addresses as (i # is) = obind (address_of as i) (\<lambda>a. obind (addresses as is) (\<lambda>bs. Ret (a # bs)))"

fun memory_op :: "operation \<Rightarrow> naming \<times> memory \<Rightarrow> (naming \<times> memory) outcome" where
  "memory_op (Make_descriptor u v) (A, m) =
     obind (alloc_descriptor m) (\<lambda>(a, m). Ret (A\<lparr>dsc_at := dsc_at A @ [a]\<rparr>, m))"
| "memory_op (Make_characteristic u ps perms v) (A, m) =
     obind (alloc_characteristic m) (\<lambda>(a, m). Ret (A\<lparr>chr_at := chr_at A @ [a]\<rparr>, m))"
| "memory_op (Make_managed u ps perms w) (A, m) =
     obind (alloc_managed_characteristic (w \<noteq> None) m) (\<lambda>(a, m). Ret (A\<lparr>chr_at := chr_at A @ [a]\<rparr>, m))"
| "memory_op (Make_service u primary) (A, m) =
     obind (alloc_managed_service m) (\<lambda>(a, m). Ret (A\<lparr>svc_at := svc_at A @ [a]\<rparr>, m))"
| "memory_op (Set_value c v) (A, m) =
     obind (address_of (chr_at A) c) (\<lambda>a. obind (store_value a m) (\<lambda>m. Ret (A, m)))"
| "memory_op (Set_descriptors c ds) (A, m) = obind (addresses (dsc_at A) ds) (\<lambda>as.
     obind (address_of (chr_at A) c) (\<lambda>a. obind (store_descriptors a as m) (\<lambda>m. Ret (A, m))))"
| "memory_op (Add_to_service s c) (A, m) = obind (address_of (chr_at A) c) (\<lambda>b.
     obind (address_of (svc_at A) s) (\<lambda>a. obind (store_characteristic a b m) (\<lambda>m. Ret (A, m))))"
| "memory_op (Publish s) (A, m) =
     obind (address_of (svc_at A) s) (\<lambda>a. obind (publish_service a m) (\<lambda>m. Ret (A, m)))"
| "memory_op Drain_pool (A, m) = obind (drain m) (\<lambda>m. Ret (A, m))"

definition no_names :: naming where
  "no_names = \<lparr>dsc_at = [], chr_at = [], svc_at = []\<rparr>"

section \<open>Bodies\<close>

definition body_at :: "memory \<Rightarrow> nat \<Rightarrow> body option" where
  "body_at m a = map_option cell_body (lookup (cells m) a)"

lemma cell_at_body: "cell_at m a = Ret c \<Longrightarrow> body_at m a = Some (cell_body c)"
  by (simp add: cell_at_Ret body_at_def)

lemma body_at_cell: "body_at m a = Some b \<Longrightarrow> \<exists>c. cell_at m a = Ret c \<and> cell_body c = b"
  by (auto simp: cell_at_Ret body_at_def)

lemma new_object_body: "new_object b m = (a, m') \<Longrightarrow> a = length (cells m) \<and> body_at m' = (body_at m)(a \<mapsto> b)"
  by (auto simp: new_object_def body_at_def lookup_append)

lemma retain_same_bodies: "retain a m = Ret m' \<Longrightarrow> body_at m' = body_at m \<and> length (cells m') = length (cells m)"
  by (auto simp: retain_def obind_eq_Ret cell_at_Ret body_at_def lookup_replace fun_eq_iff)

lemma retains_same_bodies:
  "ofold (\<lambda>m a. retain a m) m as = Ret m' \<Longrightarrow> body_at m' = body_at m \<and> length (cells m') = length (cells m)"
proof (induction as arbitrary: m)
  case (Cons a as)
  then obtain m1 where "retain a m = Ret m1" "ofold (\<lambda>m a. retain a m) m1 as = Ret m'" by (auto simp: obind_eq_Ret)
  then show ?case using Cons.IH [of m1] retain_same_bodies [of a m m1] by simp
qed simp

lemma hold_body:
  assumes "hold b m = Ret (a, m')"
  shows "a = length (cells m) \<and> body_at m' = (body_at m)(a \<mapsto> b)"
proof -
  obtain m1 where "ofold (\<lambda>m a. retain a m) m (children b) = Ret m1" "new_object b m1 = (a, m')"
    using assms by (auto simp: hold_def obind_eq_Ret)
  then show ?thesis using retains_same_bodies [of m "children b" m1] new_object_body [of b m1 a m'] by simp
qed

lemma set_body_bodies:
  "set_body a b m = Ret m' \<Longrightarrow> body_at m' = (body_at m)(a \<mapsto> b) \<and> length (cells m') = length (cells m)"
  by (auto simp: set_body_def obind_eq_Ret cell_at_Ret body_at_def lookup_replace fun_eq_iff)

lemma autorelease_bodies [simp]:
  "body_at (autorelease a m) = body_at m" "body_at (owned a m) = body_at m"
  "cells (autorelease a m) = cells m" "cells (owned a m) = cells m"
  by (simp_all add: autorelease_def owned_def body_at_def fun_eq_iff)

text \<open>The memory has grown, and the new addresses hold values or nothing that has a name.\<close>

lemma below_length: "body_at m a = Some b \<Longrightarrow> a < length (cells m)"
  by (auto simp: body_at_def lookup_Some)

lemma body_at_end [simp]: "body_at m (length (cells m)) = None"
  by (simp add: body_at_def)

lemma temporary_bodies:
  "temporary m = (a, m') \<Longrightarrow> a = length (cells m) \<and> body_at m' = (body_at m)(a \<mapsto> Leaf) \<and>
    length (cells m') = Suc (length (cells m))"
  by (auto simp: temporary_def new_object_def body_at_def lookup_append fun_eq_iff)

section \<open>The operations succeed on live objects\<close>

lemma retain_succeeds: "body_at m a = Some b \<Longrightarrow>
    \<exists>m'. retain a m = Ret m' \<and> body_at m' = body_at m \<and> length (cells m') = length (cells m)"
proof -
  assume "body_at m a = Some b"
  then obtain c where "cell_at m a = Ret c" using body_at_cell by blast
  then have "\<exists>m'. retain a m = Ret m'" by (simp add: retain_def)
  then show ?thesis using retain_same_bodies by blast
qed

lemma set_body_succeeds: "body_at m a = Some b \<Longrightarrow>
    \<exists>m'. set_body a b' m = Ret m' \<and> body_at m' = (body_at m)(a \<mapsto> b') \<and> length (cells m') = length (cells m)"
proof -
  assume "body_at m a = Some b"
  then obtain c where "cell_at m a = Ret c" using body_at_cell by blast
  then have "\<exists>m'. set_body a b' m = Ret m'" by (simp add: set_body_def)
  then show ?thesis using set_body_bodies by blast
qed

lemma array_adds_succeed:
  "body_at m arr = Some (Array xs) \<Longrightarrow> set ys \<subseteq> dom (body_at m) \<Longrightarrow>
    \<exists>m'. ofold (array_add arr) m ys = Ret m' \<and> body_at m' = (body_at m)(arr \<mapsto> Array (xs @ ys)) \<and>
      length (cells m') = length (cells m)"
proof (induction ys arbitrary: m xs)
  case Nil
  then show ?case by (auto simp: fun_eq_iff)
next
  case (Cons y ys)
  then obtain b where "body_at m y = Some b" by auto
  then obtain m1 where m1: "retain y m = Ret m1" "body_at m1 = body_at m" "length (cells m1) = length (cells m)"
    using retain_succeeds by blast
  then obtain c where c: "cell_at m1 arr = Ret c" "cell_body c = Array xs"
    using body_at_cell [of m1 arr "Array xs"] Cons.prems(1) by auto
  obtain m2 where m2: "set_body arr (Array (xs @ [y])) m1 = Ret m2"
    "body_at m2 = (body_at m1)(arr \<mapsto> Array (xs @ [y]))" "length (cells m2) = length (cells m1)"
    using set_body_succeeds [of m1 arr "Array xs"] m1(2) Cons.prems(1) by auto
  have adds: "array_add arr m y = Ret m2" using m1(1) c m2(1) by (simp add: array_add_def)
  moreover have "body_at m2 arr = Some (Array (xs @ [y]))" "set ys \<subseteq> dom (body_at m2)"
    using Cons.prems(2) m1 m2 by auto
  ultimately obtain m' where "ofold (array_add arr) m2 ys = Ret m'"
    "body_at m' = (body_at m2)(arr \<mapsto> Array ((xs @ [y]) @ ys))" "length (cells m') = length (cells m2)"
    using Cons.IH [of m2 "xs @ [y]"] Cons.prems m1 m2 by blast
  moreover have "(body_at m2)(arr \<mapsto> Array ((xs @ [y]) @ ys)) = (body_at m)(arr \<mapsto> Array (xs @ y # ys))"
    by (simp add: m1(2) m2(2))
  ultimately show ?case using m1 m2 adds by (intro exI [of _ m']) simp
qed

text \<open>The last part of a setter: the new value is retained and stored, the old one released.\<close>

lemma property_succeeds:
  assumes "counted P X D {#} m" "body_at m a = Some b" "body_at m x \<noteq> None"
    and "mset (children b') + mset (opt_list old) = add_mset x (mset (children b))"
  shows "\<exists>m1 m2 m'. retain x m = Ret m1 \<and> set_body a b' m1 = Ret m2 \<and> release (opt_list old) m2 = Ret m' \<and>
    counted P X D {#} m' \<and> body_at m' \<subseteq>\<^sub>m (body_at m)(a \<mapsto> b')"
proof -
  obtain m1 where m1: "retain x m = Ret m1" "body_at m1 = body_at m" using retain_succeeds assms(3) by blast
  then obtain c where c: "cell_at m1 a = Ret c" "cell_body c = b" using body_at_cell assms(2) by metis
  obtain m2 where m2: "set_body a b' m1 = Ret m2" "body_at m2 = (body_at m)(a \<mapsto> b')"
    using set_body_succeeds [of m1 a b b'] assms(2) m1(2) by auto
  have "counted P X D ({#} + {#x#}) m1" using retain_counted [OF m1(1) assms(1)] by simp
  from set_body_counted [OF m2(1) c(1) this, of "mset (opt_list old)"]
  have c2: "counted P X D ({#} + mset (opt_list old)) m2" using assms(4) c(2) by simp
  then have "balanced (roots m2 + mset (opt_list old)) (cells m2)" by (simp add: counted_def ac_simps)
  then obtain cs where cs: "release_all (opt_list old) (cells m2) = Ret cs" "thins (cells m2) cs"
    using release_all_balanced by blast
  have "body_at (m2\<lparr>cells := cs\<rparr>) \<subseteq>\<^sub>m body_at m2"
    using cs(2) by (fastforce simp: map_le_def body_at_def thins_def dom_def)
  moreover have "release (opt_list old) m2 = Ret (m2\<lparr>cells := cs\<rparr>)" using cs(1) by (simp add: release_def)
  ultimately show ?thesis using m1(1) m2 release_counted_Ret c2 by metis
qed

lemma store_value_succeeds:
  assumes "counted P X D {#} m" "body_at m a = Some (Characteristic_body True u v ds)"
  shows "\<exists>nsd m'. store_value a m = Ret m' \<and> counted P X D {#} m' \<and> body_at m nsd = None \<and>
    body_at m' \<subseteq>\<^sub>m (body_at m)(nsd \<mapsto> Leaf, a \<mapsto> Characteristic_body True u (Some nsd) ds)"
proof -
  obtain nsd m0 where t: "temporary m = (nsd, m0)" by (metis surj_pair)
  have fresh: "body_at m nsd = None" "body_at m0 = (body_at m)(nsd \<mapsto> Leaf)"
    using temporary_bodies [OF t] by auto
  then have a: "body_at m0 a = Some (Characteristic_body True u v ds)" using assms(2) by auto
  obtain c where c: "cell_at m0 a = Ret c" "cell_body c = Characteristic_body True u v ds"
    using body_at_cell [OF a] by blast
  from property_succeeds [OF temporary_counted [OF t assms(1)] a, of nsd "Characteristic_body True u (Some nsd) ds" v]
  obtain m1 m2 m' where "retain nsd m0 = Ret m1" "set_body a (Characteristic_body True u (Some nsd) ds) m1 = Ret m2"
    "release (opt_list v) m2 = Ret m'" "counted P X D {#} m'"
    "body_at m' \<subseteq>\<^sub>m (body_at m0)(a \<mapsto> Characteristic_body True u (Some nsd) ds)"
    using fresh(2) by auto
  then show ?thesis using t c fresh by (intro exI [of _ nsd] exI [of _ m']) (simp add: store_value_def)
qed

lemma new_array_bodies: "new_array m = (arr, m') \<Longrightarrow> body_at m arr = None \<and> body_at m' = (body_at m)(arr \<mapsto> Array [])"
  by (auto simp: new_array_def new_object_def body_at_def lookup_append fun_eq_iff)

lemma store_descriptors_succeeds:
  assumes "counted P X D {#} m" "body_at m a = Some (Characteristic_body True u v old)"
    and "set ys \<subseteq> dom (body_at m)"
  shows "\<exists>arr m'. store_descriptors a ys m = Ret m' \<and> counted P X D {#} m' \<and> body_at m arr = None \<and>
    body_at m' \<subseteq>\<^sub>m (body_at m)(arr \<mapsto> Array ys, a \<mapsto> Characteristic_body True u v (Some arr))"
proof -
  obtain arr m0 where n: "new_array m = (arr, m0)" by (metis surj_pair)
  note fresh = new_array_bodies [OF n]
  obtain m1 where m1: "ofold (array_add arr) m0 ys = Ret m1" "body_at m1 = (body_at m)(arr \<mapsto> Array ys)"
    using array_adds_succeed [of m0 arr "[]" ys] fresh assms(3) by auto
  then have a: "body_at m1 a = Some (Characteristic_body True u v old)" using assms(2) fresh by auto
  obtain c where c: "cell_at m1 a = Ret c" "cell_body c = Characteristic_body True u v old"
    using body_at_cell [OF a] by blast
  have "counted P X D {#} m1" by (rule array_adds_counted [OF m1(1) new_array_counted [OF n assms(1)]])
  from property_succeeds [OF this a, of arr "Characteristic_body True u v (Some arr)" old]
  obtain m2 m3 m' where "retain arr m1 = Ret m2" "set_body a (Characteristic_body True u v (Some arr)) m2 = Ret m3"
    "release (opt_list old) m3 = Ret m'" "counted P X D {#} m'"
    "body_at m' \<subseteq>\<^sub>m (body_at m1)(a \<mapsto> Characteristic_body True u v (Some arr))"
    using m1(2) by auto
  then show ?thesis using n m1 c fresh by (intro exI [of _ arr] exI [of _ m']) (simp add: store_descriptors_def)
qed

lemma store_characteristic_succeeds:
  assumes "counted P X D {#} m" "body_at m a = Some (Service_body True u old)" "elements old m = Ret xs"
    and "set (xs @ [chr]) \<subseteq> dom (body_at m)"
  shows "\<exists>arr m'. store_characteristic a chr m = Ret m' \<and> counted P X D {#} m' \<and> body_at m arr = None \<and>
    body_at m' \<subseteq>\<^sub>m (body_at m)(arr \<mapsto> Array (xs @ [chr]), a \<mapsto> Service_body True u (Some arr))"
proof -
  obtain arr m0 where n: "new_array m = (arr, m0)" by (metis surj_pair)
  note fresh = new_array_bodies [OF n]
  obtain c0 where c0: "cell_at m a = Ret c0" "cell_body c0 = Service_body True u old"
    using body_at_cell [OF assms(2)] by blast
  obtain m1 where m1: "ofold (array_add arr) m0 (xs @ [chr]) = Ret m1"
    "body_at m1 = (body_at m)(arr \<mapsto> Array (xs @ [chr]))"
    using array_adds_succeed [of m0 arr "[]" "xs @ [chr]"] fresh assms(4) by auto
  then have a: "body_at m1 a = Some (Service_body True u old)" using assms(2) fresh by auto
  obtain c where c: "cell_at m1 a = Ret c" "cell_body c = Service_body True u old"
    using body_at_cell [OF a] by blast
  have "counted P X D {#} m1" by (rule array_adds_counted [OF m1(1) new_array_counted [OF n assms(1)]])
  from property_succeeds [OF this a, of arr "Service_body True u (Some arr)" old]
  obtain m2 m3 m' where "retain arr m1 = Ret m2" "set_body a (Service_body True u (Some arr)) m2 = Ret m3"
    "release (opt_list old) m3 = Ret m'" "counted P X D {#} m'"
    "body_at m' \<subseteq>\<^sub>m (body_at m1)(a \<mapsto> Service_body True u (Some arr))"
    using m1(2) by auto
  then show ?thesis using n m1 c c0 fresh assms(3)
    by (intro exI [of _ arr] exI [of _ m']) (simp add: store_characteristic_def wrapped_characteristics_def)
qed

text \<open>The constructors add a body under a new address, and some values that have no name.\<close>

definition grown :: "memory \<Rightarrow> memory \<Rightarrow> bool" where
  "grown m m' \<longleftrightarrow> body_at m \<subseteq>\<^sub>m body_at m' \<and> length (cells m) \<le> length (cells m')"

lemma grown_trans: "grown m m1 \<Longrightarrow> grown m1 m2 \<Longrightarrow> grown m m2"
  by (auto simp: grown_def intro: map_le_trans)

lemma temporary_grown: "temporary m = (a, m') \<Longrightarrow> grown m m'"
  using temporary_bodies [of m a m'] by (auto simp: grown_def map_le_def)

lemma new_cbuuid_grown: "new_cbuuid m = (a, m') \<Longrightarrow> grown m m'"
  by (auto simp: new_cbuuid_def split: prod.splits dest!: temporary_grown intro: grown_trans)

definition built :: "memory \<Rightarrow> nat \<Rightarrow> body \<Rightarrow> memory \<Rightarrow> bool" where
  "built m a b m' \<longleftrightarrow> body_at m a = None \<and> body_at m \<subseteq>\<^sub>m body_at m' \<and> body_at m' a = Some b"

lemma hold_built: "grown m m1 \<Longrightarrow> hold b m1 = Ret (a, m2) \<Longrightarrow> built m a b (owned a m2)"
  using hold_body [of b m1 a m2] by (auto simp: grown_def built_def map_le_def body_at_def lookup.simps)

lemma alloc_descriptor_built: "alloc_descriptor m = Ret (a, m') \<Longrightarrow> \<exists>u v. built m a (Descriptor_body u v) m'"
  unfolding alloc_descriptor_def
  by (auto simp: obind_eq_Ret split: prod.splits dest!: new_cbuuid_grown temporary_grown)
    (blast intro: hold_built grown_trans)

lemma alloc_characteristic_built:
  "alloc_characteristic m = Ret (a, m') \<Longrightarrow> \<exists>u v. built m a (Characteristic_body True u v None) m'"
  unfolding alloc_characteristic_def
  by (auto simp: obind_eq_Ret split: prod.splits dest!: new_cbuuid_grown temporary_grown)
    (blast intro: hold_built grown_trans)

lemma alloc_managed_characteristic_built:
  "alloc_managed_characteristic b m = Ret (a, m') \<Longrightarrow> \<exists>u v. built m a (Characteristic_body True u v None) m'"
  unfolding alloc_managed_characteristic_def
  by (cases b) (auto simp: obind_eq_Ret split: prod.splits dest!: new_cbuuid_grown temporary_grown,
      (blast intro: hold_built grown_trans)+)

lemma alloc_managed_service_built:
  "alloc_managed_service m = Ret (a, m') \<Longrightarrow> \<exists>u. built m a (Service_body True u None) m'"
  unfolding alloc_managed_service_def
  by (auto simp: obind_eq_Ret split: prod.splits dest!: new_cbuuid_grown) (blast intro: hold_built)

section \<open>The relation\<close>

definition array_holds :: "(nat \<rightharpoonup> body) \<Rightarrow> nat option \<Rightarrow> nat list \<Rightarrow> bool" where
  "array_holds B arr xs \<longleftrightarrow> (case arr of None \<Rightarrow> xs = [] | Some a \<Rightarrow> B a = Some (Array xs))"

definition names :: "nat list \<Rightarrow> nat list \<Rightarrow> nat list \<Rightarrow> bool" where
  "names as ns xs \<longleftrightarrow> (\<forall>n \<in> set ns. n < length as) \<and> xs = map (nth as) ns"

definition dsc_rep :: "(nat \<rightharpoonup> body) \<Rightarrow> nat \<Rightarrow> descriptor_object \<Rightarrow> bool" where
  "dsc_rep B a d \<longleftrightarrow> (\<exists>u v. B a = Some (Descriptor_body u v))"

definition chr_rep :: "nat list \<Rightarrow> (nat \<rightharpoonup> body) \<Rightarrow> nat \<Rightarrow> characteristic_object \<Rightarrow> bool" where
  "chr_rep ds B a c \<longleftrightarrow> (\<exists>u v arr xs. B a = Some (Characteristic_body True u v arr) \<and> array_holds B arr xs \<and>
     names ds (chr_descriptors c) xs) \<and> chr_mutable c"

definition svc_rep :: "nat list \<Rightarrow> (nat \<rightharpoonup> body) \<Rightarrow> nat \<Rightarrow> service_object \<Rightarrow> bool" where
  "svc_rep cs B a s \<longleftrightarrow> (\<exists>u arr xs. B a = Some (Service_body True u arr) \<and> array_holds B arr xs \<and>
     names cs (svc_characteristics s) xs) \<and> svc_mutable s"

definition represents :: "naming \<Rightarrow> (nat \<rightharpoonup> body) \<Rightarrow> objects \<Rightarrow> bool" where
  "represents A B h \<longleftrightarrow> list_all2 (dsc_rep B) (dsc_at A) (dscs h) \<and>
     list_all2 (chr_rep (dsc_at A) B) (chr_at A) (chrs h) \<and>
     list_all2 (svc_rep (chr_at A) B) (svc_at A) (svcs h) \<and> distinct (chr_at A) \<and> distinct (svc_at A)"

lemma names_append: "names as ns xs \<Longrightarrow> names (as @ bs) ns xs"
  by (auto simp: names_def nth_append)

lemma map_le_Some: "B \<subseteq>\<^sub>m B' \<Longrightarrow> B a = Some b \<Longrightarrow> B' a = Some b"
  by (metis domI map_le_def)

lemma array_holds_grows: "array_holds B arr xs \<Longrightarrow> B \<subseteq>\<^sub>m B' \<Longrightarrow> array_holds B' arr xs"
  by (auto simp: array_holds_def dest: map_le_Some split: option.splits)

lemma reps_grow:
  "dsc_rep B a d \<Longrightarrow> B \<subseteq>\<^sub>m B' \<Longrightarrow> dsc_rep B' a d"
  "chr_rep ds B a c \<Longrightarrow> B \<subseteq>\<^sub>m B' \<Longrightarrow> chr_rep (ds @ ds') B' a c"
  "svc_rep cs B a s \<Longrightarrow> B \<subseteq>\<^sub>m B' \<Longrightarrow> svc_rep (cs @ cs') B' a s"
  unfolding dsc_rep_def chr_rep_def svc_rep_def
  by (blast intro: map_le_Some array_holds_grows names_append)+

lemma represents_grows:
  assumes "represents A B h" "B \<subseteq>\<^sub>m B'"
  shows "list_all2 (dsc_rep B') (dsc_at A) (dscs h)"
    and "list_all2 (chr_rep (dsc_at A @ ds) B') (chr_at A) (chrs h)"
    and "list_all2 (svc_rep (chr_at A @ cs) B') (svc_at A) (svcs h)"
  using assms unfolding represents_def by (auto elim!: list_all2_mono intro: reps_grow)

text \<open>Objects are freed that have no name: what a living object holds lives.\<close>

definition closed :: "(nat \<rightharpoonup> body) \<Rightarrow> bool" where
  "closed B \<longleftrightarrow> (\<forall>a b. B a = Some b \<longrightarrow> set (children b) \<subseteq> dom B)"

lemma map_le_live: "B' \<subseteq>\<^sub>m B \<Longrightarrow> a \<in> dom B' \<Longrightarrow> B' a = B a"
  by (simp add: map_le_def)

lemma reps_shrink:
  assumes "B' \<subseteq>\<^sub>m B" "closed B'" "a \<in> dom B'"
  shows "dsc_rep B a d \<Longrightarrow> dsc_rep B' a d" and "chr_rep ds B a c \<Longrightarrow> chr_rep ds B' a c"
    and "svc_rep cs B a s \<Longrightarrow> svc_rep cs B' a s"
proof -
  have same: "B' a = B a" by (rule map_le_live [OF assms(1,3)])
  have arr: "array_holds B' x xs" if "array_holds B x xs" "B a = Some b" "set (opt_list x) \<subseteq> set (children b)" for x xs b
  proof (cases x)
    case (Some y)
    then have "y \<in> dom B'" using assms(2) that(2,3) same unfolding closed_def by (metis list.set_intros(1) opt_list.simps(2) subsetD)
    then show ?thesis using that(1) Some map_le_live [OF assms(1)] by (simp add: array_holds_def)
  qed (use that(1) in \<open>simp add: array_holds_def\<close>)
  show "dsc_rep B a d \<Longrightarrow> dsc_rep B' a d" by (simp add: dsc_rep_def same)
  show "chr_rep ds B a c \<Longrightarrow> chr_rep ds B' a c"
    unfolding chr_rep_def same using arr by fastforce
  show "svc_rep cs B a s \<Longrightarrow> svc_rep cs B' a s"
    unfolding svc_rep_def same using arr by fastforce
qed

lemma list_all2_strong:
  "list_all2 R xs ys \<Longrightarrow> (\<And>x y. x \<in> set xs \<Longrightarrow> R x y \<Longrightarrow> S x y) \<Longrightarrow> list_all2 S xs ys"
  by (rule list.rel_mono_strong)

lemma represents_shrinks:
  assumes "represents A B h" "B' \<subseteq>\<^sub>m B" "closed B'" "set (dsc_at A) \<union> set (chr_at A) \<union> set (svc_at A) \<subseteq> dom B'"
  shows "represents A B' h"
proof -
  note shrink = reps_shrink [OF assms(2,3)]
  have r: "list_all2 (dsc_rep B) (dsc_at A) (dscs h)" "list_all2 (chr_rep (dsc_at A) B) (chr_at A) (chrs h)"
    "list_all2 (svc_rep (chr_at A) B) (svc_at A) (svcs h)" "distinct (chr_at A)" "distinct (svc_at A)"
    using assms(1) by (simp_all add: represents_def)
  show ?thesis unfolding represents_def
  proof (intro conjI)
    show "list_all2 (dsc_rep B') (dsc_at A) (dscs h)"
      by (rule list_all2_strong [OF r(1)], rule shrink(1)) (use assms(4) in blast)
    show "list_all2 (chr_rep (dsc_at A) B') (chr_at A) (chrs h)"
      by (rule list_all2_strong [OF r(2)], rule shrink(2)) (use assms(4) in blast)
    show "list_all2 (svc_rep (chr_at A) B') (svc_at A) (svcs h)"
      by (rule list_all2_strong [OF r(3)], rule shrink(3)) (use assms(4) in blast)
  qed (fact r(4,5))+
qed

text \<open>One object changes that is no array.\<close>

definition same_but :: "nat \<Rightarrow> (nat \<rightharpoonup> body) \<Rightarrow> (nat \<rightharpoonup> body) \<Rightarrow> bool" where
  "same_but a B B' \<longleftrightarrow> (\<forall>x \<in> dom B - {a}. B' x = B x) \<and> (\<nexists>xs. B a = Some (Array xs))"

lemma same_but_array: "same_but a B B' \<Longrightarrow> array_holds B arr xs \<Longrightarrow> array_holds B' arr xs"
  unfolding same_but_def array_holds_def by (cases arr) (auto, metis DiffI domI singletonD)

lemma same_but_at: "same_but a B B' \<Longrightarrow> x \<noteq> a \<Longrightarrow> B x = Some b \<Longrightarrow> B' x = Some b"
  unfolding same_but_def by (metis DiffI domI singletonD)

lemma reps_other:
  assumes "same_but a B B'" "x \<noteq> a"
  shows "dsc_rep B x d \<Longrightarrow> dsc_rep B' x d" and "chr_rep ds B x c \<Longrightarrow> chr_rep ds B' x c"
    and "svc_rep cs B x s \<Longrightarrow> svc_rep cs B' x s"
  unfolding dsc_rep_def chr_rep_def svc_rep_def
  using same_but_at [OF assms] same_but_array [OF assms(1)] by blast+

lemma represents_update_chr:
  assumes "represents A B h" "i < length (chr_at A)" "same_but (chr_at A ! i) B B'"
    and "chr_rep (dsc_at A) B' (chr_at A ! i) c"
  shows "represents A B' (h\<lparr>chrs := (chrs h)[i := c]\<rparr>)"
proof -
  have "chr_rep (dsc_at A) B (chr_at A ! i) (chrs h ! i)"
    using assms(1,2) by (auto simp: represents_def list_all2_conv_all_nth)
  then obtain u v arr where B: "B (chr_at A ! i) = Some (Characteristic_body True u v arr)" by (auto simp: chr_rep_def)
  have r: "list_all2 (dsc_rep B) (dsc_at A) (dscs h)" "list_all2 (svc_rep (chr_at A) B) (svc_at A) (svcs h)"
    using assms(1) by (simp_all add: represents_def)
  have other: "dsc_rep B x d \<Longrightarrow> x \<noteq> chr_at A ! i" "svc_rep cs B x t \<Longrightarrow> x \<noteq> chr_at A ! i" for x d cs t
    using B by (auto simp: dsc_rep_def svc_rep_def)
  have "list_all2 (dsc_rep B') (dsc_at A) (dscs h)"
    by (rule list_all2_strong [OF r(1)]) (blast intro: reps_other(1) [OF assms(3)] dest: other(1))
  moreover have "list_all2 (svc_rep (chr_at A) B') (svc_at A) (svcs h)"
    by (rule list_all2_strong [OF r(2)]) (blast intro: reps_other(3) [OF assms(3)] dest: other(2))
  moreover have "list_all2 (chr_rep (dsc_at A) B') (chr_at A) ((chrs h)[i := c])"
    using assms(1,2,4) reps_other(2) [OF assms(3)]
    by (auto simp: represents_def list_all2_conv_all_nth nth_list_update nth_eq_iff_index_eq)
  ultimately show ?thesis using assms(1) by (simp add: represents_def)
qed

lemma represents_update_svc:
  assumes "represents A B h" "i < length (svc_at A)" "same_but (svc_at A ! i) B B'"
    and "svc_rep (chr_at A) B' (svc_at A ! i) s"
  shows "represents A B' (h\<lparr>svcs := (svcs h)[i := s]\<rparr>)"
proof -
  have "svc_rep (chr_at A) B (svc_at A ! i) (svcs h ! i)"
    using assms(1,2) by (auto simp: represents_def list_all2_conv_all_nth)
  then obtain u arr where B: "B (svc_at A ! i) = Some (Service_body True u arr)" by (auto simp: svc_rep_def)
  have r: "list_all2 (dsc_rep B) (dsc_at A) (dscs h)" "list_all2 (chr_rep (dsc_at A) B) (chr_at A) (chrs h)"
    using assms(1) by (simp_all add: represents_def)
  have other: "dsc_rep B x d \<Longrightarrow> x \<noteq> svc_at A ! i" "chr_rep ds B x c \<Longrightarrow> x \<noteq> svc_at A ! i" for x d ds c
    using B by (auto simp: dsc_rep_def chr_rep_def)
  have "list_all2 (dsc_rep B') (dsc_at A) (dscs h)"
    by (rule list_all2_strong [OF r(1)]) (blast intro: reps_other(1) [OF assms(3)] dest: other(1))
  moreover have "list_all2 (chr_rep (dsc_at A) B') (chr_at A) (chrs h)"
    by (rule list_all2_strong [OF r(2)]) (blast intro: reps_other(2) [OF assms(3)] dest: other(2))
  moreover have "list_all2 (svc_rep (chr_at A) B') (svc_at A) ((svcs h)[i := s])"
    using assms(1,2,4) reps_other(3) [OF assms(3)]
    by (auto simp: represents_def list_all2_conv_all_nth nth_list_update nth_eq_iff_index_eq)
  ultimately show ?thesis using assms(1) by (simp add: represents_def)
qed

section \<open>The simulation\<close>

definition all_names :: "naming \<Rightarrow> nat set" where
  "all_names A = set (dsc_at A) \<union> set (chr_at A) \<union> set (svc_at A)"

definition agree :: "naming \<Rightarrow> memory \<Rightarrow> objects \<Rightarrow> bool" where
  "agree A m h \<longleftrightarrow> represents A (body_at m) h \<and> counted {} {} {} {#} m \<and> all_names A \<subseteq> set (program m)"

lemma held_member: "lookup cs a = Some c \<Longrightarrow> set (children (cell_body c)) \<subseteq> set_mset (held cs)"
  using held_replace [of cs a c None] by (metis add.commute mset_subset_eq_add_left refs_simps(1) add.right_neutral
      set_mset_mono set_mset_mset)

lemma counted_closed: "counted P X D {#} m \<Longrightarrow> closed (body_at m)"
proof -
  assume c: "counted P X D {#} m"
  have "y \<in> dom (body_at m)" if a: "body_at m a = Some b" and y: "y \<in> set (children b)" for a b y
  proof -
    obtain c' where "lookup (cells m) a = Some c'" "cell_body c' = b" using a by (auto simp: body_at_def)
    then have "y \<in># roots m + held (cells m)" using held_member y by fastforce
    then show ?thesis using balanced_referenced c by (fastforce simp: counted_def body_at_def)
  qed
  then show ?thesis by (auto simp: closed_def)
qed

lemma program_live: "counted P X D {#} m \<Longrightarrow> set (program m) \<subseteq> dom (body_at m)"
  using counted_live_iff [of P X D m] by (fastforce simp: references_def roots_def body_at_def)

lemma program_kept: "happens m m' \<Longrightarrow> counted {} {} {} {#} m \<Longrightarrow> set (program m) \<subseteq> set (program m')"
  using happens_counted [of m m' "set (program m)" "{}" "{}"] by (simp add: counted_def)

lemma agree_happens:
  assumes "agree A m h" "happens m m'"
  shows "counted {} {} {} {#} m'" and "all_names A \<subseteq> set (program m')" and "all_names A \<subseteq> dom (body_at m')"
  using assms happens_counted program_kept program_live unfolding agree_def by blast+

text \<open>An operation that changes bodies as in \<open>B\<close> and frees what is no longer held.\<close>

lemma agree_shrinks:
  assumes "agree A m h" "happens m m'" "body_at m' \<subseteq>\<^sub>m B" "represents A B h'"
  shows "agree A m' h'"
  using represents_shrinks [OF assms(4,3)] agree_happens [OF assms(1,2)] counted_closed
  by (auto simp: agree_def all_names_def)

lemma agree_lengths:
  assumes "agree A m h"
  shows "length (dsc_at A) = length (dscs h)" "length (chr_at A) = length (chrs h)" "length (svc_at A) = length (svcs h)"
  using assms by (auto simp: agree_def represents_def dest: list_all2_lengthD)

lemma agree_dsc_live: "agree A m h \<Longrightarrow> set (dsc_at A) \<subseteq> dom (body_at m)"
  and agree_chr_live: "agree A m h \<Longrightarrow> set (chr_at A) \<subseteq> dom (body_at m)"
  using program_live unfolding agree_def all_names_def by blast+

lemma agree_chr:
  assumes "agree A m h" "i < length (chrs h)"
  shows "chr_rep (dsc_at A) (body_at m) (chr_at A ! i) (chrs h ! i)"
  using assms by (auto simp: agree_def represents_def list_all2_conv_all_nth)

lemma agree_svc:
  assumes "agree A m h" "i < length (svcs h)"
  shows "svc_rep (chr_at A) (body_at m) (svc_at A ! i) (svcs h ! i)"
  using assms by (auto simp: agree_def represents_def list_all2_conv_all_nth)

lemma agree_new:
  assumes "agree A m h" "happens m m'" "built m a b m'" "a \<in> set (program m')"
  shows "b = Descriptor_body u v \<Longrightarrow> agree (A\<lparr>dsc_at := dsc_at A @ [a]\<rparr>) m' (h\<lparr>dscs := dscs h @ [d]\<rparr>)"
    and "b = Characteristic_body True u' v' None \<Longrightarrow> chr_mutable c \<Longrightarrow> chr_descriptors c = [] \<Longrightarrow>
      agree (A\<lparr>chr_at := chr_at A @ [a]\<rparr>) m' (h\<lparr>chrs := chrs h @ [c]\<rparr>)"
    and "b = Service_body True u'' None \<Longrightarrow> svc_mutable s \<Longrightarrow> svc_characteristics s = [] \<Longrightarrow>
      agree (A\<lparr>svc_at := svc_at A @ [a]\<rparr>) m' (h\<lparr>svcs := svcs h @ [s]\<rparr>)"
proof -
  have le: "body_at m \<subseteq>\<^sub>m body_at m'" and a: "body_at m' a = Some b" using assms(3) by (simp_all add: built_def)
  have r: "represents A (body_at m) h" using assms(1) by (simp add: agree_def)
  have "all_names A \<subseteq> dom (body_at m)"
    using assms(1) program_live [of "{}" "{}" "{}" m] unfolding agree_def by blast
  then have fresh: "a \<notin> all_names A" using assms(3) by (auto simp: built_def)
  note new = agree_happens(1,2) [OF assms(1,2)]
  note grows = represents_grows [OF r le]
  have dist: "distinct (chr_at A)" "distinct (svc_at A)" using r by (simp_all add: represents_def)
  have none: "\<exists>xs. array_holds B None xs \<and> names as [] xs" for B as by (simp add: array_holds_def names_def)
  show "b = Descriptor_body u v \<Longrightarrow> agree (A\<lparr>dsc_at := dsc_at A @ [a]\<rparr>) m' (h\<lparr>dscs := dscs h @ [d]\<rparr>)"
    using new assms(4) a grows(1) grows(2) [of "[a]"] grows(3) [of "[]"] dist
    by (auto simp: agree_def represents_def all_names_def dsc_rep_def intro!: list_all2_appendI)
  show "b = Characteristic_body True u' v' None \<Longrightarrow> chr_mutable c \<Longrightarrow> chr_descriptors c = [] \<Longrightarrow>
      agree (A\<lparr>chr_at := chr_at A @ [a]\<rparr>) m' (h\<lparr>chrs := chrs h @ [c]\<rparr>)"
    using new assms(4) a grows(1) grows(2) [of "[]"] grows(3) [of "[a]"] dist none fresh
    by (auto simp: agree_def represents_def all_names_def chr_rep_def intro!: list_all2_appendI)
  show "b = Service_body True u'' None \<Longrightarrow> svc_mutable s \<Longrightarrow> svc_characteristics s = [] \<Longrightarrow>
      agree (A\<lparr>svc_at := svc_at A @ [a]\<rparr>) m' (h\<lparr>svcs := svcs h @ [s]\<rparr>)"
    using new assms(4) a grows(1) grows(2) [of "[]"] grows(3) [of "[]"] dist none fresh
    by (auto simp: agree_def represents_def all_names_def svc_rep_def intro!: list_all2_appendI)
qed

lemma agree_store_value:
  assumes "agree A m h" "i < length (chrs h)"
  shows "\<exists>m'. store_value (chr_at A ! i) m = Ret m' \<and> agree A m' (h\<lparr>chrs := (chrs h)[i := (chrs h ! i)\<lparr>chr_value := w\<rparr>]\<rparr>)"
proof -
  let ?a = "chr_at A ! i"
  obtain u v arr xs where c: "body_at m ?a = Some (Characteristic_body True u v arr)" "array_holds (body_at m) arr xs"
    "names (dsc_at A) (chr_descriptors (chrs h ! i)) xs" "chr_mutable (chrs h ! i)"
    using agree_chr [OF assms] by (auto simp: chr_rep_def)
  have r: "represents A (body_at m) h" "counted {} {} {} {#} m" using assms(1) by (simp_all add: agree_def)
  obtain nsd m' where m': "store_value ?a m = Ret m'" "body_at m nsd = None"
    "body_at m' \<subseteq>\<^sub>m (body_at m)(nsd \<mapsto> Leaf, ?a \<mapsto> Characteristic_body True u (Some nsd) arr)"
    using store_value_succeeds [OF r(2) c(1)] by blast
  let ?B = "(body_at m)(nsd \<mapsto> Leaf, ?a \<mapsto> Characteristic_body True u (Some nsd) arr)"
  have same: "same_but ?a (body_at m) ?B" using m'(2) c(1) by (auto simp: same_but_def)
  have "chr_rep (dsc_at A) ?B ?a ((chrs h ! i)\<lparr>chr_value := w\<rparr>)"
    using c same_but_array [OF same c(2)] by (auto simp: chr_rep_def)
  from represents_update_chr [OF r(1) _ same this] have "represents A ?B (h\<lparr>chrs := (chrs h)[i := (chrs h ! i)\<lparr>chr_value := w\<rparr>]\<rparr>)"
    using assms agree_lengths by simp
  then show ?thesis using agree_shrinks [OF assms(1) stores_value [OF m'(1)] m'(3)] m'(1) by blast
qed

lemma agree_store_descriptors:
  assumes "agree A m h" "i < length (chrs h)" "names (dsc_at A) ds ys"
  shows "\<exists>m'. store_descriptors (chr_at A ! i) ys m = Ret m' \<and>
    agree A m' (h\<lparr>chrs := (chrs h)[i := (chrs h ! i)\<lparr>chr_descriptors := ds\<rparr>]\<rparr>)"
proof -
  let ?a = "chr_at A ! i"
  obtain u v old where c: "body_at m ?a = Some (Characteristic_body True u v old)" "chr_mutable (chrs h ! i)"
    using agree_chr [OF assms(1,2)] by (auto simp: chr_rep_def)
  have r: "represents A (body_at m) h" "counted {} {} {} {#} m" using assms(1) by (simp_all add: agree_def)
  have "set ys \<subseteq> set (dsc_at A)" using assms(3) by (auto simp: names_def)
  then have ys: "set ys \<subseteq> dom (body_at m)" using agree_dsc_live [OF assms(1)] by (rule subset_trans)
  obtain arr m' where m': "store_descriptors ?a ys m = Ret m'" "body_at m arr = None"
    "body_at m' \<subseteq>\<^sub>m (body_at m)(arr \<mapsto> Array ys, ?a \<mapsto> Characteristic_body True u v (Some arr))"
    using store_descriptors_succeeds [OF r(2) c(1) ys] by blast
  let ?B = "(body_at m)(arr \<mapsto> Array ys, ?a \<mapsto> Characteristic_body True u v (Some arr))"
  have same: "same_but ?a (body_at m) ?B" using m'(2) c(1) by (auto simp: same_but_def)
  have "arr \<noteq> ?a" using m'(2) c(1) by auto
  then have "chr_rep (dsc_at A) ?B ?a ((chrs h ! i)\<lparr>chr_descriptors := ds\<rparr>)"
    using c assms(3) by (auto simp: chr_rep_def array_holds_def)
  from represents_update_chr [OF r(1) _ same this]
  have "represents A ?B (h\<lparr>chrs := (chrs h)[i := (chrs h ! i)\<lparr>chr_descriptors := ds\<rparr>]\<rparr>)"
    using assms agree_lengths by simp
  then show ?thesis using agree_shrinks [OF assms(1) stores_descriptors [OF m'(1)] m'(3)] m'(1) by blast
qed

lemma agree_store_characteristic:
  assumes "agree A m h" "i < length (svcs h)" "j < length (chrs h)"
  shows "\<exists>m'. store_characteristic (svc_at A ! i) (chr_at A ! j) m = Ret m' \<and> svc_mutable (svcs h ! i) \<and>
    agree A m' (h\<lparr>svcs := (svcs h)[i := (svcs h ! i)\<lparr>svc_characteristics := svc_characteristics (svcs h ! i) @ [j]\<rparr>]\<rparr>)"
proof -
  let ?a = "svc_at A ! i" and ?b = "chr_at A ! j"
  obtain u old xs where c: "body_at m ?a = Some (Service_body True u old)" "array_holds (body_at m) old xs"
    "names (chr_at A) (svc_characteristics (svcs h ! i)) xs" "svc_mutable (svcs h ! i)"
    using agree_svc [OF assms(1,2)] by (auto simp: svc_rep_def)
  have r: "represents A (body_at m) h" "counted {} {} {} {#} m" using assms(1) by (simp_all add: agree_def)
  have j: "j < length (chr_at A)" using assms(3) agree_lengths [OF assms(1)] by simp
  then have "set (xs @ [?b]) \<subseteq> set (chr_at A)" using c(3) by (auto simp: names_def)
  then have ys: "set (xs @ [?b]) \<subseteq> dom (body_at m)" using agree_chr_live [OF assms(1)] by (rule subset_trans)
  have "elements old m = Ret xs"
    using c(2) by (cases old) (auto simp: elements_def array_holds_def dest!: body_at_cell)
  from store_characteristic_succeeds [OF r(2) c(1) this ys]
  obtain arr m' where m': "store_characteristic ?a ?b m = Ret m'" "body_at m arr = None"
    "body_at m' \<subseteq>\<^sub>m (body_at m)(arr \<mapsto> Array (xs @ [?b]), ?a \<mapsto> Service_body True u (Some arr))"
    by blast
  let ?B = "(body_at m)(arr \<mapsto> Array (xs @ [?b]), ?a \<mapsto> Service_body True u (Some arr))"
  let ?s = "(svcs h ! i)\<lparr>svc_characteristics := svc_characteristics (svcs h ! i) @ [j]\<rparr>"
  have same: "same_but ?a (body_at m) ?B" using m'(2) c(1) by (auto simp: same_but_def)
  have "arr \<noteq> ?a" using m'(2) c(1) by auto
  moreover have "names (chr_at A) (svc_characteristics (svcs h ! i) @ [j]) (xs @ [?b])"
    using c(3) j by (auto simp: names_def)
  ultimately have "svc_rep (chr_at A) ?B ?a ?s" using c(4) by (auto simp: svc_rep_def array_holds_def)
  from represents_update_svc [OF r(1) _ same this] have "represents A ?B (h\<lparr>svcs := (svcs h)[i := ?s]\<rparr>)"
    using assms agree_lengths by simp
  then show ?thesis using agree_shrinks [OF assms(1) stores_characteristic [OF m'(1)] m'(3)] m'(1) c(4) by blast
qed

text \<open>Bad numbers are found by both at the same place.\<close>

lemma object_at_bad: "\<not> i < length xs \<Longrightarrow> object_at xs i = Undef Out_of_bounds"
  by (simp add: object_at_def)

lemma addresses_all: "addresses as is =
    (if \<forall>i \<in> set is. i < length as then Ret (map (nth as) is) else Undef Out_of_bounds)"
  by (induction "is") (auto simp: address_of_def)

lemma checks_all: "ofold (\<lambda>_ i. obind (object_at xs i) (\<lambda>_. Ret ())) () is =
    (if \<forall>i \<in> set is. i < length xs then Ret () else Undef Out_of_bounds)"
  by (induction "is") (auto simp: object_at_def)

definition both :: "operation \<Rightarrow> naming \<Rightarrow> memory \<Rightarrow> objects \<Rightarrow> bool" where
  "both op A m h \<longleftrightarrow>
     (\<exists>h' A' m'. store_op op h = Ret h' \<and> memory_op op (A, m) = Ret (A', m') \<and> agree A' m' h') \<or>
     (store_op op h = Undef Out_of_bounds \<and> memory_op op (A, m) = Undef Out_of_bounds)"

lemma both_make_descriptor: "agree A m h \<Longrightarrow> both (Make_descriptor u v) A m h"
proof -
  assume agr: "agree A m h"
  obtain a m' where a: "alloc_descriptor m = Ret (a, m')" using allocations_succeed by blast
  then have "allocates m a m'" by (simp add: allocates_def)
  moreover obtain x y where "built m a (Descriptor_body x y) m'" using alloc_descriptor_built [OF a] by blast
  ultimately show ?thesis using agree_new(1) [OF agr allocates_happens _ allocates_owned, of a m'] a
    by (simp add: both_def descriptor_from_def)
qed

lemma both_make_characteristic:
  "agree A m h \<Longrightarrow> both (Make_characteristic u ps perms v) A m h"
  "agree A m h \<Longrightarrow> both (Make_managed u ps perms w) A m h"
proof -
  assume agr: "agree A m h"
  obtain a m' where a: "alloc_characteristic m = Ret (a, m')" using allocations_succeed by blast
  then have "allocates m a m'" by (simp add: allocates_def)
  moreover obtain x y where "built m a (Characteristic_body True x y None) m'"
    using alloc_characteristic_built [OF a] by blast
  ultimately show "both (Make_characteristic u ps perms v) A m h"
    using agree_new(2) [OF agr allocates_happens _ allocates_owned, of a m'] a
    by (simp add: both_def characteristic_from_def)
next
  assume agr: "agree A m h"
  obtain a m' where a: "alloc_managed_characteristic (w \<noteq> None) m = Ret (a, m')" using allocations_succeed by blast
  then have "allocates m a m'" by (cases "w \<noteq> None") (simp_all add: allocates_def)
  moreover obtain x y where "built m a (Characteristic_body True x y None) m'"
    using alloc_managed_characteristic_built [OF a] by blast
  ultimately show "both (Make_managed u ps perms w) A m h"
    using agree_new(2) [OF agr allocates_happens _ allocates_owned, of a m'] a
    by (simp add: both_def managed_characteristic_def)
qed

lemma both_make_service: "agree A m h \<Longrightarrow> both (Make_service u primary) A m h"
proof -
  assume agr: "agree A m h"
  obtain a m' where a: "alloc_managed_service m = Ret (a, m')" using allocations_succeed by blast
  then have "allocates m a m'" by (simp add: allocates_def)
  moreover obtain x where "built m a (Service_body True x None) m'" using alloc_managed_service_built [OF a] by blast
  ultimately show ?thesis using agree_new(3) [OF agr allocates_happens _ allocates_owned, of a m'] a
    by (simp add: both_def managed_service_def)
qed

lemma both_set_value: "agree A m h \<Longrightarrow> both (Set_value c v) A m h"
proof (cases "c < length (chrs h)")
  case True
  assume agr: "agree A m h"
  have "chr_mutable (chrs h ! c)" using agree_chr [OF agr True] by (simp add: chr_rep_def)
  moreover obtain m' where "store_value (chr_at A ! c) m = Ret m'"
    "agree A m' (h\<lparr>chrs := (chrs h)[c := (chrs h ! c)\<lparr>chr_value := Some v\<rparr>]\<rparr>)"
    using agree_store_value [OF agr True, of "Some v"] by blast
  ultimately show ?thesis using True agree_lengths [OF agr]
    by (simp add: both_def address_of_def characteristic_set_value_def change_characteristic_def)
qed (simp add: both_def address_of_def agree_lengths characteristic_set_value_def change_characteristic_def object_at_bad)

lemma both_set_descriptors: "agree A m h \<Longrightarrow> both (Set_descriptors c ds) A m h"
proof (cases "(\<forall>d \<in> set ds. d < length (dscs h)) \<and> c < length (chrs h)")
  case True
  assume agr: "agree A m h"
  have "chr_mutable (chrs h ! c)" using agree_chr [OF agr] True by (simp add: chr_rep_def)
  moreover have "names (dsc_at A) ds (map (nth (dsc_at A)) ds)" using True agree_lengths [OF agr] by (simp add: names_def)
  then obtain m' where "store_descriptors (chr_at A ! c) (map (nth (dsc_at A)) ds) m = Ret m'"
    "agree A m' (h\<lparr>chrs := (chrs h)[c := (chrs h ! c)\<lparr>chr_descriptors := ds\<rparr>]\<rparr>)"
    using agree_store_descriptors [OF agr] True by blast
  ultimately show ?thesis using True agree_lengths [OF agr]
    by (simp add: both_def addresses_all checks_all address_of_def characteristic_set_descriptors_def
        change_characteristic_def)
next
  case False
  assume agr: "agree A m h"
  then show ?thesis using False agree_lengths [OF agr]
    by (auto simp: both_def addresses_all checks_all address_of_def characteristic_set_descriptors_def
        change_characteristic_def object_at_bad)
qed

lemma both_add_to_service: "agree A m h \<Longrightarrow> both (Add_to_service s c) A m h"
proof (cases "c < length (chrs h) \<and> s < length (svcs h)")
  case True
  assume agr: "agree A m h"
  from True agree_store_characteristic [OF agr, of s c] show ?thesis using agree_lengths [OF agr]
    by (auto simp: both_def address_of_def managed_service_add_def)
next
  case False
  assume agr: "agree A m h"
  then show ?thesis using False agree_lengths [OF agr]
    by (auto simp: both_def address_of_def managed_service_add_def object_at_bad)
qed

lemma both_publish: "agree A m h \<Longrightarrow> both (Publish s) A m h"
proof (cases "s < length (svcs h)")
  case True
  assume agr: "agree A m h"
  let ?a = "svc_at A ! s"
  have r: "represents A (body_at m) h" using agr by (simp add: agree_def)
  obtain b where "body_at m ?a = Some b" using agree_svc [OF agr True] by (auto simp: svc_rep_def)
  then obtain m1 where m1: "retain ?a m = Ret m1" "body_at m1 = body_at m" using retain_succeeds by blast
  let ?m = "m1\<lparr>framework := framework m1 @ [?a]\<rparr>"
  have p: "publish_service ?a m = Ret ?m" using m1(1) by (simp add: publish_service_def)
  have "body_at ?m = body_at m" using m1(2) by (simp add: body_at_def fun_eq_iff)
  then have "agree A ?m h" using agree_shrinks [OF agr publishes [OF p] _ r] by simp
  then show ?thesis using p True agree_lengths [OF agr] by (simp add: both_def address_of_def)
qed (simp add: both_def address_of_def agree_lengths object_at_bad)

lemma both_drain: "agree A m h \<Longrightarrow> both Drain_pool A m h"
proof -
  assume agr: "agree A m h"
  then have r: "represents A (body_at m) h" and c: "counted {} {} {} {#} m" by (simp_all add: agree_def)
  then have "balanced (roots (m\<lparr>pool := []\<rparr>) + mset (pool m)) (cells (m\<lparr>pool := []\<rparr>))"
    by (simp add: counted_def roots_def ac_simps)
  then obtain cs where cs: "release_all (pool m) (cells m) = Ret cs" "thins (cells m) cs"
    using release_all_balanced by fastforce
  let ?m = "m\<lparr>pool := [], cells := cs\<rparr>"
  have d: "drain m = Ret ?m" using cs(1) by (simp add: drain_def release_def)
  have "body_at ?m \<subseteq>\<^sub>m body_at m" using cs(2) by (fastforce simp: map_le_def body_at_def thins_def dom_def)
  then have "agree A ?m h" using agree_shrinks [OF agr drains [OF d] _ r] by simp
  then show ?thesis using d by (simp add: both_def)
qed

lemma agree_both: "agree A m h \<Longrightarrow> both op A m h"
  by (cases op) (simp_all add: both_make_descriptor both_make_characteristic both_make_service both_set_value
      both_set_descriptors both_add_to_service both_publish both_drain)

definition store_run :: "operation list \<Rightarrow> objects outcome" where
  "store_run ops = ofold (\<lambda>h op. store_op op h) no_objects ops"

definition memory_run_of :: "operation list \<Rightarrow> (naming \<times> memory) outcome" where
  "memory_run_of ops = ofold (\<lambda>s op. memory_op op s) (no_names, no_memory) ops"

lemma agree_run: "agree A m h \<Longrightarrow>
    (\<exists>h' A' m'. ofold (\<lambda>h op. store_op op h) h ops = Ret h' \<and>
       ofold (\<lambda>s op. memory_op op s) (A, m) ops = Ret (A', m') \<and> agree A' m' h') \<or>
    (ofold (\<lambda>h op. store_op op h) h ops = Undef Out_of_bounds \<and>
       ofold (\<lambda>s op. memory_op op s) (A, m) ops = Undef Out_of_bounds)"
proof (induction ops arbitrary: A m h)
  case (Cons op ops)
  from agree_both [OF Cons.prems, of op, unfolded both_def] show ?case
  proof (elim disjE exE conjE)
    fix h' A' m'
    assume "store_op op h = Ret h'" "memory_op op (A, m) = Ret (A', m')" "agree A' m' h'"
    then show ?thesis using Cons.IH [of A' m' h'] by simp
  qed simp
qed simp

lemma agree_start: "agree no_names no_memory no_objects"
  by (simp add: agree_def represents_def no_names_def no_objects_def counted_start all_names_def)

lemma array_elements: "array_holds (body_at m) arr xs \<Longrightarrow> elements arr m = Ret xs"
  by (cases arr) (auto simp: elements_def array_holds_def dest!: body_at_cell)

lemma agree_descriptors:
  assumes "agree A m h"
  shows "obind (address_of (chr_at A) c) (\<lambda>a. wrapped_descriptors a m) =
    obind (characteristic_descriptors c h) (addresses (dsc_at A))"
proof (cases "c < length (chrs h)")
  case True
  obtain u v arr xs where b: "body_at m (chr_at A ! c) = Some (Characteristic_body True u v arr)"
    "array_holds (body_at m) arr xs" "names (dsc_at A) (chr_descriptors (chrs h ! c)) xs"
    using agree_chr [OF assms True] by (auto simp: chr_rep_def)
  obtain cl where "cell_at m (chr_at A ! c) = Ret cl" "cell_body cl = Characteristic_body True u v arr"
    using body_at_cell [OF b(1)] by blast
  then have "wrapped_descriptors (chr_at A ! c) m = Ret xs"
    using array_elements [OF b(2)] by (simp add: wrapped_descriptors_def)
  then show ?thesis using True b(3) agree_lengths [OF assms]
    by (simp add: address_of_def characteristic_descriptors_def addresses_all names_def)
qed (simp add: address_of_def agree_lengths [OF assms] characteristic_descriptors_def object_at_bad)

lemma agree_characteristics:
  assumes "agree A m h"
  shows "obind (address_of (svc_at A) s) (\<lambda>a. wrapped_characteristics a m) =
    obind (service_characteristics s h) (addresses (chr_at A))"
proof (cases "s < length (svcs h)")
  case True
  obtain u arr xs where b: "body_at m (svc_at A ! s) = Some (Service_body True u arr)"
    "array_holds (body_at m) arr xs" "names (chr_at A) (svc_characteristics (svcs h ! s)) xs"
    using agree_svc [OF assms True] by (auto simp: svc_rep_def)
  obtain cl where "cell_at m (svc_at A ! s) = Ret cl" "cell_body cl = Service_body True u arr"
    using body_at_cell [OF b(1)] by blast
  then have "wrapped_characteristics (svc_at A ! s) m = Ret xs"
    using array_elements [OF b(2)] by (simp add: wrapped_characteristics_def)
  then show ?thesis using True b(3) agree_lengths [OF assms]
    by (simp add: address_of_def service_characteristics_def addresses_all names_def)
qed (simp add: address_of_def agree_lengths [OF assms] service_characteristics_def object_at_bad)

section \<open>Property\<close>

text \<open>C25: A program that only builds its objects, and hands services to CoreBluetooth, sees memory that is
  never freed. Whatever it makes and links, and whenever the autorelease pool is drained between two of
  its calls, the run with retain counts succeeds exactly when the run on the plain store does, and both
  stop at the same bad object otherwise; no call is a use after free. At the end the getters of
  the characteristics and services give the addresses of exactly the objects that the store lists, in order,
  and every object that was made is alive.\<close>

theorem built_objects_agree:
  "(\<exists>h A m. store_run ops = Ret h \<and> memory_run_of ops = Ret (A, m) \<and>
     set (dsc_at A) \<union> set (chr_at A) \<union> set (svc_at A) \<subseteq> {a. \<exists>c. lookup (cells m) a = Some c} \<and>
     (\<forall>c. obind (address_of (chr_at A) c) (\<lambda>a. wrapped_descriptors a m) =
       obind (characteristic_descriptors c h) (addresses (dsc_at A))) \<and>
     (\<forall>s. obind (address_of (svc_at A) s) (\<lambda>a. wrapped_characteristics a m) =
       obind (service_characteristics s h) (addresses (chr_at A)))) \<or>
   (store_run ops = Undef Out_of_bounds \<and> memory_run_of ops = Undef Out_of_bounds)"
  using agree_run [OF agree_start, of ops]
proof (elim disjE exE conjE)
  fix h A m
  assume runs: "ofold (\<lambda>h op. store_op op h) no_objects ops = Ret h"
    "ofold (\<lambda>s op. memory_op op s) (no_names, no_memory) ops = Ret (A, m)" and agr: "agree A m h"
  have "dom (body_at m) = {a. \<exists>c. lookup (cells m) a = Some c}" by (auto simp: body_at_def)
  moreover have "all_names A \<subseteq> dom (body_at m)"
    using agr program_live [of "{}" "{}" "{}" m] unfolding agree_def by blast
  ultimately show ?thesis using runs agree_descriptors [OF agr] agree_characteristics [OF agr]
    by (simp add: store_run_def memory_run_of_def all_names_def)
qed (simp add: store_run_def memory_run_of_def)

end
