(* ===== verification/Object_Types.thy ===== *)
theory Object_Types
  imports Building
begin

text \<open>
  The classes of the objects in the memory of \<open>Lifetime\<close>: what the arrays, UUIDs and data that an object
  holds must be, and how the operations of the wrappers and of CoreBluetooth change the bodies, so that
  this stays true.
\<close>

section \<open>Wrappers\<close>

text \<open>The wrapper classes; each holds a raw pointer.\<close>

datatype handle =
    Descriptor (raw_of: nat)
  | Characteristic (raw_of: nat)
  | Managed_characteristic (raw_of: nat)
  | Service (raw_of: nat)
  | Managed_service (raw_of: nat)
  | Peripheral (raw_of: nat)

section \<open>Classes of objects\<close>

text \<open>What never changes of an object while it lives: its class, whether it is mutable, and its UUID object.\<close>

fun identity :: "body \<Rightarrow> body" where
  "identity Leaf = Leaf"
| "identity (Array xs) = Array []"
| "identity (Descriptor_body u v) = Descriptor_body u None"
| "identity (Characteristic_body b u v ds) = Characteristic_body b u None None"
| "identity (Service_body b u cs) = Service_body b u None"
| "identity (Peripheral_body ss) = Peripheral_body None"
| "identity (Manager_body q) = Manager_body q"

fun has_class :: "handle \<Rightarrow> body \<Rightarrow> bool" where
  "has_class (Descriptor r) (Descriptor_body u v) = True"
| "has_class (Characteristic r) (Characteristic_body b u v ds) = True"
| "has_class (Managed_characteristic r) (Characteristic_body b u v ds) = b"
| "has_class (Service r) (Service_body b u cs) = True"
| "has_class (Managed_service r) (Service_body b u cs) = b"
| "has_class (Peripheral r) (Peripheral_body ss) = True"
| "has_class x b = False"

lemma class_identity: "identity b = identity b' \<Longrightarrow> has_class x b = has_class x b'"
  by (cases b; cases b'; cases x) simp_all

definition is_live :: "memory \<Rightarrow> handle \<Rightarrow> bool" where
  "is_live m x \<longleftrightarrow> (\<exists>b. body_at m (raw_of x) = Some b \<and> has_class x b)"

text \<open>Properties hold objects of their class: the arrays, UUIDs and data of live objects.\<close>

definition is_leaf :: "(nat \<rightharpoonup> body) \<Rightarrow> nat \<Rightarrow> bool" where
  "is_leaf B a \<longleftrightarrow> B a = Some Leaf"

definition array_of :: "(nat \<Rightarrow> handle) \<Rightarrow> (nat \<rightharpoonup> body) \<Rightarrow> nat option \<Rightarrow> bool" where
  "array_of k B arr \<longleftrightarrow> (\<forall>a \<in> set (opt_list arr). \<exists>xs. B a = Some (Array xs) \<and>
     (\<forall>x \<in> set xs. \<exists>b. B x = Some b \<and> has_class (k x) b))"

fun body_ok :: "(nat \<rightharpoonup> body) \<Rightarrow> body \<Rightarrow> bool" where
  "body_ok B (Descriptor_body u v) \<longleftrightarrow> is_leaf B u \<and> (\<forall>a \<in> set (opt_list v). is_leaf B a)"
| "body_ok B (Characteristic_body b u v ds) \<longleftrightarrow>
     is_leaf B u \<and> (\<forall>a \<in> set (opt_list v). is_leaf B a) \<and> array_of Descriptor B ds"
| "body_ok B (Service_body b u cs) \<longleftrightarrow> is_leaf B u \<and> array_of Characteristic B cs"
| "body_ok B (Peripheral_body ss) \<longleftrightarrow> array_of Service B ss"
| "body_ok B _ \<longleftrightarrow> True"

definition well_typed :: "(nat \<rightharpoonup> body) \<Rightarrow> bool" where
  "well_typed B \<longleftrightarrow> (\<forall>a b. B a = Some b \<longrightarrow> body_ok B b)"

text \<open>Objects stay what they are, and arrays are not changed once they are held.\<close>

definition later_body :: "(nat \<rightharpoonup> body) \<Rightarrow> (nat \<rightharpoonup> body) \<Rightarrow> bool" where
  "later_body B B' \<longleftrightarrow> (\<forall>a b. B a = Some b \<longrightarrow>
     (\<exists>b'. B' a = Some b' \<and> identity b' = identity b \<and> (\<forall>xs. b = Array xs \<longrightarrow> b' = b)))"

lemma later_body_refl: "later_body B B"
  by (simp add: later_body_def)

lemma later_body_le: "B \<subseteq>\<^sub>m B' \<Longrightarrow> later_body B B'"
  by (auto simp: later_body_def dest: map_le_Some)

lemma later_body_at: "later_body B B' \<Longrightarrow> B a = Some b \<Longrightarrow> \<exists>b'. B' a = Some b' \<and> identity b' = identity b"
  unfolding later_body_def by blast

lemma identity_Leaf: "identity b = Leaf \<longleftrightarrow> b = Leaf"
  by (cases b) simp_all

lemma later_leaf: "later_body B B' \<Longrightarrow> is_leaf B a \<Longrightarrow> is_leaf B' a"
  using later_body_at identity_Leaf by (fastforce simp: is_leaf_def)

lemma later_class: "later_body B B' \<Longrightarrow> \<exists>b. B x = Some b \<and> has_class k b \<Longrightarrow> \<exists>b. B' x = Some b \<and> has_class k b"
  using later_body_at class_identity by blast

lemma later_array: "later_body B B' \<Longrightarrow> array_of k B arr \<Longrightarrow> array_of k B' arr"
proof -
  assume l: "later_body B B'" and "array_of k B arr"
  moreover have "B' a = Some (Array xs)" if "B a = Some (Array xs)" for a xs
    using l that unfolding later_body_def by blast
  ultimately show ?thesis unfolding array_of_def using later_class [OF l] by meson
qed

lemma later_ok: "later_body B B' \<Longrightarrow> body_ok B b \<Longrightarrow> body_ok B' b"
  by (cases b) (auto intro: later_leaf later_array)

lemma well_typed_later:
  assumes "well_typed B" "later_body B B'" "\<And>a b. B' a = Some b \<Longrightarrow> B a \<noteq> Some b \<Longrightarrow> body_ok B' b"
  shows "well_typed B'"
  unfolding well_typed_def using assms later_ok unfolding well_typed_def by metis

text \<open>Objects that are freed are not held.\<close>

lemma well_typed_restrict:
  assumes "well_typed B" "B' \<subseteq>\<^sub>m B" "closed B'"
  shows "well_typed B'"
proof -
  have le: "B a = Some b" if "B' a = Some b" for a b using map_le_Some [OF assms(2) that] .
  have live: "\<exists>b'. B' x = Some b'" if "B' a = Some b" "x \<in> set (children b)" for a b x
    using assms(3) that unfolding closed_def by blast
  have arr: "array_of k B' arr" if t: "array_of k B arr" "B' a = Some b" "set (opt_list arr) \<subseteq> set (children b)" for k arr a b
    unfolding array_of_def
  proof
    fix y assume y: "y \<in> set (opt_list arr)"
    then obtain xs where xs: "B y = Some (Array xs)" "\<forall>x \<in> set xs. \<exists>b. B x = Some b \<and> has_class (k x) b"
      using t(1) unfolding array_of_def by blast
    obtain b' where "B' y = Some b'" using live [OF t(2), of y] t(3) y by blast
    then have y': "B' y = Some (Array xs)" using le xs(1) by fastforce
    have "\<exists>b. B' x = Some b \<and> has_class (k x) b" if "x \<in> set xs" for x
      using live [OF y', of x] that xs(2) le by fastforce
    then show "\<exists>xs. B' y = Some (Array xs) \<and> (\<forall>x \<in> set xs. \<exists>b. B' x = Some b \<and> has_class (k x) b)" using y' by blast
  qed
  have leaf: "is_leaf B' u" if "is_leaf B u" "B' a = Some b" "u \<in> set (children b)" for u a b
    using live [OF that(2,3)] le that(1) by (fastforce simp: is_leaf_def)
  have "body_ok B' b" if "B' a = Some b" for a b
  proof -
    have "body_ok B b" using assms(1) le [OF that] unfolding well_typed_def by blast
    then show ?thesis using that by (cases b) (auto intro: leaf arr)
  qed
  then show ?thesis unfolding well_typed_def by blast
qed

section \<open>What a step does to the bodies\<close>

text \<open>
  A step makes objects and changes properties, so that the bodies are those of a later map \<open>B\<close>, and frees
  what is no longer held.
\<close>

definition evolves :: "memory \<Rightarrow> memory \<Rightarrow> bool" where
  "evolves m m' \<longleftrightarrow> (\<exists>B. body_at m' \<subseteq>\<^sub>m B \<and> later_body (body_at m) B \<and> well_typed B)"

lemma evolvesI:
  assumes "well_typed (body_at m)" "body_at m' \<subseteq>\<^sub>m B" "later_body (body_at m) B"
    and "\<And>a b. B a = Some b \<Longrightarrow> body_at m a \<noteq> Some b \<Longrightarrow> body_ok B b"
  shows "evolves m m'"
proof -
  have "well_typed B" by (rule well_typed_later [OF assms(1,3)]) (rule assms(4))
  then show ?thesis unfolding evolves_def using assms(2,3) by blast
qed

lemma evolves_same: "well_typed (body_at m) \<Longrightarrow> body_at m' \<subseteq>\<^sub>m body_at m \<Longrightarrow> evolves m m'"
  by (rule evolvesI) (auto simp: later_body_refl)

text \<open>Objects are made: the old ones stay as they are.\<close>

definition extends :: "(nat \<rightharpoonup> body) \<Rightarrow> (nat \<rightharpoonup> body) \<Rightarrow> bool" where
  "extends B B' \<longleftrightarrow> B \<subseteq>\<^sub>m B' \<and> (\<forall>a b. B' a = Some b \<longrightarrow> B a = None \<longrightarrow> body_ok B' b)"

lemma extends_refl: "extends B B"
  by (simp add: extends_def)

lemma extends_le: "extends B B' \<Longrightarrow> B a = Some b \<Longrightarrow> B' a = Some b"
  unfolding extends_def by (blast intro: map_le_Some)

lemma extends_trans: "extends B B1 \<Longrightarrow> extends B1 B2 \<Longrightarrow> extends B B2"
proof -
  assume e: "extends B B1" "extends B1 B2"
  have "body_ok B2 b" if "B2 a = Some b" "B a = None" for a b
  proof (cases "B1 a")
    case None
    then show ?thesis using e(2) that(1) by (simp add: extends_def)
  next
    case (Some b1)
    then have "b1 = b" using extends_le [OF e(2) Some] that(1) by simp
    then have "body_ok B1 b" using e(1) Some that(2) by (simp add: extends_def)
    moreover have "later_body B1 B2" using e(2) later_body_le unfolding extends_def by blast
    ultimately show ?thesis using later_ok by blast
  qed
  then show ?thesis using e map_le_trans by (auto simp: extends_def)
qed

lemma extends_new: "B a = None \<Longrightarrow> body_ok (B(a \<mapsto> b)) b \<Longrightarrow> extends B (B(a \<mapsto> b))"
  by (auto simp: extends_def map_le_def split: if_splits)

lemma evolves_extends: "well_typed (body_at m) \<Longrightarrow> extends (body_at m) (body_at m') \<Longrightarrow> evolves m m'"
proof -
  assume w: "well_typed (body_at m)" and e: "extends (body_at m) (body_at m')"
  have le: "body_at m \<subseteq>\<^sub>m body_at m'" using e by (simp add: extends_def)
  have "body_ok (body_at m') b" if "body_at m' a = Some b" "body_at m a \<noteq> Some b" for a b
    using that e map_le_Some [OF le, of a] by (cases "body_at m a") (auto simp: extends_def)
  then show ?thesis by (rule evolvesI [OF w map_le_refl later_body_le [OF le]])
qed

lemma new_object_extends:
  assumes "new_object b m = (a, m')" "body_ok (body_at m) b"
  shows "extends (body_at m) (body_at m') \<and> body_at m' a = Some b"
proof -
  have a: "a = length (cells m)" "body_at m' = (body_at m)(a \<mapsto> b)" using new_object_body [OF assms(1)] by simp_all
  then have "body_at m \<subseteq>\<^sub>m body_at m'" by (auto simp: map_le_def)
  then show ?thesis using a later_ok [OF later_body_le assms(2)] extends_new [of "body_at m" a b] by simp
qed

lemma temporary_extends: "temporary m = (a, m') \<Longrightarrow> extends (body_at m) (body_at m') \<and> is_leaf (body_at m') a"
  using temporary_bodies [of m a m'] extends_new [of "body_at m" a Leaf] by (auto simp: is_leaf_def)

lemma extends_leaf: "extends B B' \<Longrightarrow> is_leaf B a \<Longrightarrow> is_leaf B' a"
  by (auto simp: is_leaf_def dest: extends_le)

lemma new_cbuuid_extends: "new_cbuuid m = (a, m') \<Longrightarrow> extends (body_at m) (body_at m') \<and> is_leaf (body_at m') a"
  by (auto simp: new_cbuuid_def split: prod.splits dest!: temporary_extends intro: extends_trans)

lemma hold_extends:
  assumes "hold b m = Ret (a, m')" "body_ok (body_at m) b"
  shows "extends (body_at m) (body_at m') \<and> body_at m' a = Some b"
proof -
  have a: "a = length (cells m)" "body_at m' = (body_at m)(a \<mapsto> b)" using hold_body [OF assms(1)] by simp_all
  then have "body_at m \<subseteq>\<^sub>m body_at m'" by (auto simp: map_le_def)
  then show ?thesis using a later_ok [OF later_body_le assms(2)] extends_new [of "body_at m" a b] by simp
qed

text \<open>The constructors.\<close>

definition makes :: "memory \<Rightarrow> (nat \<Rightarrow> handle) \<Rightarrow> nat \<Rightarrow> memory \<Rightarrow> bool" where
  "makes m k r m' \<longleftrightarrow> extends (body_at m) (body_at m') \<and> (\<exists>b. body_at m' r = Some b \<and> has_class (k r) b)"

lemma hold_makes:
  assumes "extends (body_at m) (body_at m1)" "hold b m1 = Ret (r, m2)" "body_ok (body_at m1) b" "has_class (k r) b"
  shows "makes m k r (owned r m2)"
  using hold_extends [OF assms(2,3)] extends_trans [OF assms(1)] assms(4) by (auto simp: makes_def)

lemma no_array: "array_of k B None"
  by (simp add: array_of_def)

lemma constructors_make:
  "alloc_descriptor m = Ret (r, m') \<Longrightarrow> makes m Descriptor r m'"
  "alloc_characteristic m = Ret (r, m') \<Longrightarrow> makes m Characteristic r m'"
  "alloc_managed_characteristic b m = Ret (r, m') \<Longrightarrow> makes m Managed_characteristic r m'"
  "alloc_managed_service m = Ret (r, m') \<Longrightarrow> makes m Managed_service r m'"
proof -
  obtain u m1 where u: "new_cbuuid m = (u, m1)" by (metis surj_pair)
  obtain d m2 where d: "temporary m1 = (d, m2)" by (metis surj_pair)
  have e1: "extends (body_at m) (body_at m1)" "is_leaf (body_at m1) u" using new_cbuuid_extends [OF u] by simp_all
  have e2: "extends (body_at m) (body_at m2)" "is_leaf (body_at m2) u" "is_leaf (body_at m2) d"
    using temporary_extends [OF d] e1 extends_trans extends_leaf by blast+
  show "alloc_descriptor m = Ret (r, m') \<Longrightarrow> makes m Descriptor r m'"
    using hold_makes [OF e2(1)] e2 by (auto simp: alloc_descriptor_def u d obind_eq_Ret)
  show "alloc_characteristic m = Ret (r, m') \<Longrightarrow> makes m Characteristic r m'"
    using hold_makes [OF e2(1)] e2 no_array by (auto simp: alloc_characteristic_def u d obind_eq_Ret)
  show "alloc_managed_characteristic b m = Ret (r, m') \<Longrightarrow> makes m Managed_characteristic r m'"
    using hold_makes [OF e2(1)] hold_makes [OF e1(1)] e1 e2 no_array
    by (auto simp: alloc_managed_characteristic_def u d obind_eq_Ret split: if_splits)
  show "alloc_managed_service m = Ret (r, m') \<Longrightarrow> makes m Managed_service r m'"
    using hold_makes [OF e1(1)] e1 no_array by (auto simp: alloc_managed_service_def u obind_eq_Ret)
qed

lemma alloc_manager_extends: "alloc_manager m = Ret (r, m') \<Longrightarrow> extends (body_at m) (body_at m')"
  unfolding alloc_manager_def
  by (auto simp: obind_eq_Ret split: prod.splits dest!: new_object_extends hold_extends) (blast intro: extends_trans)

lemma finds_peripheral_makes: "finds_peripheral m = (r, m') \<Longrightarrow> makes m Peripheral r m'"
proof -
  assume f: "finds_peripheral m = (r, m')"
  obtain p m1 where n: "new_object (Peripheral_body None) m = (p, m1)" by (metis surj_pair)
  then have m': "r = p" "body_at m' = body_at m1" using f by (auto simp: finds_peripheral_def body_at_def)
  show ?thesis using new_object_extends [OF n] by (simp add: m' makes_def no_array)
qed

text \<open>A property of one object changes, after some objects are made.\<close>

lemma later_body_trans: "later_body B B1 \<Longrightarrow> later_body B1 B2 \<Longrightarrow> later_body B B2"
  unfolding later_body_def by (metis (no_types, lifting))

lemma evolves_update:
  assumes "well_typed (body_at m)" "extends (body_at m) B" "body_at m a = Some b0"
    and "identity b = identity b0" "\<nexists>xs. b0 = Array xs" "body_ok B b" "body_at m' \<subseteq>\<^sub>m B(a \<mapsto> b)"
  shows "evolves m m'"
proof -
  have l: "later_body (body_at m) B" using assms(2) later_body_le by (simp add: extends_def)
  have B: "well_typed B"
  proof (rule well_typed_later [OF assms(1) l])
    show "body_ok B c" if "B x = Some c" "body_at m x \<noteq> Some c" for x c
      using that assms(2) extends_le [OF assms(2), of x] by (cases "body_at m x") (auto simp: extends_def)
  qed
  have u: "later_body B (B(a \<mapsto> b))"
    using assms(4,5) extends_le [OF assms(2,3)] by (auto simp: later_body_def)
  have "body_ok (B(a \<mapsto> b)) c" if "(B(a \<mapsto> b)) x = Some c" for x c
    using later_ok [OF u] that B assms(6) by (auto simp: well_typed_def split: if_splits)
  then show ?thesis by (rule evolvesI [OF assms(1,7) later_body_trans [OF l u]])
qed

lemma store_value_mutable: "store_value r m = Ret m' \<Longrightarrow> \<exists>u v ds. body_at m r = Some (Characteristic_body True u v ds)"
proof -
  assume s: "store_value r m = Ret m'"
  obtain nsd m0 where t: "temporary m = (nsd, m0)" by (metis surj_pair)
  obtain c u v ds where "cell_at m0 r = Ret c" "cell_body c = Characteristic_body True u v ds"
    using s by (auto simp: store_value_def t obind_eq_Ret body_Ret)
  then have "body_at m0 r = Some (Characteristic_body True u v ds)" using cell_at_body by fastforce
  then show ?thesis using temporary_bodies [OF t] by (auto split: if_splits)
qed

lemma store_value_evolves:
  assumes "store_value r m = Ret m'" "well_typed (body_at m)" "counted {} {} {} {#} m"
  shows "evolves m m'"
proof -
  obtain u v ds where b: "body_at m r = Some (Characteristic_body True u v ds)"
    using store_value_mutable [OF assms(1)] by blast
  obtain nsd where n: "body_at m nsd = None"
    "body_at m' \<subseteq>\<^sub>m (body_at m)(nsd \<mapsto> Leaf, r \<mapsto> Characteristic_body True u (Some nsd) ds)"
    using store_value_succeeds [OF assms(3) b] assms(1) by auto
  let ?B = "(body_at m)(nsd \<mapsto> Leaf)"
  have e: "extends (body_at m) ?B" using extends_new [of "body_at m" nsd Leaf] n(1) by simp
  have "body_ok (body_at m) (Characteristic_body True u v ds)" using assms(2) b unfolding well_typed_def by blast
  then have "body_ok ?B (Characteristic_body True u v ds)" using later_ok later_body_le e unfolding extends_def by blast
  then have "body_ok ?B (Characteristic_body True u (Some nsd) ds)" by (simp add: is_leaf_def)
  from evolves_update [OF assms(2) e b _ _ this n(2)] show ?thesis by simp
qed

text \<open>Whoever is added to an array is alive.\<close>

lemma array_add_dom: "array_add arr m x = Ret m' \<Longrightarrow> x \<in> dom (body_at m) \<and> dom (body_at m') = dom (body_at m)"
proof -
  assume a: "array_add arr m x = Ret m'"
  obtain m1 c xs where m1: "retain x m = Ret m1" "cell_at m1 arr = Ret c" "set_body arr (Array (xs @ [x])) m1 = Ret m'"
    using a by (auto simp: array_add_def obind_eq_Ret body_Ret)
  have "body_at m1 = body_at m" using retain_same_bodies [OF m1(1)] by simp
  moreover have "x \<in> dom (body_at m)" using m1(1) by (auto simp: retain_def obind_eq_Ret cell_at_Ret body_at_def)
  moreover have "arr \<in> dom (body_at m1)" using cell_at_body [OF m1(2)] by blast
  ultimately show ?thesis using set_body_bodies [OF m1(3)] by auto
qed

lemma array_adds_dom: "ofold (array_add arr) m xs = Ret m' \<Longrightarrow> set xs \<subseteq> dom (body_at m)"
proof (induction xs arbitrary: m)
  case (Cons x xs)
  then obtain m1 where m1: "array_add arr m x = Ret m1" "ofold (array_add arr) m1 xs = Ret m'" by (auto simp: obind_eq_Ret)
  from array_add_dom [OF m1(1)] Cons.IH [OF m1(2)] show ?case by simp
qed simp

lemma new_array_extends: "new_array m = (arr, m') \<Longrightarrow> extends (body_at m) (body_at m') \<and> body_at m' arr = Some (Array [])"
  using new_array_bodies [of m arr m'] extends_new [of "body_at m" arr "Array []"] by auto

lemma store_descriptors_evolves:
  assumes "store_descriptors r ds m = Ret m'" "well_typed (body_at m)" "counted {} {} {} {#} m"
    and "\<And>d b. d \<in> set ds \<Longrightarrow> body_at m d = Some b \<Longrightarrow> has_class (Descriptor d) b" "\<And>d. d \<in> set ds \<Longrightarrow> d < length (cells m)"
  shows "evolves m m'"
proof -
  obtain arr m0 where n: "new_array m = (arr, m0)" by (metis surj_pair)
  have fresh: "arr = length (cells m)" "body_at m0 = (body_at m)(arr \<mapsto> Array [])" "body_at m arr = None"
    using n new_array_bodies [OF n] by (auto simp: new_array_def new_object_def)
  obtain m1 c u v old where m1: "ofold (array_add arr) m0 ds = Ret m1" "cell_at m1 r = Ret c"
    "cell_body c = Characteristic_body True u v old"
    using assms(1) by (auto simp: store_descriptors_def n obind_eq_Ret body_Ret)
  have dom: "set ds \<subseteq> dom (body_at m)" using array_adds_dom [OF m1(1)] assms(5) fresh(1,2) by fastforce
  have "body_at m1 = (body_at m)(arr \<mapsto> Array ds)"
    using array_adds_succeed [of m0 arr "[]" ds] array_adds_dom [OF m1(1)] fresh(2) m1(1) by auto
  then have b: "body_at m r = Some (Characteristic_body True u v old)"
    using cell_at_body [OF m1(2)] m1(3) by (auto split: if_splits)
  obtain arr where a: "body_at m arr = None"
    "body_at m' \<subseteq>\<^sub>m (body_at m)(arr \<mapsto> Array ds, r \<mapsto> Characteristic_body True u v (Some arr))"
    using store_descriptors_succeeds [OF assms(3) b dom] assms(1) by auto
  let ?B = "(body_at m)(arr \<mapsto> Array ds)"
  have e: "extends (body_at m) ?B" using extends_new [of "body_at m" arr "Array ds"] a(1) by simp
  have "body_ok (body_at m) (Characteristic_body True u v old)" using assms(2) b unfolding well_typed_def by blast
  then have ok: "body_ok ?B (Characteristic_body True u v old)" using later_ok later_body_le e unfolding extends_def by blast
  have "\<exists>b. ?B d = Some b \<and> has_class (Descriptor d) b" if "d \<in> set ds" for d
    using dom assms(4) that extends_le [OF e] by fastforce
  then have "array_of Descriptor ?B (Some arr)" by (simp add: array_of_def)
  with ok have "body_ok ?B (Characteristic_body True u v (Some arr))" by simp
  from evolves_update [OF assms(2) e b _ _ this a(2)] show ?thesis by simp
qed

text \<open>What a property array gives out.\<close>

lemma elements_class:
  "elements arr m = Ret xs \<Longrightarrow> array_of k (body_at m) arr \<Longrightarrow> x \<in> set xs \<Longrightarrow> raw_of (k x) = x \<Longrightarrow> is_live m (k x)"
  by (cases arr) (auto simp: elements_def array_of_def obind_eq_Ret body_Ret is_live_def dest!: cell_at_body)

lemma elements_return: "array_of k (body_at m) arr \<Longrightarrow> \<exists>xs. elements arr m = Ret xs"
  by (cases arr) (auto simp: elements_def array_of_def dest!: body_at_cell)

lemma managed_class: "has_class (Managed_characteristic c) b \<Longrightarrow> has_class (Characteristic c) b"
  by (cases b) simp_all

lemma store_characteristic_evolves:
  assumes "store_characteristic s c m = Ret m'" "well_typed (body_at m)" "counted {} {} {} {#} m"
    and "\<And>b. body_at m c = Some b \<Longrightarrow> has_class (Characteristic c) b" "c < length (cells m)"
  shows "evolves m m'"
proof -
  obtain xs arr0 m0 where n: "new_array m = (arr0, m0)" "wrapped_characteristics s m = Ret xs"
    using assms(1) by (cases "new_array m") (auto simp: store_characteristic_def obind_eq_Ret)
  have fresh: "arr0 = length (cells m)" "body_at m0 = (body_at m)(arr0 \<mapsto> Array [])" "body_at m arr0 = None"
    using n(1) new_array_bodies [OF n(1)] by (auto simp: new_array_def new_object_def)
  obtain m1 d u old where m1: "ofold (array_add arr0) m0 (xs @ [c]) = Ret m1" "cell_at m1 s = Ret d"
    "cell_body d = Service_body True u old"
    using assms(1) by (auto simp: store_characteristic_def n obind_eq_Ret body_Ret simp del: ofold.simps)
  have "body_at m1 = (body_at m)(arr0 \<mapsto> Array (xs @ [c]))"
    using array_adds_succeed [of m0 arr0 "[]" "xs @ [c]"] array_adds_dom [OF m1(1)] fresh(2) m1(1) by auto
  then have b: "body_at m s = Some (Service_body True u old)"
    using cell_at_body [OF m1(2)] m1(3) by (auto split: if_splits)
  then have xs: "elements old m = Ret xs"
    using n(2) body_at_cell [OF b] by (auto simp: wrapped_characteristics_def)
  have ok: "body_ok (body_at m) (Service_body True u old)" using assms(2) b unfolding well_typed_def by blast
  have live: "\<exists>b. body_at m x = Some b \<and> has_class (Characteristic x) b" if "x \<in> set xs" for x
    using elements_class [OF xs, of Characteristic] ok that by (auto simp: is_live_def)
  have "c \<in> dom (body_at m)" using array_adds_dom [OF m1(1)] assms(5) fresh(1,2) by auto
  then have all: "\<exists>b. body_at m x = Some b \<and> has_class (Characteristic x) b" if "x \<in> set (xs @ [c])" for x
    using live assms(4) that by auto
  then have dom: "set (xs @ [c]) \<subseteq> dom (body_at m)" by blast
  obtain arr where a: "body_at m arr = None"
    "body_at m' \<subseteq>\<^sub>m (body_at m)(arr \<mapsto> Array (xs @ [c]), s \<mapsto> Service_body True u (Some arr))"
    using store_characteristic_succeeds [OF assms(3) b xs dom] assms(1) by auto
  let ?B = "(body_at m)(arr \<mapsto> Array (xs @ [c]))"
  have e: "extends (body_at m) ?B" using extends_new [of "body_at m" arr "Array (xs @ [c])"] a(1) by simp
  have "array_of Characteristic ?B (Some arr)"
    unfolding array_of_def using all extends_le [OF e] by fastforce
  moreover have "is_leaf ?B u" using ok extends_leaf [OF e] by simp
  ultimately have "body_ok ?B (Service_body True u (Some arr))" by simp
  from evolves_update [OF assms(2) e b _ _ this a(2)] show ?thesis by simp
qed

text \<open>Releases change no body.\<close>

lemma release_all_thins: "release_all as cs = Ret cs' \<Longrightarrow> thins cs cs'"
proof (induction as cs rule: release_all.induct)
  case (2 a as cs)
  then obtain c where c: "lookup cs a = Some c" by (auto simp: release_all.simps(2) split: option.splits)
  show ?case
  proof (cases "retain_count c > 1")
    case True
    with 2(1) [OF c True] 2(3) c show ?thesis by (auto simp: release_all.simps(2) elim!: thins_update [OF _ c])
  next
    case False
    with 2(2) [OF c False] 2(3) c show ?thesis by (auto simp: release_all.simps(2) elim!: thins_update [OF _ c])
  qed
qed (simp add: thins_refl)

lemma release_bodies: "release as m = Ret m' \<Longrightarrow> body_at m' \<subseteq>\<^sub>m body_at m"
  using release_all_thins [of as "cells m"]
  by (fastforce simp: release_def obind_eq_Ret map_le_def body_at_def thins_def dom_def)

lemma forgets_bodies: "forgets r m = Ret m' \<Longrightarrow> body_at m' \<subseteq>\<^sub>m body_at m"
  unfolding forgets_def by (drule release_bodies) (simp add: map_le_def body_at_def)

lemma drain_bodies: "drain m = Ret m' \<Longrightarrow> body_at m' \<subseteq>\<^sub>m body_at m"
  unfolding drain_def by (drule release_bodies) (simp add: map_le_def body_at_def)

text \<open>A discovery.\<close>

lemma new_children_extends:
  "new_children mk n m = (xs, m') \<Longrightarrow> (\<And>B u. is_leaf B u \<Longrightarrow> body_ok B (mk u)) \<Longrightarrow>
    extends (body_at m) (body_at m') \<and> (\<forall>x \<in> set xs. \<exists>u. body_at m' x = Some (mk u))"
proof (induction n arbitrary: m xs)
  case (Suc n)
  obtain u m1 x m2 xs' where m: "new_object Leaf m = (u, m1)" "new_object (mk u) m1 = (x, m2)"
    "new_children mk n m2 = (xs', m')" "xs = x # xs'"
    using Suc.prems(1) by (auto split: prod.splits)
  have 1: "extends (body_at m) (body_at m1)" "is_leaf (body_at m1) u"
    using new_object_extends [OF m(1)] by (simp_all add: is_leaf_def)
  have 2: "extends (body_at m1) (body_at m2)" "body_at m2 x = Some (mk u)"
    using new_object_extends [OF m(2) Suc.prems(2) [OF 1(2)]] by simp_all
  have 3: "extends (body_at m2) (body_at m')" "\<forall>x \<in> set xs'. \<exists>u. body_at m' x = Some (mk u)"
    using Suc.IH [OF m(3) Suc.prems(2)] by simp_all
  show ?case using extends_trans [OF extends_trans [OF 1(1) 2(1)] 3(1)] 3(2) extends_le [OF 3(1) 2(2)] m(4) by auto
qed (simp add: extends_refl)

lemma discover_evolves:
  assumes "discover mk n a b old m = Ret m'" "well_typed (body_at m)" "body_at m a = Some b0"
    and "\<And>B u. is_leaf B u \<Longrightarrow> body_ok B (mk u)" "\<And>x u. has_class (k x) (mk u)"
    and "\<And>arr. identity (b arr) = identity b0" "\<nexists>xs. b0 = Array xs"
    and "\<And>B arr. extends (body_at m) B \<Longrightarrow> array_of k B (Some arr) \<Longrightarrow> body_ok B (b arr)"
  shows "evolves m m'"
proof -
  obtain xs m1 arr m2 where m: "new_children mk n m = (xs, m1)" "new_object (Array xs) m1 = (arr, m2)"
    by (metis surj_pair)
  then obtain m3 where m3: "set_body a (b arr) m2 = Ret m3" "release (opt_list old) m3 = Ret m'"
    using assms(1) by (auto simp: discover_def obind_eq_Ret)
  have 1: "extends (body_at m) (body_at m1)" "\<forall>x \<in> set xs. \<exists>u. body_at m1 x = Some (mk u)"
    using new_children_extends [OF m(1) assms(4)] by simp_all
  have 2: "extends (body_at m1) (body_at m2)" "body_at m2 arr = Some (Array xs)"
    using new_object_extends [OF m(2)] by simp_all
  have e: "extends (body_at m) (body_at m2)" using extends_trans [OF 1(1) 2(1)] .
  have "array_of k (body_at m2) (Some arr)"
    using 2(2) 1(2) assms(5) extends_le [OF 2(1)] by (simp add: array_of_def) blast
  then have ok: "body_ok (body_at m2) (b arr)" by (rule assms(8) [OF e])
  have "body_at m3 = (body_at m2)(a \<mapsto> b arr)" using set_body_bodies [OF m3(1)] by simp
  then have "body_at m' \<subseteq>\<^sub>m (body_at m2)(a \<mapsto> b arr)" using release_bodies [OF m3(2)] by simp
  from evolves_update [OF assms(2) e assms(3,6,7) ok this] show ?thesis .
qed

lemma discoveries_evolve:
  assumes "well_typed (body_at m)"
  shows "finds_services r n m = Ret m' \<Longrightarrow> evolves m m'"
    and "finds_characteristics r n m = Ret m' \<Longrightarrow> evolves m m'"
    and "finds_descriptors r n m = Ret m' \<Longrightarrow> evolves m m'"
proof -
  have ok: "body_ok (body_at m) b" if "body_at m a = Some b" for a b using assms that unfolding well_typed_def by blast
  show "evolves m m'" if f: "finds_services r n m = Ret m'"
  proof -
    obtain c old where c: "cell_at m r = Ret c" "cell_body c = Peripheral_body old"
      "discover (\<lambda>u. Service_body False u None) n r (\<lambda>arr. Peripheral_body (Some arr)) old m = Ret m'"
      using f by (auto simp: finds_services_def obind_eq_Ret body_Ret)
    show ?thesis
      by (rule discover_evolves [OF c(3) assms cell_at_body [OF c(1)], where k = Service]) (simp_all add: c(2) no_array)
  qed
  show "evolves m m'" if f: "finds_characteristics r n m = Ret m'"
  proof -
    obtain c b u old where c: "cell_at m r = Ret c" "cell_body c = Service_body b u old"
      "discover (\<lambda>u. Characteristic_body False u None None) n r (\<lambda>arr. Service_body b u (Some arr)) old m = Ret m'"
      using f by (auto simp: finds_characteristics_def obind_eq_Ret body_Ret)
    show ?thesis
      by (rule discover_evolves [OF c(3) assms cell_at_body [OF c(1)], where k = Characteristic])
        (use ok [OF cell_at_body [OF c(1)]] in \<open>auto simp: c(2) no_array intro: extends_leaf\<close>)
  qed
  show "evolves m m'" if f: "finds_descriptors r n m = Ret m'"
  proof -
    obtain c b u v old where c: "cell_at m r = Ret c" "cell_body c = Characteristic_body b u v old"
      "discover (\<lambda>u. Descriptor_body u None) n r (\<lambda>arr. Characteristic_body b u v (Some arr)) old m = Ret m'"
      using f by (auto simp: finds_descriptors_def obind_eq_Ret body_Ret)
    show ?thesis
      by (rule discover_evolves [OF c(3) assms cell_at_body [OF c(1)], where k = Descriptor])
        (use ok [OF cell_at_body [OF c(1)]] in \<open>auto simp: c(2) no_array intro: extends_leaf\<close>)
  qed
qed

end
