(* ===== verification/Handles.thy ===== *)
theory Handles
  imports Object_Types
begin

text \<open>
  The wrappers of \<open>btle/corebluetooth/bt.h\<close> over the memory of \<open>Lifetime\<close>: type soundness for a client that
  calls whatever it likes on the handles it holds, while CoreBluetooth discovers objects, replaces them,
  lets go of them, and the pools are drained. A handle names an object of the class that its C++ type
  promises, or one that is freed.
\<close>

section \<open>The code\<close>

text \<open>
  What the getters of \<open>types.mm\<close> for a value touch: the object and the data that its property holds. A
  message to nil answers zero, so that the bytes of a nil are none. The data that the bytes of a string are
  read from is a temporary of the getter, which it leaves to the pool.
\<close>

definition held_data :: "nat option \<Rightarrow> memory \<Rightarrow> unit outcome" where
  "held_data val m = (case val of None \<Rightarrow> Ret () | Some nsd \<Rightarrow> obind (cell_at m nsd) (\<lambda>_. Ret ()))"

definition wrapped_characteristic_value :: "nat \<Rightarrow> memory \<Rightarrow> unit outcome" where
  "wrapped_characteristic_value chr m = obind (cell_at m chr) (\<lambda>c. case cell_body c of
     Characteristic_body b u v ds \<Rightarrow> held_data v m | _ \<Rightarrow> Throw Objc_exception)"

definition wrapped_descriptor_value :: "nat \<Rightarrow> memory \<Rightarrow> unit outcome" where
  "wrapped_descriptor_value dsc m = obind (cell_at m dsc) (\<lambda>c. case cell_body c of
     Descriptor_body u v \<Rightarrow> held_data v m | _ \<Rightarrow> Throw Objc_exception)"

section \<open>Runs\<close>

text \<open>
  A client calls an operation on handles it holds and gets those that are returned; CoreBluetooth and the
  loops that drain the pools do what they like in between, and a peripheral that is discovered is handed
  to the client. A call that does not return ends the run.
\<close>

inductive holder :: "memory \<Rightarrow> handle set \<Rightarrow> memory \<Rightarrow> handle set \<Rightarrow> bool" for m hs where
  gets_descriptor: "alloc_descriptor m = Ret (r, m') \<Longrightarrow> holder m hs m' (insert (Descriptor r) hs)"
| gets_characteristic: "alloc_characteristic m = Ret (r, m') \<Longrightarrow> holder m hs m' (insert (Characteristic r) hs)"
| gets_managed: "alloc_managed_characteristic b m = Ret (r, m') \<Longrightarrow>
    holder m hs m' (insert (Managed_characteristic r) hs)"
| gets_service: "alloc_managed_service m = Ret (r, m') \<Longrightarrow> holder m hs m' (insert (Managed_service r) hs)"
| gets_manager: "alloc_manager m = Ret (r, m') \<Longrightarrow> holder m hs m' hs"
| sets_value: "Characteristic r \<in> hs \<or> Managed_characteristic r \<in> hs \<Longrightarrow> store_value r m = Ret m' \<Longrightarrow>
    holder m hs m' hs"
| sets_descriptors: "Characteristic r \<in> hs \<or> Managed_characteristic r \<in> hs \<Longrightarrow> Descriptor ` set ds \<subseteq> hs \<Longrightarrow>
    store_descriptors r ds m = Ret m' \<Longrightarrow> holder m hs m' hs"
| adds_characteristic: "Managed_service s \<in> hs \<Longrightarrow> Managed_characteristic c \<in> hs \<Longrightarrow>
    store_characteristic s c m = Ret m' \<Longrightarrow> holder m hs m' hs"
| hands_over: "Managed_service s \<in> hs \<Longrightarrow> publish_service s m = Ret m' \<Longrightarrow> holder m hs m' hs"
| connects: "Peripheral p \<in> hs \<Longrightarrow> request_connection p m = Ret m' \<Longrightarrow> holder m hs m' hs"
| reads_services: "Peripheral p \<in> hs \<Longrightarrow> wrapped_services p m = Ret ss \<Longrightarrow>
    holder m hs m (hs \<union> Service ` set ss)"
| reads_characteristics: "Service s \<in> hs \<Longrightarrow> wrapped_characteristics s m = Ret cs \<Longrightarrow>
    holder m hs m (hs \<union> Characteristic ` set cs)"
| reads_descriptors: "Characteristic c \<in> hs \<Longrightarrow> wrapped_descriptors c m = Ret ds \<Longrightarrow>
    holder m hs m (hs \<union> Descriptor ` set ds)"
| sees_peripheral: "finds_peripheral m = (p, m') \<Longrightarrow> holder m hs m' (insert (Peripheral p) hs)"
| sees_services: "finds_services r n m = Ret m' \<Longrightarrow> holder m hs m' hs"
| sees_characteristics: "finds_characteristics r n m = Ret m' \<Longrightarrow> holder m hs m' hs"
| sees_descriptors: "finds_descriptors r n m = Ret m' \<Longrightarrow> holder m hs m' hs"
| loses: "r \<in> set (framework m) \<Longrightarrow> forgets r m = Ret m' \<Longrightarrow> holder m hs m' hs"
| pool_drained: "drain m = Ret m' \<Longrightarrow> holder m hs m' hs"

inductive holder_run :: "memory \<Rightarrow> handle set \<Rightarrow> memory \<Rightarrow> handle set \<Rightarrow> bool" for m hs where
  holder_refl: "holder_run m hs m hs"
| holder_snoc: "holder_run m hs m1 hs1 \<Longrightarrow> holder m1 hs1 m2 hs2 \<Longrightarrow> holder_run m hs m2 hs2"

lemma holder_happens: "holder m hs m' hs' \<Longrightarrow> happens m m' \<or> m' = m"
  by (induction rule: holder.induct) (blast intro: happens.intros)+

section \<open>Soundness\<close>

text \<open>A handle names an object of its class, or one that is freed.\<close>

definition fits :: "memory \<Rightarrow> handle \<Rightarrow> bool" where
  "fits m x \<longleftrightarrow> raw_of x < length (cells m) \<and> (\<forall>b. body_at m (raw_of x) = Some b \<longrightarrow> has_class x b)"

definition sound :: "memory \<Rightarrow> handle set \<Rightarrow> bool" where
  "sound m hs \<longleftrightarrow> counted {} {} {} {#} m \<and> well_typed (body_at m) \<and> (\<forall>x \<in> hs. fits m x)"

text \<open>
  What time does to objects: one that lives is what it was, one that is freed stays so, and the program
  keeps what it owns.
\<close>

definition ages :: "memory \<Rightarrow> memory \<Rightarrow> bool" where
  "ages m m' \<longleftrightarrow> set (program m) \<subseteq> set (program m') \<and> (\<forall>a < length (cells m). a < length (cells m') \<and>
     (\<forall>b'. body_at m' a = Some b' \<longrightarrow> (\<exists>b. body_at m a = Some b \<and> identity b' = identity b)))"

lemma ages_refl: "ages m m"
  by (simp add: ages_def)

lemma ages_trans: "ages m m1 \<Longrightarrow> ages m1 m2 \<Longrightarrow> ages m m2"
  unfolding ages_def by (metis subset_trans)

lemma live_fits: "is_live m x \<Longrightarrow> fits m x"
  unfolding is_live_def fits_def using below_length by fastforce

lemma fits_ages: "fits m x \<Longrightarrow> ages m m' \<Longrightarrow> fits m' x"
  unfolding fits_def ages_def using class_identity by metis

lemma evolves_ages:
  assumes "evolves m m'" "happens m m' \<or> m' = m" "counted {} {} {} {#} m"
  shows "ages m m'"
proof (cases "m' = m")
  case False
  then have h: "happens m m'" using assms(2) by blast
  obtain B where B: "body_at m' \<subseteq>\<^sub>m B" "later_body (body_at m) B" using assms(1) by (auto simp: evolves_def)
  have c: "counted (set (program m)) {} {} {#} m" using assms(3) by (simp add: counted_def)
  have p: "set (program m) \<subseteq> set (program m')" by (rule program_kept [OF h assms(3)])
  have "a < length (cells m') \<and> (\<forall>b'. body_at m' a = Some b' \<longrightarrow> (\<exists>b. body_at m a = Some b \<and> identity b' = identity b))"
    if a: "a < length (cells m)" for a
  proof
    show "a < length (cells m')"
    proof (cases "a \<in> set (program m)")
      case True
      then show ?thesis using p program_live [OF happens_counted [OF h assms(3)]] below_length by blast
    next
      case False
      then have "counted {} {a} {} {#} m" using assms(3) a by (auto simp: counted_def)
      from happens_counted [OF h this] show ?thesis by (simp add: counted_def)
    qed
    show "\<forall>b'. body_at m' a = Some b' \<longrightarrow> (\<exists>b. body_at m a = Some b \<and> identity b' = identity b)"
    proof (cases "body_at m a")
      case None
      then have "counted {} {} {a} {#} m" using assms(3) a by (auto simp: counted_def body_at_def)
      from happens_counted [OF h this] show ?thesis by (simp add: counted_def body_at_def)
    next
      case (Some b)
      then show ?thesis using later_body_at [OF B(2) Some] map_le_Some [OF B(1)] by fastforce
    qed
  qed
  then show ?thesis using p by (simp add: ages_def)
qed (simp add: ages_refl)

lemma makes_evolves: "makes m k r m' \<Longrightarrow> well_typed (body_at m) \<Longrightarrow> evolves m m'"
  by (simp add: makes_def evolves_extends)

lemma framework_bodies: "body_at (m\<lparr>framework := f\<rparr>) = body_at m"
  by (simp add: body_at_def fun_eq_iff)

lemma holder_evolves: "holder m hs m' hs' \<Longrightarrow> sound m hs \<Longrightarrow> evolves m m'"
proof (induction rule: holder.induct)
  case (sets_value r m')
  then show ?case by (simp add: sound_def store_value_evolves)
next
  case (sets_descriptors r ds m')
  then have "fits m (Descriptor d)" if "d \<in> set ds" for d using that by (auto simp: sound_def)
  then show ?case using sets_descriptors by (intro store_descriptors_evolves) (auto simp: sound_def fits_def)
next
  case (adds_characteristic s c m')
  then have "fits m (Managed_characteristic c)" by (simp add: sound_def)
  then show ?case using adds_characteristic managed_class
    by (intro store_characteristic_evolves) (auto simp: sound_def fits_def)
next
  case (hands_over s m')
  then obtain m1 where "retain s m = Ret m1" "m' = m1\<lparr>framework := framework m1 @ [s]\<rparr>"
    by (auto simp: publish_service_def obind_eq_Ret)
  then have "body_at m' = body_at m" using retain_same_bodies [of s m m1] by (simp add: framework_bodies)
  then show ?case using hands_over by (simp add: sound_def evolves_same)
next
  case (connects p m')
  then show ?case by (simp add: request_connection_def obind_eq_Ret sound_def evolves_same)
next
  case (loses r m')
  then show ?case using forgets_bodies by (simp add: sound_def evolves_same)
next
  case (pool_drained m')
  then show ?case using drain_bodies by (simp add: sound_def evolves_same)
qed (auto simp: sound_def evolves_same dest!: constructors_make finds_peripheral_makes
    intro: makes_evolves evolves_extends alloc_manager_extends discoveries_evolve)

lemma makes_live: "makes m k r m' \<Longrightarrow> raw_of (k r) = r \<Longrightarrow> is_live m' (k r)"
  by (auto simp: makes_def is_live_def)

lemma wrapped_class:
  assumes "well_typed (body_at m)"
  shows "wrapped_services p m = Ret ss \<Longrightarrow> s \<in> set ss \<Longrightarrow> is_live m (Service s)"
    and "wrapped_characteristics q m = Ret cs \<Longrightarrow> c \<in> set cs \<Longrightarrow> is_live m (Characteristic c)"
    and "wrapped_descriptors r m = Ret ds \<Longrightarrow> d \<in> set ds \<Longrightarrow> is_live m (Descriptor d)"
proof -
  have ok: "body_ok (body_at m) (cell_body c)" if "cell_at m a = Ret c" for a c
    using assms cell_at_body [OF that] unfolding well_typed_def by blast
  show "wrapped_services p m = Ret ss \<Longrightarrow> s \<in> set ss \<Longrightarrow> is_live m (Service s)"
    by (auto simp: wrapped_services_def obind_eq_Ret body_Ret dest!: ok elim!: elements_class)
  show "wrapped_characteristics q m = Ret cs \<Longrightarrow> c \<in> set cs \<Longrightarrow> is_live m (Characteristic c)"
    by (auto simp: wrapped_characteristics_def obind_eq_Ret body_Ret dest!: ok elim!: elements_class)
  show "wrapped_descriptors r m = Ret ds \<Longrightarrow> d \<in> set ds \<Longrightarrow> is_live m (Descriptor d)"
    by (auto simp: wrapped_descriptors_def obind_eq_Ret body_Ret dest!: ok elim!: elements_class)
qed

lemma holder_news: "holder m hs m' hs' \<Longrightarrow> well_typed (body_at m) \<Longrightarrow> x \<in> hs' \<Longrightarrow> x \<in> hs \<or> is_live m' x"
  by (induction rule: holder.induct)
    (auto dest!: constructors_make finds_peripheral_makes dest: makes_live wrapped_class)

lemma holder_sound: "holder m hs m' hs' \<Longrightarrow> sound m hs \<Longrightarrow> sound m' hs' \<and> ages m m'"
proof -
  assume h: "holder m hs m' hs'" and s: "sound m hs"
  have e: "evolves m m'" by (rule holder_evolves [OF h s])
  have c: "counted {} {} {} {#} m" using s by (simp add: sound_def)
  have a: "ages m m'" by (rule evolves_ages [OF e holder_happens [OF h] c])
  have c': "counted {} {} {} {#} m'" using holder_happens [OF h] happens_counted [OF _ c] c by blast
  obtain B where "body_at m' \<subseteq>\<^sub>m B" "well_typed B" using e by (auto simp: evolves_def)
  then have w: "well_typed (body_at m')" using well_typed_restrict counted_closed [OF c'] by blast
  have "fits m' x" if "x \<in> hs'" for x
    using holder_news [OF h _ that] s fits_ages [OF _ a] live_fits unfolding sound_def by blast
  with c' w a show ?thesis by (simp add: sound_def)
qed

lemma holder_run_sound: "holder_run m hs m' hs' \<Longrightarrow> sound m hs \<Longrightarrow> sound m' hs' \<and> ages m m'"
  by (induction rule: holder_run.induct) (auto simp: ages_refl dest: holder_sound intro: ages_trans)

lemma sound_start: "sound no_memory {}"
proof -
  have "well_typed (body_at no_memory)" by (simp add: well_typed_def body_at_def no_memory_def lookup.simps)
  then show ?thesis using counted_start by (simp add: sound_def)
qed

section \<open>What the calls on a handle do\<close>

text \<open>Every object in a list is alive and of its class.\<close>

definition all_live :: "memory \<Rightarrow> (nat \<Rightarrow> handle) \<Rightarrow> nat list \<Rightarrow> bool" where
  "all_live m k as \<longleftrightarrow> (\<forall>a \<in> set as. is_live m (k a))"

text \<open>
  The calls return, and the getters return live objects of their class; but the setters of
  \<open>Characteristic\<close> are not understood by an object that is not mutable.
\<close>

function answers :: "memory \<Rightarrow> handle \<Rightarrow> bool" where
  "answers m (Descriptor d) \<longleftrightarrow> returns (wrapped_descriptor_value d m)"
| "answers m (Characteristic c) \<longleftrightarrow> returns (wrapped_characteristic_value c m) \<and>
     (\<exists>ds. wrapped_descriptors c m = Ret ds \<and> all_live m Descriptor ds) \<and>
     (is_live m (Managed_characteristic c) \<or> store_value c m = Throw Objc_exception \<and>
       (\<forall>ds. all_live m Descriptor ds \<longrightarrow> store_descriptors c ds m = Throw Objc_exception)) \<and>
     (is_live m (Managed_characteristic c) \<longrightarrow> answers m (Managed_characteristic c))"
| "answers m (Managed_characteristic c) \<longleftrightarrow> returns (store_value c m) \<and>
     (\<forall>ds. all_live m Descriptor ds \<longrightarrow> returns (store_descriptors c ds m))"
| "answers m (Service s) \<longleftrightarrow> (\<exists>cs. wrapped_characteristics s m = Ret cs \<and> all_live m Characteristic cs)"
| "answers m (Managed_service s) \<longleftrightarrow> returns (publish_service s m) \<and>
     (\<forall>c. is_live m (Managed_characteristic c) \<longrightarrow> returns (store_characteristic s c m))"
| "answers m (Peripheral p) \<longleftrightarrow> request_connection p m = Ret m \<and>
     (\<exists>ss. wrapped_services p m = Ret ss \<and> all_live m Service ss)"
  by pat_completeness auto

termination by (relation "measure (\<lambda>(m, x). case x of Characteristic c \<Rightarrow> 1 | _ \<Rightarrow> 0)") auto

text \<open>Every call on a handle of a freed object uses it after its lifetime.\<close>

fun dangles :: "memory \<Rightarrow> handle \<Rightarrow> bool" where
  "dangles m (Descriptor d) \<longleftrightarrow> lookup (cells m) d = None \<and> wrapped_descriptor_value d m = Undef Use_after_free"
| "dangles m (Characteristic c) \<longleftrightarrow> lookup (cells m) c = None \<and>
     wrapped_characteristic_value c m = Undef Use_after_free \<and> wrapped_descriptors c m = Undef Use_after_free \<and>
     store_value c m = Undef Use_after_free \<and>
     (\<forall>ds. all_live m Descriptor ds \<longrightarrow> store_descriptors c ds m = Undef Use_after_free)"
| "dangles m (Managed_characteristic c) \<longleftrightarrow> lookup (cells m) c = None \<and> store_value c m = Undef Use_after_free \<and>
     (\<forall>ds. all_live m Descriptor ds \<longrightarrow> store_descriptors c ds m = Undef Use_after_free)"
| "dangles m (Service s) \<longleftrightarrow> lookup (cells m) s = None \<and> wrapped_characteristics s m = Undef Use_after_free"
| "dangles m (Managed_service s) \<longleftrightarrow> lookup (cells m) s = None \<and> publish_service s m = Undef Use_after_free \<and>
     (\<forall>c. store_characteristic s c m = Undef Use_after_free)"
| "dangles m (Peripheral p) \<longleftrightarrow> lookup (cells m) p = None \<and>
     request_connection p m = Undef Use_after_free \<and> wrapped_services p m = Undef Use_after_free"

lemma all_live_dom: "all_live m k as \<Longrightarrow> (\<And>a. raw_of (k a) = a) \<Longrightarrow> set as \<subseteq> dom (body_at m)"
  by (auto simp: all_live_def is_live_def)

text \<open>The array of a setter is filled; what happens next depends on the characteristic.\<close>

lemma store_descriptors_fills:
  assumes "all_live m Descriptor ds" "c < length (cells m)"
  shows "\<exists>arr m1. new_array m = (arr, fst m1) \<and> ofold (array_add arr) (fst m1) ds = Ret (snd m1) \<and>
    body_at (snd m1) c = body_at m c"
proof -
  obtain arr m0 where n: "new_array m = (arr, m0)" by (metis surj_pair)
  have fresh: "arr = length (cells m)" "body_at m0 = (body_at m)(arr \<mapsto> Array [])" "body_at m arr = None"
    using n new_array_bodies [OF n] by (auto simp: new_array_def new_object_def)
  have "set ds \<subseteq> dom (body_at m0)" using all_live_dom [OF assms(1)] fresh(2) by auto
  then obtain m1 where "ofold (array_add arr) m0 ds = Ret m1" "body_at m1 = (body_at m0)(arr \<mapsto> Array ds)"
    using array_adds_succeed [of m0 arr "[]" ds] fresh(2) by auto
  then show ?thesis using n fresh assms(2) by (intro exI [of _ arr] exI [of _ "(m0, m1)"]) simp
qed

lemma no_body: "body_at m a = None \<Longrightarrow> cell_at m a = Undef Use_after_free"
  by (simp add: body_at_def cell_at_def)

lemma freed_setters:
  assumes "body_at m c = None" "c < length (cells m)"
  shows "store_value c m = Undef Use_after_free"
    and "all_live m Descriptor ds \<Longrightarrow> store_descriptors c ds m = Undef Use_after_free"
proof -
  obtain nsd m0 where t: "temporary m = (nsd, m0)" by (metis surj_pair)
  then have "body_at m0 c = None" using temporary_bodies [OF t] assms by auto
  then show "store_value c m = Undef Use_after_free" using no_body [of m0 c] by (simp add: store_value_def t)
  assume "all_live m Descriptor ds"
  from store_descriptors_fills [OF this assms(2)] obtain arr m1 where m1: "new_array m = (arr, fst m1)"
    "ofold (array_add arr) (fst m1) ds = Ret (snd m1)" "body_at (snd m1) c = body_at m c" by blast
  with assms(1) no_body [of "snd m1" c] show "store_descriptors c ds m = Undef Use_after_free"
    by (simp add: store_descriptors_def)
qed

lemma discovered_setters:
  assumes "body_at m c = Some (Characteristic_body False u v old)"
  shows "store_value c m = Throw Objc_exception"
    and "all_live m Descriptor ds \<Longrightarrow> store_descriptors c ds m = Throw Objc_exception"
proof -
  obtain nsd m0 where t: "temporary m = (nsd, m0)" by (metis surj_pair)
  then have "body_at m0 c = Some (Characteristic_body False u v old)" using temporary_bodies [OF t] assms by auto
  from body_at_cell [OF this] show "store_value c m = Throw Objc_exception" by (auto simp: store_value_def t)
  assume "all_live m Descriptor ds"
  from store_descriptors_fills [OF this below_length [OF assms]] obtain arr m1 where m1: "new_array m = (arr, fst m1)"
    "ofold (array_add arr) (fst m1) ds = Ret (snd m1)" "body_at (snd m1) c = body_at m c" by blast
  with body_at_cell [of "snd m1" c] assms show "store_descriptors c ds m = Throw Objc_exception"
    by (auto simp: store_descriptors_def)
qed

lemma freed_dangles:
  assumes "raw_of x < length (cells m)" "body_at m (raw_of x) = None"
  shows "dangles m x"
proof -
  have "lookup (cells m) (raw_of x) = None" using assms(2) by (simp add: body_at_def)
  moreover have "cell_at m (raw_of x) = Undef Use_after_free" by (rule no_body [OF assms(2)])
  ultimately show ?thesis using freed_setters [OF assms(2,1)]
    by (cases x) (auto simp: wrapped_descriptor_value_def wrapped_characteristic_value_def wrapped_descriptors_def
        wrapped_characteristics_def wrapped_services_def request_connection_def publish_service_def retain_def
        store_characteristic_def)
qed

lemma held_data_returns: "(\<forall>a \<in> set (opt_list v). is_leaf (body_at m) a) \<Longrightarrow> held_data v m = Ret ()"
  by (cases v) (auto simp: held_data_def is_leaf_def dest!: body_at_cell)

lemma elements_live: "array_of k (body_at m) arr \<Longrightarrow> (\<And>a. raw_of (k a) = a) \<Longrightarrow>
    \<exists>xs. elements arr m = Ret xs \<and> all_live m k xs"
  using elements_return elements_class unfolding all_live_def by metis

lemma live_answers:
  assumes "counted {} {} {} {#} m" "well_typed (body_at m)" "is_live m x"
  shows "answers m x"
proof -
  obtain b where b: "body_at m (raw_of x) = Some b" "has_class x b" using assms(3) by (auto simp: is_live_def)
  have ok: "body_ok (body_at m) b" using assms(2) b(1) unfolding well_typed_def by blast
  obtain c where c: "cell_at m (raw_of x) = Ret c" "cell_body c = b" using body_at_cell [OF b(1)] by blast
  have managed: "answers m (Managed_characteristic r)" if "body_at m r = Some (Characteristic_body True u v ds)" for r u v ds
    using store_value_succeeds [OF assms(1) that] store_descriptors_succeeds [OF assms(1) that] all_live_dom
    by (fastforce simp: returns_iff)
  show ?thesis
  proof (cases x)
    case (Descriptor d)
    then show ?thesis using b c ok held_data_returns by (cases b) (auto simp: wrapped_descriptor_value_def)
  next
    case (Characteristic r)
    then obtain t u v ds where t: "b = Characteristic_body t u v ds" using b(2) by (cases b) auto
    have "\<exists>xs. elements ds m = Ret xs \<and> all_live m Descriptor xs" using ok t by (intro elements_live) simp_all
    then show ?thesis using Characteristic b c ok t held_data_returns managed discovered_setters
      by (cases t) (auto simp: wrapped_characteristic_value_def wrapped_descriptors_def is_live_def)
  next
    case (Managed_characteristic r)
    then show ?thesis using b managed by (cases b) auto
  next
    case (Service s)
    then obtain t u cs where t: "b = Service_body t u cs" using b(2) by (cases b) auto
    have "\<exists>xs. elements cs m = Ret xs \<and> all_live m Characteristic xs" using ok t by (intro elements_live) simp_all
    then show ?thesis using Service c t by (auto simp: wrapped_characteristics_def)
  next
    case (Managed_service s)
    then obtain u cs where t: "b = Service_body True u cs" using b(2) by (cases b) auto
    obtain xs where xs: "elements cs m = Ret xs" "all_live m Characteristic xs"
      using elements_live [of Characteristic m cs] ok t by auto
    have "returns (store_characteristic s q m)" if "is_live m (Managed_characteristic q)" for q
    proof -
      have "set (xs @ [q]) \<subseteq> dom (body_at m)" using all_live_dom [OF xs(2)] that by (auto simp: is_live_def)
      from store_characteristic_succeeds [OF assms(1) _ xs(1) this, of s u] b t Managed_service
      show ?thesis by (auto simp: returns_iff)
    qed
    then show ?thesis using Managed_service c by (simp add: publish_service_def retain_def)
  next
    case (Peripheral p)
    then obtain ss where t: "b = Peripheral_body ss" using b(2) by (cases b) auto
    have "\<exists>xs. elements ss m = Ret xs \<and> all_live m Service xs" using ok t by (intro elements_live) simp_all
    then show ?thesis using Peripheral c t by (auto simp: wrapped_services_def request_connection_def)
  qed
qed

text \<open>What is known of a handle in two states of a run.\<close>

lemma handle_cases:
  assumes "sound m hs" "x \<in> hs"
  shows "is_live m x \<and> answers m x \<or> \<not> is_live m x \<and> dangles m x"
proof (cases "body_at m (raw_of x)")
  case None
  then show ?thesis using assms freed_dangles [of x m] by (auto simp: sound_def fits_def is_live_def)
next
  case (Some b)
  then have "is_live m x" using assms by (auto simp: sound_def fits_def is_live_def)
  then show ?thesis using assms(1) live_answers by (auto simp: sound_def)
qed

lemma live_before:
  assumes "fits m x" "ages m m'" "is_live m' x"
  shows "is_live m x \<and> map_option identity (body_at m' (raw_of x)) = map_option identity (body_at m (raw_of x))"
proof -
  obtain b' where b': "body_at m' (raw_of x) = Some b'" "has_class x b'" using assms(3) by (auto simp: is_live_def)
  then obtain b where b: "body_at m (raw_of x) = Some b" "identity b' = identity b"
    using assms(1,2) unfolding fits_def ages_def by blast
  then show ?thesis using assms(1) b' by (auto simp: fits_def is_live_def)
qed

lemma owned_live: "sound m hs \<Longrightarrow> x \<in> hs \<Longrightarrow> raw_of x \<in> set (program m) \<Longrightarrow> is_live m x"
  using program_live [of "{}" "{}" "{}" m] by (fastforce simp: sound_def fits_def is_live_def)

text \<open>A handle that is held in one state of a run, and a later state.\<close>

lemma later_handle:
  assumes "holder_run no_memory {} m hs" "x \<in> hs" "holder_run m hs m' hs'"
  shows "sound m {x} \<and> sound m' {x} \<and> ages m m'"
proof -
  have s: "sound m hs" using holder_run_sound [OF assms(1) sound_start] by simp
  then have x: "sound m {x}" "fits m x" using assms(2) by (simp_all add: sound_def)
  have "sound m' hs'" "ages m m'" using holder_run_sound [OF assms(3) s] by simp_all
  with x fits_ages show ?thesis by (auto simp: sound_def)
qed

section \<open>Property\<close>


lemma run_with_both:
  "\<exists>c p m m'. holder_run no_memory {} m {Peripheral p, Managed_characteristic c} \<and> c \<in> set (program m) \<and>
    holder_run m {Peripheral p, Managed_characteristic c} m' {Peripheral p, Managed_characteristic c} \<and>
    lookup (cells m') p = None"
proof -
  obtain c m1 where c: "alloc_managed_characteristic True no_memory = Ret (c, m1)" using allocations_succeed(3) by blast
  have 1: "holder_run no_memory {} m1 {Managed_characteristic c}"
    by (rule holder_snoc [OF holder_refl gets_managed [OF c]])
  obtain p m2 where p: "finds_peripheral m1 = (p, m2)" by (metis surj_pair)
  have 2: "holder_run no_memory {} m2 {Peripheral p, Managed_characteristic c}"
    by (rule holder_snoc [OF 1 sees_peripheral [OF p]])
  have m2: "lookup (cells m2) p = Some \<lparr>retain_count = 1, cell_body = Peripheral_body None\<rparr>" "p \<in> set (framework m2)"
    "program m2 = program m1"
    using p by (auto simp: finds_peripheral_def new_object_def lookup_append)
  have "counted {} {} {} {#} m2" using holder_run_sound [OF 2 sound_start] by (simp add: sound_def)
  then obtain m3 where m3: "forgets p m2 = Ret m3" using forgets_released m2(2) by blast
  have "lookup (cells m3) p = None"
    using m3 m2(1) by (auto simp: forgets_def release_def release_all.simps lookup_replace)
  moreover have "c \<in> set (program m2)" using allocates_owned [of no_memory c m1] c m2(3) by (simp add: allocates_def)
  ultimately show ?thesis using 2 holder_snoc [OF holder_refl loses [OF m2(2) m3]] by blast
qed


end
