(* ===== verification/Identifiers.thy ===== *)
theory Identifiers
  imports Handles
begin

text \<open>
  The identifiers of Bluetooth objects: the five getters of \<open>types.mm\<close>, on the memory of \<open>Lifetime\<close>, and how
  the text that CoreBluetooth gives for an identifier is read.
\<close>

section \<open>The code\<close>

text \<open>
  \<open>UUIDString\<close> is the text of the \<open>CBUUID\<close> at an address or, for a peripheral, that of the \<open>NSUUID\<close> that is
  its identifier; these objects are immutable.
\<close>

definition descriptor_uuid ::
  "(string \<Rightarrow> string option) \<Rightarrow> (nat \<Rightarrow> string) \<Rightarrow> nat \<Rightarrow> memory \<Rightarrow> uuid outcome" where
  "descriptor_uuid HexStringToBytes UUIDString raw m = obind (cell_at m raw) (\<lambda>dsc. case cell_body dsc of
     Descriptor_body u v \<Rightarrow> obind (cell_at m u) (\<lambda>_. object_uuid HexStringToBytes (UUIDString u))
   | _ \<Rightarrow> Throw Objc_exception)"

definition characteristic_uuid ::
  "(string \<Rightarrow> string option) \<Rightarrow> (nat \<Rightarrow> string) \<Rightarrow> nat \<Rightarrow> memory \<Rightarrow> uuid outcome" where
  "characteristic_uuid HexStringToBytes UUIDString raw m = obind (cell_at m raw) (\<lambda>chr. case cell_body chr of
     Characteristic_body b u v ds \<Rightarrow> obind (cell_at m u) (\<lambda>_. object_uuid HexStringToBytes (UUIDString u))
   | _ \<Rightarrow> Throw Objc_exception)"

definition managed_characteristic_uuid ::
  "(string \<Rightarrow> string option) \<Rightarrow> (nat \<Rightarrow> string) \<Rightarrow> nat \<Rightarrow> memory \<Rightarrow> uuid outcome" where
  "managed_characteristic_uuid HexStringToBytes UUIDString raw m = obind (cell_at m raw) (\<lambda>chr. case cell_body chr of
     Characteristic_body b u v ds \<Rightarrow> obind (cell_at m u) (\<lambda>_. object_uuid HexStringToBytes (UUIDString u))
   | _ \<Rightarrow> Throw Objc_exception)"

definition service_uuid ::
  "(string \<Rightarrow> string option) \<Rightarrow> (nat \<Rightarrow> string) \<Rightarrow> nat \<Rightarrow> memory \<Rightarrow> uuid outcome" where
  "service_uuid HexStringToBytes UUIDString raw m = obind (cell_at m raw) (\<lambda>svc. case cell_body svc of
     Service_body b u cs \<Rightarrow> obind (cell_at m u) (\<lambda>_. object_uuid HexStringToBytes (UUIDString u))
   | _ \<Rightarrow> Throw Objc_exception)"

definition peripheral_uuid ::
  "(string \<Rightarrow> string option) \<Rightarrow> (nat \<Rightarrow> string) \<Rightarrow> nat \<Rightarrow> memory \<Rightarrow> uuid outcome" where
  "peripheral_uuid HexStringToBytes UUIDString raw m = obind (cell_at m raw) (\<lambda>prph. case cell_body prph of
     Peripheral_body ss \<Rightarrow> (let
       str = UUIDString raw;
       cpp_str = str in
       object_uuid HexStringToBytes cpp_str)
   | _ \<Rightarrow> Throw Objc_exception)"

section \<open>Texts\<close>

definition long_form :: "uuid \<Rightarrow> string \<Rightarrow> bool" where
  "long_form u str \<longleftrightarrow> uuid_wf u \<and> map to_lower str = uuid_to_string hex_byte u"

definition short_form :: "string \<Rightarrow> bool" where
  "short_form str \<longleftrightarrow> list_all is_hex str \<and> length str \<in> {4, 8}"

lemma object_uuid_long:
  assumes "hex_api H" "long_form u str"
  shows "object_uuid H str = Ret u"
proof -
  have api: "uuid_text H hex_byte" using assms(1) ref_format.format_api_axioms by (simp add: uuid_text_def)
  have low: "map to_lower str = uuid_to_string hex_byte u" "uuid_wf u" using assms(2) by (simp_all add: long_form_def)
  have "list_all ctype_ok (map to_lower str)" unfolding low(1) by (rule ref_format.ctype_ok_of_string)
  moreover have "map to_lower (filter alnum str) = filter alnum (uuid_to_string hex_byte u)"
    by (simp only: low(1) flip: filter_to_lower)
  ultimately have "uuid_parse H str = Ret (Some u)"
    using uuid_text.uuid_parse_iff [OF api low(2)] by (simp add: list.pred_map comp_def)
  then show ?thesis by (simp add: object_uuid_def)
qed

lemma object_uuid_short: "hex_api H \<Longrightarrow> short_form str \<Longrightarrow> object_uuid H str = Throw Bad_optional_access"
  using is_hex_alnum
  by (auto simp: short_form_def object_uuid_def hex_api.uuid_parse_spec list_all_iff filter_id_conv)

section \<open>Identifiers of handles\<close>

text \<open>The getter of a handle; \<open>ManagedService\<close> has none.\<close>

fun gets_uuid ::
  "(string \<Rightarrow> string option) \<Rightarrow> (nat \<Rightarrow> string) \<Rightarrow> (nat \<Rightarrow> string) \<Rightarrow> handle \<Rightarrow> memory \<Rightarrow> uuid outcome option" where
  "gets_uuid H U N (Descriptor r) m = Some (descriptor_uuid H U r m)"
| "gets_uuid H U N (Characteristic r) m = Some (characteristic_uuid H U r m)"
| "gets_uuid H U N (Managed_characteristic r) m = Some (managed_characteristic_uuid H U r m)"
| "gets_uuid H U N (Service r) m = Some (service_uuid H U r m)"
| "gets_uuid H U N (Managed_service r) m = None"
| "gets_uuid H U N (Peripheral r) m = Some (peripheral_uuid H N r m)"

text \<open>The text that CoreBluetooth shows for a live object.\<close>

definition shown :: "(nat \<Rightarrow> string) \<Rightarrow> (nat \<Rightarrow> string) \<Rightarrow> memory \<Rightarrow> handle \<Rightarrow> string option" where
  "shown U N m x = (case body_at m (raw_of x) of
     Some (Descriptor_body u v) \<Rightarrow> Some (U u)
   | Some (Characteristic_body b u v ds) \<Rightarrow> Some (U u)
   | Some (Service_body b u cs) \<Rightarrow> Some (U u)
   | Some (Peripheral_body ss) \<Rightarrow> Some (N (raw_of x))
   | _ \<Rightarrow> None)"

lemma shown_identity:
  "map_option identity (body_at m' (raw_of x)) = map_option identity (body_at m (raw_of x)) \<Longrightarrow>
    shown U N m' x = shown U N m x"
  unfolding shown_def by (cases "body_at m (raw_of x)"; cases "body_at m' (raw_of x)") (auto elim!: identity.elims)

lemma gets_uuid_None: "gets_uuid H U N x m = None \<longleftrightarrow> (\<exists>r. x = Managed_service r)"
  by (cases x) simp_all

text \<open>The UUID object of a live object lives.\<close>

lemma live_uuid:
  assumes "well_typed (body_at m)" "is_live m x"
  shows "\<exists>str. shown U N m x = Some str \<and> gets_uuid H U N x m \<in> {None, Some (object_uuid H str)}"
proof -
  obtain b where b: "body_at m (raw_of x) = Some b" "has_class x b" using assms(2) by (auto simp: is_live_def)
  have ok: "body_ok (body_at m) b" using assms(1) b(1) unfolding well_typed_def by blast
  obtain c where c: "cell_at m (raw_of x) = Ret c" "cell_body c = b" using body_at_cell [OF b(1)] by blast
  have leaf: "is_leaf (body_at m) u \<Longrightarrow> \<exists>c. cell_at m u = Ret c" for u
    using body_at_cell by (fastforce simp: is_leaf_def)
  show ?thesis using b c ok
    by (cases x; cases b) (auto simp: shown_def descriptor_uuid_def characteristic_uuid_def
        managed_characteristic_uuid_def service_uuid_def peripheral_uuid_def dest!: leaf)
qed

lemma freed_uuid: "body_at m (raw_of x) = None \<Longrightarrow> gets_uuid H U N x m \<in> {None, Some (Undef Use_after_free)}"
  using no_body [of m "raw_of x"]
  by (cases x) (simp_all add: descriptor_uuid_def characteristic_uuid_def managed_characteristic_uuid_def
      service_uuid_def peripheral_uuid_def)

section \<open>Property\<close>

text \<open>C31: The identifier of an object never changes while it lives. Whatever client and CoreBluetooth do after a
  handle was got, its object is freed and its getter is a use after free, which never happens to what the
  program allocated, or the object still has the UUID object it had, alive, and the getter answers as it did
  then. It returns the identifier that CoreBluetooth shows in the long form, in either case, as it does
  for peripherals; but when CoreBluetooth shows the short form of four or eight digits, as it does for the
  assigned numbers of the standard services and characteristics, the getter throws
  \<open>std::bad_optional_access\<close>.\<close>

theorem identifiers_stay:
  assumes "hex_api H" and "holder_run no_memory {} m hs" and "x \<in> hs" and "holder_run m hs m' hs'"
  shows "lookup (cells m') (raw_of x) = None \<and> raw_of x \<notin> set (program m) \<and>
      gets_uuid H U N x m' \<in> {None, Some (Undef Use_after_free)} \<or>
    is_live m' x \<and> gets_uuid H U N x m' = gets_uuid H U N x m \<and>
      (\<exists>str. shown U N m x = Some str \<and> shown U N m' x = Some str \<and>
        (\<forall>u. long_form u str \<longrightarrow> gets_uuid H U N x m' \<in> {None, Some (Ret u)}) \<and>
        (short_form str \<longrightarrow> gets_uuid H U N x m' \<in> {None, Some (Throw Bad_optional_access)}))"
proof -
  note later = later_handle [OF assms(2-4)]
  then have f: "fits m x" and w: "well_typed (body_at m)" "well_typed (body_at m')" and x': "sound m' {x}"
    and a: "ages m m'" by (simp_all add: sound_def)
  show ?thesis
  proof (cases "body_at m' (raw_of x)")
    case None
    then have "\<not> is_live m' x" by (simp add: is_live_def)
    then have "raw_of x \<notin> set (program m)" using owned_live [OF x', of x] a by (auto simp: ages_def)
    then show ?thesis using freed_uuid [OF None] None by (simp add: body_at_def)
  next
    case (Some b)
    then have l': "is_live m' x" using x' by (simp add: sound_def fits_def is_live_def)
    note l = live_before [OF f a this]
    have same: "shown U N m' x = shown U N m x" using l by (intro shown_identity) simp
    obtain str where str: "shown U N m x = Some str" "gets_uuid H U N x m \<in> {None, Some (object_uuid H str)}"
      "gets_uuid H U N x m' \<in> {None, Some (object_uuid H str)}"
      using live_uuid [OF w(1) conjunct1 [OF l], of U N H] live_uuid [OF w(2) l', of U N H] same by auto
    then have "gets_uuid H U N x m' = gets_uuid H U N x m"
      using gets_uuid_None [of H U N x m] gets_uuid_None [of H U N x m'] by auto
    then show ?thesis
      using l' str same object_uuid_long [OF assms(1)] object_uuid_short [OF assms(1)] by auto
  qed
qed

theorem identifiers_stay_witness:
  "\<exists>m c. characteristic_uuid ref_HexStringToBytes (\<lambda>a. ''123E4567-E89B-12D3-A456-426614174000'') c m = Ret sample_uuid \<and>
    characteristic_uuid ref_HexStringToBytes (\<lambda>a. ''180D'') c m = Throw Bad_optional_access"
proof -
  obtain c m where c: "alloc_characteristic no_memory = Ret (c, m)" using allocations_succeed(2) by blast
  have run: "holder_run no_memory {} m {Characteristic c}"
    by (rule holder_snoc [OF holder_refl gets_characteristic [OF c]])
  have owned: "c \<in> set (program m)" using allocates_owned [of no_memory c m] c by (simp add: allocates_def)
  have "map to_lower ''123E4567-E89B-12D3-A456-426614174000'' = ''123e4567-e89b-12d3-a456-426614174000''"
    by code_simp
  then have l: "long_form sample_uuid ''123E4567-E89B-12D3-A456-426614174000''"
    by (simp only: long_form_def sample_uuid_wf sample_uuid_text)
  have s: "short_form ''180D''" by code_simp
  have const: "shown (\<lambda>a. t) (\<lambda>a. t) m (Characteristic c) \<in> {None, Some t}" for t
    by (auto simp: shown_def split: option.splits body.splits)
  note stay = identifiers_stay [OF ref_hex.hex_api_axioms run _ holder_refl, of "Characteristic c"]
  have "characteristic_uuid ref_HexStringToBytes (\<lambda>a. ''123E4567-E89B-12D3-A456-426614174000'') c m = Ret sample_uuid"
    using stay [of "\<lambda>a. ''123E4567-E89B-12D3-A456-426614174000''" "\<lambda>a. ''123E4567-E89B-12D3-A456-426614174000''"]
      const [of "''123E4567-E89B-12D3-A456-426614174000''"] l owned by auto
  moreover have "characteristic_uuid ref_HexStringToBytes (\<lambda>a. ''180D'') c m = Throw Bad_optional_access"
    using stay [of "\<lambda>a. ''180D''" "\<lambda>a. ''180D''"] const [of "''180D''"] s owned by auto
  ultimately show ?thesis by blast
qed

end
