(* ===== verification/Adapter.thy ===== *)
theory Adapter
  imports Corebluetooth
begin

text \<open>
  The class \<open>Adapter\<close> of \<open>btle/corebluetooth/cbtle.cpp\<close>. Neither the class nor the functions \<open>cb::\<close> that it
  calls are declared anywhere, so the functions are parameters: functions on the state \<open>'w\<close> of what lies
  behind them, with managers of type \<open>'m\<close>, callbacks of type \<open>'f\<close> and characteristics of type \<open>'c\<close>.
\<close>

section \<open>The code\<close>

record ('w, 'm, 'f, 'c) cb =
  create_central_manager :: "'w \<Rightarrow> 'm \<times> 'w"
  create_peripheral_manager :: "'w \<Rightarrow> 'm \<times> 'w"
  destroy_central_manager :: "'m \<Rightarrow> 'w \<Rightarrow> 'w"
  destroy_peripheral_manager :: "'m \<Rightarrow> 'w \<Rightarrow> 'w"
  set_discovered_peripheral_callback :: "'f \<Rightarrow> 'w \<Rightarrow> 'w"
  set_connection_callback :: "'f \<Rightarrow> 'w \<Rightarrow> 'w"
  set_subscription_callback :: "'f \<Rightarrow> 'w \<Rightarrow> 'w"
  set_data_received_callback :: "'f \<Rightarrow> 'w \<Rightarrow> 'w"
  cb_start_scanning :: "'m \<Rightarrow> 'w \<Rightarrow> 'w"
  cb_stop_scanning :: "'m \<Rightarrow> 'w \<Rightarrow> 'w"
  sleep_ms :: "nat \<Rightarrow> 'w \<Rightarrow> 'w"
  cb_start_advertising :: "'m \<Rightarrow> advertising_data \<Rightarrow> 'w \<Rightarrow> 'w"
  cb_stop_advertising :: "'m \<Rightarrow> 'w \<Rightarrow> 'w"
  cb_disconnect_from_peripheral :: "'m \<Rightarrow> uuid \<Rightarrow> 'w \<Rightarrow> 'w"
  cb_add_service :: "'m \<Rightarrow> uuid \<Rightarrow> 'c list \<Rightarrow> 'w \<Rightarrow> 'w"

record 'f delegate =
  discovered_peripheral_callback :: 'f
  connection_callback :: 'f
  subscription_callback :: 'f
  data_received_callback :: 'f

record 'm adapter =
  central_manager_wrapper :: 'm
  peripheral_manager_wrapper :: 'm

definition new_adapter :: "('w, 'm, 'f, 'c) cb \<Rightarrow> 'f delegate \<Rightarrow> 'w \<Rightarrow> 'm adapter \<times> 'w" where
  "new_adapter cb delegate w = (let
     (central, w) = create_central_manager cb w;
     (peripheral, w) = create_peripheral_manager cb w;
     w = set_discovered_peripheral_callback cb (discovered_peripheral_callback delegate) w;
     w = set_connection_callback cb (connection_callback delegate) w;
     w = set_subscription_callback cb (subscription_callback delegate) w;
     w = set_data_received_callback cb (data_received_callback delegate) w in
     (\<lparr>central_manager_wrapper = central, peripheral_manager_wrapper = peripheral\<rparr>, w))"

definition destroy_adapter :: "('w, 'm, 'f, 'c) cb \<Rightarrow> 'm adapter \<Rightarrow> 'w \<Rightarrow> 'w" where
  "destroy_adapter cb a w = (let
     w = destroy_central_manager cb (central_manager_wrapper a) w in
     destroy_peripheral_manager cb (peripheral_manager_wrapper a) w)"

definition start_scanning :: "('w, 'm, 'f, 'c) cb \<Rightarrow> 'm adapter \<Rightarrow> 'w \<Rightarrow> 'w" where
  "start_scanning cb a w = cb_start_scanning cb (central_manager_wrapper a) w"

definition stop_scanning :: "('w, 'm, 'f, 'c) cb \<Rightarrow> 'm adapter \<Rightarrow> 'w \<Rightarrow> 'w" where
  "stop_scanning cb a w = cb_stop_scanning cb (central_manager_wrapper a) w"

definition adapter_advertise :: "('w, 'm, 'f, 'c) cb \<Rightarrow> 'm adapter \<Rightarrow> advertising_data \<Rightarrow> 'w \<Rightarrow> 'w" where
  "adapter_advertise cb a data w = (let
     w = sleep_ms cb 100 w in
     cb_start_advertising cb (peripheral_manager_wrapper a) data w)"

definition adapter_stop_advertise :: "('w, 'm, 'f, 'c) cb \<Rightarrow> 'm adapter \<Rightarrow> 'w \<Rightarrow> 'w" where
  "adapter_stop_advertise cb a w = cb_stop_advertising cb (peripheral_manager_wrapper a) w"

definition disconnect_from_peripheral :: "('w, 'm, 'f, 'c) cb \<Rightarrow> 'm adapter \<Rightarrow> uuid \<Rightarrow> 'w \<Rightarrow> 'w" where
  "disconnect_from_peripheral cb a u w = cb_disconnect_from_peripheral cb (central_manager_wrapper a) u w"

text \<open>The body names \<open>service_uuid\<close>, which is not declared; the parameter \<open>uuid\<close> is not used.\<close>

definition adapter_service :: "uuid \<Rightarrow> ('w, 'm, 'f, 'c) cb \<Rightarrow> 'm adapter \<Rightarrow> uuid \<Rightarrow> 'c list \<Rightarrow> 'w \<Rightarrow> 'w" where
  "adapter_service service_uuid cb a u characteristics w =
     cb_add_service cb (peripheral_manager_wrapper a) service_uuid characteristics w"

section \<open>What an adapter uses\<close>

text \<open>
  The identifier that is passed to \<open>add_service\<close> does not matter, and the callbacks are set without a
  manager: of a delegate nothing but the four calls remains, after the managers are created.
\<close>

lemma adapter_service_ignores_uuid: "adapter_service service_uuid cb a u cs = adapter_service service_uuid cb a u' cs"
  by (simp add: adapter_service_def fun_eq_iff)

lemma new_adapter_managers:
  "fst (new_adapter cb d w) = fst (new_adapter cb d' w)"
  "create_central_manager cb w = (c, w1) \<Longrightarrow> create_peripheral_manager cb w1 = (p, w2) \<Longrightarrow>
    new_adapter cb d w = (\<lparr>central_manager_wrapper = c, peripheral_manager_wrapper = p\<rparr>,
      set_data_received_callback cb (data_received_callback d) (set_subscription_callback cb (subscription_callback d)
        (set_connection_callback cb (connection_callback d)
          (set_discovered_peripheral_callback cb (discovered_peripheral_callback d) w2))))"
  by (simp_all add: new_adapter_def case_prod_unfold Let_def)

lemma adapter_life:
  "create_central_manager cb w = (c, w1) \<Longrightarrow> create_peripheral_manager cb w1 = (p, w2) \<Longrightarrow>
    destroy_adapter cb (fst (new_adapter cb d w)) w' = destroy_peripheral_manager cb p (destroy_central_manager cb c w')"
  by (simp add: new_adapter_managers(2) destroy_adapter_def)

end
