(* ===== verification/Btle.thy ===== *)
theory Btle
  imports Corebluetooth Crypto
begin

text \<open>
  \<open>btle/btle.h\<close>: the received packet, the stream multiplexer, and the builders of characteristics and
  services, on top of the CoreBluetooth wrapper.
\<close>

section \<open>The code\<close>

subsection \<open>Packets\<close>

text \<open>The message \<open>Packet\<close> of \<open>proto/messages.proto\<close>, without the version, which no code reads.\<close>

record packet_proto =
  proto_from :: bytes
  proto_signature :: bytes
  proto_data :: bytes
  proto_timestamp :: u64
  proto_checksum :: u64

record packet =
  packet_from :: pubkey
  packet_signature :: signature
  packet_data :: bytes
  packet_timestamp :: u64
  packet_checksum :: u64

text \<open>\<open>ParseFromArray\<close> gives its success and the message it leaves; the success is not looked at.\<close>

definition packet_from_proto :: "(bytes \<Rightarrow> bool \<times> packet_proto) \<Rightarrow> bytes \<Rightarrow> packet outcome" where
  "packet_from_proto ParsePacket data = (let
     (_, proto_packet) = ParsePacket data;
     data_bytes = proto_data proto_packet in
     obind (pubkey_from_stringbytes (proto_from proto_packet)) (\<lambda>from_key.
     obind (signature_from_stringbytes (proto_signature proto_packet)) (\<lambda>sig.
     Ret \<lparr>packet_from = from_key, packet_signature = sig, packet_data = data_bytes,
       packet_timestamp = proto_timestamp proto_packet, packet_checksum = proto_checksum proto_packet\<rparr>)))"

subsection \<open>The stream multiplexer\<close>

definition default_connect_options :: connect_options where
  "default_connect_options =
     \<lparr>notify_on_connection = False, notify_on_disconnection = False, notify_on_notification = False\<rparr>"

definition named_advertising_options :: "string \<Rightarrow> advertising_options" where
  "named_advertising_options name = \<lparr>opt_local_name = name, include_tx_power_level = False,
     include_local_name = False, include_device_name = False, opt_service_uuids = [], opt_manufacturer_data = [],
     opt_service_data = [], overflow_service_uuids = [], solicited_service_uuids = []\<rparr>"

text \<open>
  The two adapters and the map of data channels, of type \<open>'d\<close>; the channel of streams, which no code
  uses, is left out. The client state of the callbacks is the list of commands given to CoreBluetooth.
\<close>

record 'd stream_multiplexer =
  mux_central :: "command list central_adapter"
  mux_peripheral :: "command list peripheral_adapter"
  mux_streams :: "pubkey \<rightharpoonup> 'd"

definition StreamMultiplexer :: "'d stream_multiplexer" where
  "StreamMultiplexer = \<lparr>mux_central = CentralAdapter, mux_peripheral = PeripheralAdapter, mux_streams = Map.empty\<rparr>"

definition streams_channel :: "'d stream_multiplexer \<Rightarrow> pubkey \<rightharpoonup> 'd" where
  "streams_channel m = mux_streams m"

definition stream_multiplexer_run :: "'d stream_multiplexer \<Rightarrow> command list \<Rightarrow> 'd stream_multiplexer \<times> command list" where
  "stream_multiplexer_run m log = (let
     m = m\<lparr>mux_central := central_on_discovery (Some (\<lambda>raw _ log.
       let peripheral = peripheral_from_raw raw :: unit peripheral in
       central_connect peripheral default_connect_options log)) (mux_central m)\<rparr>;
     log = adapter_start_advertising (named_advertising_options ''hrafn'') log in
     (m, log))"

subsection \<open>Builders\<close>

definition todo :: "string \<Rightarrow> 'a outcome" where
  "todo msg = Terminate"

record characteristic_builder =
  builder_properties :: u32
  builder_value :: "bytes option"
  builder_permissions :: permissions
  builder_uuid :: uuid

definition CharacteristicBuilder :: "uuid \<Rightarrow> characteristic_builder" where
  "CharacteristicBuilder u = \<lparr>builder_properties = 0, builder_value = None,
     builder_permissions = \<lparr>perm_read = False, perm_write = False\<rparr>, builder_uuid = u\<rparr>"

definition set_permissions :: "permissions \<Rightarrow> characteristic_builder \<Rightarrow> characteristic_builder" where
  "set_permissions permission b = b\<lparr>builder_permissions := permission\<rparr>"

definition add_property :: "characteristic_property \<Rightarrow> characteristic_builder \<Rightarrow> characteristic_builder" where
  "add_property property b = b\<lparr>builder_properties := builder_properties b OR property_value property\<rparr>"

definition set_cached_value :: "bytes \<Rightarrow> characteristic_builder \<Rightarrow> characteristic_builder outcome" where
  "set_cached_value v b =
     obind (todo ''This is not implemented yet'') (\<lambda>_::unit. Ret (b\<lparr>builder_value := Some v\<rparr>))"

definition build_characteristic :: "characteristic_builder \<Rightarrow> objects \<Rightarrow> nat \<times> objects" where
  "build_characteristic b h =
     managed_characteristic (builder_uuid b) (builder_properties b) (builder_permissions b) (builder_value b) h"

record service_builder =
  builder_service :: nat

definition ServiceBuilder :: "uuid \<Rightarrow> objects \<Rightarrow> service_builder \<times> objects" where
  "ServiceBuilder u h = (let (raw, h) = managed_service u True h in (\<lparr>builder_service = raw\<rparr>, h))"

definition service_builder_add :: "service_builder \<Rightarrow> nat \<Rightarrow> objects \<Rightarrow> objects outcome" where
  "service_builder_add b chr h = managed_service_add (builder_service b) chr h"

definition build_service :: "service_builder \<Rightarrow> nat" where
  "build_service b = builder_service b"

section \<open>Facts on the operations\<close>

text \<open>
  The bits of \<open>CBCharacteristicProperties\<close>, to which the code casts its own without a conversion, as
  CoreBluetooth documents them; there is none for the last three.
\<close>

fun core_bluetooth_value :: "characteristic_property \<Rightarrow> u32 option" where
  "core_bluetooth_value Broadcast = Some 0x01"
| "core_bluetooth_value Read = Some 0x02"
| "core_bluetooth_value WriteWithoutResponse = Some 0x04"
| "core_bluetooth_value Write = Some 0x08"
| "core_bluetooth_value Notify = Some 0x10"
| "core_bluetooth_value Indicate = Some 0x20"
| "core_bluetooth_value AuthenticatedSignedWrites = Some 0x40"
| "core_bluetooth_value ExtendedProperties = Some 0x80"
| "core_bluetooth_value NotifyEncryptionRequired = Some 0x100"
| "core_bluetooth_value IndicateEncryptionRequired = Some 0x200"
| "core_bluetooth_value _ = None"

definition property_bit :: "characteristic_property \<Rightarrow> nat" where
  "property_bit p = (case p of Broadcast \<Rightarrow> 0 | Read \<Rightarrow> 2 | WriteWithoutResponse \<Rightarrow> 3 | Write \<Rightarrow> 4 | Notify \<Rightarrow> 5
     | Indicate \<Rightarrow> 6 | AuthenticatedSignedWrites \<Rightarrow> 7 | ExtendedProperties \<Rightarrow> 8 | NotifyEncryptionRequired \<Rightarrow> 9
     | IndicateEncryptionRequired \<Rightarrow> 10 | WriteSigned \<Rightarrow> 11 | WriteSignedWithoutResponse \<Rightarrow> 12
     | WriteAuxiliaries \<Rightarrow> 13)"

lemma property_value_push: "property_value p = push_bit (property_bit p) 1 \<and> property_bit p < 32"
  by (cases p) (simp_all add: property_bit_def)

lemma property_value_bit: "bit (property_value p) n \<longleftrightarrow> n = property_bit p"
  using property_value_push [of p] by (auto simp: bit_exp_iff)

lemma property_bit_inj: "property_bit p = property_bit q \<longleftrightarrow> p = q"
  by (cases p; cases q) (simp_all add: property_bit_def)

lemma add_properties:
  "foldl (\<lambda>b p. add_property p b) b ps =
    b\<lparr>builder_properties := foldl (\<lambda>w p. w OR property_value p) (builder_properties b) ps\<rparr>"
  by (induction ps arbitrary: b) (simp_all add: add_property_def)

lemma or_properties_bit:
  "bit (foldl (\<lambda>w p. w OR property_value p) w ps) n \<longleftrightarrow> bit w n \<or> (\<exists>p \<in> set ps. n = property_bit p)"
  by (induction ps arbitrary: w) (auto simp: bit_or_iff property_value_bit)

lemma service_builder_adds:
  assumes "builder_service b < length (svcs h)" "svc_mutable (svcs h ! builder_service b)"
  shows "ofold (\<lambda>h c. service_builder_add b c h) h cs = Ret (h\<lparr>svcs := (svcs h)[builder_service b :=
    (svcs h ! builder_service b)\<lparr>svc_characteristics := svc_characteristics (svcs h ! builder_service b) @ cs\<rparr>]\<rparr>)"
  using assms
proof (induction cs arbitrary: h)
  case Nil
  then show ?case by simp
next
  case (Cons c cs)
  then show ?case by (simp add: service_builder_add_def managed_service_add_def Let_def)
qed

section \<open>Properties\<close>

text \<open>\<open>Packet::from_proto\<close> trusts what it is sent: it returns a packet exactly when the message that
  was left by the parse, successful or not, has at least 32 bytes of sender and 64 bytes of signature,
  of which it takes the first; for any other message, in particular for an empty one, it reads out of
  bounds. It checks neither the signature nor the checksum.\<close>

theorem packet_from_proto_outcome:
  "packet_from_proto ParsePacket data = (let m = snd (ParsePacket data) in
     if 32 \<le> length (proto_from m) \<and> 64 \<le> length (proto_signature m)
     then Ret \<lparr>packet_from = \<lparr>pubkey_data = take 32 (proto_from m)\<rparr>,
       packet_signature = \<lparr>signature_bytes = take 64 (proto_signature m)\<rparr>, packet_data = proto_data m,
       packet_timestamp = proto_timestamp m, packet_checksum = proto_checksum m\<rparr>
     else Undef Out_of_bounds)"
  by (simp add: packet_from_proto_def pubkey_from_stringbytes_def signature_from_stringbytes_def copy_from_def
      kPubkeySize_def kSignatureSize_def Let_def case_prod_unfold not_le)

text \<open>What the stream multiplexer makes CoreBluetooth do: \<open>run\<close> advertises under the name hrafn and
  nothing else, and each discovered peripheral is connected to, once for each discovery and without
  options, with no regard to what it advertises. No command ever starts a scan, so on its own it never
  discovers anything.\<close>

theorem stream_multiplexer_commands:
  "(let (m, log) = stream_multiplexer_run StreamMultiplexer [] in
     ofold (\<lambda>log (peripheral, adv). did_discover_peripheral
         (central_delegate_parent (adapter_central (mux_central m))) peripheral adv log) log ps
       = Ret (Start_advertising [LocalName \<mapsto> Name ''hrafn''] # map (\<lambda>(peripheral, _). Connect peripheral Map.empty) ps))"
proof -
  have dict: "advertising_dict (named_advertising_options ''hrafn'') = [LocalName \<mapsto> Name ''hrafn'']"
    by (simp add: advertising_dict_def named_advertising_options_def set_if_def)
  have connects: "ofold (\<lambda>log (peripheral, adv). Ret (connect peripheral default_connect_options log)) log ps =
      Ret (log @ map (\<lambda>(peripheral, _). Connect peripheral Map.empty) ps)" for log
    by (induction ps arbitrary: log)
      (auto simp: connect_def default_connect_options_def set_if_def split: prod.splits)
  show ?thesis
    by (simp add: stream_multiplexer_run_def StreamMultiplexer_def CentralAdapter_def central_on_discovery_def
        central_connect_def peripheral_from_raw_def adapter_start_advertising_def start_advertising_def dict
        did_discover_peripheral_def central_delegate_parent_def on_discovered_def set_discovered_callback_def connects)
qed

text \<open>A characteristic is built with exactly the properties that were added, in any order and however
  often, the last permissions, and no value; asking for a cached value ends the program. But the bits do
  not mean to CoreBluetooth what they say: each but the first is twice the documented one, so that a
  readable characteristic is announced as writable without response and not as readable.\<close>

theorem characteristic_builder_builds:
  "(let b = set_permissions perms (foldl (\<lambda>b p. add_property p b) (CharacteristicBuilder u) ps);
        (raw, h') = build_characteristic b h in
      raw = length (chrs h) \<and> svcs h' = svcs h \<and>
      (\<exists>obj. chrs h' = chrs h @ [obj] \<and> chr_uuid obj = u \<and> chr_value obj = None \<and>
        chr_permissions obj = as_int perms \<and> {n. bit (chr_properties obj) n} = property_bit ` set ps)) \<and>
   inj property_bit \<and>
   set_cached_value v b = Terminate \<and>
   core_bluetooth_value p \<in> {None, Some (if p = Broadcast then 1 else drop_bit 1 (property_value p))} \<and>
   core_bluetooth_value WriteWithoutResponse = Some (property_value Read)"
proof (intro conjI)
  show "core_bluetooth_value p \<in> {None, Some (if p = Broadcast then 1 else drop_bit 1 (property_value p))}"
    by (cases p) simp_all
  show "set_cached_value v b = Terminate" by (simp add: set_cached_value_def todo_def)
  show "inj property_bit" by (simp add: inj_def property_bit_inj)
qed (auto simp: build_characteristic_def managed_characteristic_def add_properties CharacteristicBuilder_def
    set_permissions_def or_properties_bit)

text \<open>The service a builder returns is the builder's own object: characteristics appear in it in the
  order they are added, also those added after it was built, and no other service changes.\<close>

theorem service_builder_shares:
  "\<exists>b h1 h2 h3. ServiceBuilder u h = (b, h1) \<and>
     ofold (\<lambda>h c. service_builder_add b c h) h1 before = Ret h2 \<and>
     ofold (\<lambda>h c. service_builder_add b c h) h2 after = Ret h3 \<and>
     service_characteristics (build_service b) h2 = Ret before \<and>
     service_characteristics (build_service b) h3 = Ret (before @ after) \<and>
     svc_uuid (svcs h3 ! build_service b) = u \<and> svc_primary (svcs h3 ! build_service b) \<and>
     take (length (svcs h)) (svcs h3) = svcs h \<and> chrs h3 = chrs h"
proof -
  define b where "b = \<lparr>builder_service = length (svcs h)\<rparr>"
  define svc where "svc cs = \<lparr>svc_mutable = True, svc_uuid = u, svc_primary = True, svc_characteristics = cs,
    svc_included = []\<rparr>" for cs
  define store where "store cs = h\<lparr>svcs := svcs h @ [svc cs]\<rparr>" for cs
  have "ofold (\<lambda>h c. service_builder_add b c h) (store cs) ds = Ret (store (cs @ ds))" for cs ds
    using service_builder_adds [of b "store cs" ds] by (simp add: b_def store_def svc_def)
  from this [of "[]" before] this [of before after] show ?thesis
    by (intro exI [of _ b] exI [of _ "store []"] exI [of _ "store before"] exI [of _ "store (before @ after)"])
      (simp add: ServiceBuilder_def managed_service_def service_characteristics_def build_service_def
        b_def store_def svc_def)
qed

end
