(* ===== verification/Multiplexer.thy ===== *)
theory Multiplexer
  imports Btle
begin

text \<open>
  A \<open>StreamMultiplexer\<close> (\<open>btle/btle.h\<close>) from its construction to its destruction and after it, with the events
  that CoreBluetooth delivers in between, on the queues of its two managers.
\<close>

section \<open>The code\<close>

text \<open>The multiplexer is \<open>None\<close> when it is destroyed; the log has the commands of its managers.\<close>

record 'd mux_world =
  mux_here :: "'d stream_multiplexer option"
  mux_log :: "command list"

definition mux_start :: "'d mux_world" where
  "mux_start = \<lparr>mux_here = Some StreamMultiplexer, mux_log = []\<rparr>"

definition mux_runs :: "'d stream_multiplexer \<Rightarrow> 'd mux_world \<Rightarrow> 'd mux_world" where
  "mux_runs m s = (let (m, log) = stream_multiplexer_run m (mux_log s) in \<lparr>mux_here = Some m, mux_log = log\<rparr>)"

definition mux_discovers :: "nat \<Rightarrow> (string \<times> bytes) list \<Rightarrow> 'd mux_world \<Rightarrow> 'd mux_world outcome" where
  "mux_discovers peripheral adv s = (case mux_here s of
     None \<Rightarrow> Undef Use_after_free
   | Some m \<Rightarrow> obind (did_discover_peripheral (central_delegate_parent (adapter_central (mux_central m))) peripheral adv
       (mux_log s)) (\<lambda>log. Ret (s\<lparr>mux_log := log\<rparr>)))"

text \<open>The delegate of the peripheral manager lives on, and has no parent in any case.\<close>

definition mux_event :: "peripheral_event \<Rightarrow> 'd mux_world \<Rightarrow> 'd mux_world outcome" where
  "mux_event event s = obind (handle_peripheral_event
     (peripheral_delegate_parent (adapter_peripheral (PeripheralAdapter :: command list peripheral_adapter))) event (mux_log s))
     (\<lambda>log. Ret (s\<lparr>mux_log := log\<rparr>))"

fun connection_event :: "peripheral_event \<Rightarrow> bool" where
  "connection_event (Did_receive_connection c) = True"
| "connection_event (Did_lose_connection c) = True"
| "connection_event _ = False"

inductive mux_step :: "'d mux_world \<Rightarrow> 'd mux_world outcome \<Rightarrow> bool" for s where
  runs: "mux_here s = Some m \<Longrightarrow> mux_step s (Ret (mux_runs m s))"
| changes_streams: "mux_here s = Some m \<Longrightarrow> mux_step s (Ret (s\<lparr>mux_here := Some (m\<lparr>mux_streams := f\<rparr>)\<rparr>))"
| destroyed: "mux_step s (Ret (s\<lparr>mux_here := None\<rparr>))"
| discovers: "Scan uuids opts \<in> set (mux_log s) \<Longrightarrow> mux_step s (mux_discovers peripheral adv s)"
| event: "needs_service e \<Longrightarrow> Add_service svc \<in> set (mux_log s) \<Longrightarrow> mux_step s (mux_event e s)"
| other_event: "\<not> needs_service e \<Longrightarrow> mux_step s (mux_event e s)"

inductive mux_reaches :: "'d mux_world \<Rightarrow> bool" where
  mux_begins: "mux_reaches mux_start"
| mux_goes_on: "mux_reaches s \<Longrightarrow> mux_step s (Ret s') \<Longrightarrow> mux_reaches s'"

section \<open>The invariant\<close>

abbreviation advertise_hrafn :: command where
  "advertise_hrafn \<equiv> Start_advertising [LocalName \<mapsto> Name ''hrafn'']"

text \<open>What the central manager does with a discovery.\<close>

definition on_found :: "'d stream_multiplexer \<Rightarrow> nat \<Rightarrow> (string \<times> bytes) list \<Rightarrow> command list \<Rightarrow> command list outcome" where
  "on_found m p adv log =
     did_discover_peripheral (central_delegate_parent (adapter_central (mux_central m))) p adv log"

definition mux_inv :: "'d mux_world \<Rightarrow> bool" where
  "mux_inv s \<longleftrightarrow> (\<exists>n. mux_log s = replicate n advertise_hrafn) \<and>
     (\<forall>m p adv log. mux_here s = Some m \<longrightarrow>
       on_found m p adv log = Ret (if mux_log s = [] then log else log @ [Connect p Map.empty]))"

lemma hrafn_dict: "advertising_dict (named_advertising_options ''hrafn'') = [LocalName \<mapsto> Name ''hrafn'']"
  by (simp add: advertising_dict_def named_advertising_options_def set_if_def)

lemma run_log: "snd (stream_multiplexer_run m log) = log @ [advertise_hrafn]"
  by (simp add: stream_multiplexer_run_def adapter_start_advertising_def start_advertising_def hrafn_dict Let_def)

lemma run_found: "on_found (fst (stream_multiplexer_run m log')) p adv log = Ret (log @ [Connect p Map.empty])"
  by (simp add: on_found_def stream_multiplexer_run_def central_on_discovery_def set_discovered_callback_def
      central_delegate_parent_def did_discover_peripheral_def on_discovered_def central_connect_def connect_def
      default_connect_options_def set_if_def peripheral_from_raw_def Let_def)

lemma start_inv: "mux_inv mux_start"
  by (simp add: mux_inv_def mux_start_def on_found_def StreamMultiplexer_def CentralAdapter_def
      central_delegate_parent_def did_discover_peripheral_def on_discovered_def)

lemma event_result: "mux_event e s = (if uses_parent e then Undef Null_dereference else Ret s)"
  by (simp add: mux_event_def events_without_parent)

lemma replicate_snoc: "replicate n x @ [x] = replicate (Suc n) x"
  by (metis replicate_Suc replicate_append_same)

lemma step_cases:
  assumes "mux_inv s" "mux_step s r"
  shows "(\<exists>s'. r = Ret s' \<and> mux_inv s') \<or> r = Undef Null_dereference"
  using assms(2)
proof (cases rule: mux_step.cases)
  case (runs m)
  obtain n where "mux_log s = replicate n advertise_hrafn" using assms(1) by (auto simp: mux_inv_def)
  then have "mux_log (mux_runs m s) = replicate (Suc n) advertise_hrafn"
    using run_log [of m "mux_log s"] by (simp add: mux_runs_def case_prod_unfold replicate_snoc)
  moreover have "mux_here (mux_runs m s) = Some (fst (stream_multiplexer_run m (mux_log s)))"
    by (simp add: mux_runs_def case_prod_unfold Let_def)
  ultimately have "mux_inv (mux_runs m s)" using run_found unfolding mux_inv_def by fastforce
  then show ?thesis using runs by blast
next
  case (changes_streams m f)
  then have "mux_inv (s\<lparr>mux_here := Some (m\<lparr>mux_streams := f\<rparr>)\<rparr>)"
    using assms(1) by (auto simp: mux_inv_def on_found_def)
  then show ?thesis using changes_streams by blast
next
  case destroyed
  then show ?thesis using assms(1) by (auto simp: mux_inv_def)
qed (use assms(1) in \<open>auto simp: mux_inv_def event_result\<close>)

lemma reaches_inv: "mux_reaches s \<Longrightarrow> mux_inv s"
  by (induction rule: mux_reaches.induct) (use start_inv step_cases in blast)+

section \<open>Property\<close>

text \<open>C30: The stream multiplexer never has a stream. However its life is interleaved with the events of
  CoreBluetooth, and however often \<open>run\<close> is awaited, all that it asks for is to advertise its name, any
  number of times; it never scans, connects or publishes a service. So the callback, which would connect to
  whatever is found once \<open>run\<close> was called, is never called and cannot meet the destroyed multiplexer; and
  no step fails but the delivery of a connection or of its loss, which always does, as the delegate has no
  parent.\<close>

theorem multiplexer_never_connects:
  assumes "mux_reaches s"
  shows "(\<exists>n. mux_log s = replicate n advertise_hrafn) \<and>
    (\<forall>m p adv log. mux_here s = Some m \<longrightarrow>
      did_discover_peripheral (central_delegate_parent (adapter_central (mux_central m))) p adv log =
        Ret (if mux_log s = [] then log else log @ [Connect p Map.empty])) \<and>
    (mux_step s r \<longrightarrow> r \<in> insert (Undef Null_dereference) (range Ret)) \<and>
    (\<not> needs_service e \<longrightarrow> mux_event e s = (if connection_event e then Undef Null_dereference else Ret s))"
proof -
  have inv: "mux_inv s" by (rule reaches_inv [OF assms])
  have "\<not> needs_service e \<longrightarrow> mux_event e s = (if connection_event e then Undef Null_dereference else Ret s)"
    by (cases e) (simp_all add: event_result)
  then show ?thesis using inv step_cases [OF inv, of r] unfolding mux_inv_def on_found_def by auto
qed

theorem multiplexer_never_connects_witness:
  "\<exists>s :: unit mux_world. mux_log s \<noteq> [] \<and> mux_here s = None \<and> (\<exists>n. mux_log s = replicate n advertise_hrafn) \<and>
    mux_event (Did_receive_connection 7) s = Undef Null_dereference"
proof -
  let ?s = "mux_runs StreamMultiplexer mux_start :: unit mux_world"
  have "mux_reaches ?s" by (rule mux_goes_on [OF mux_begins runs]) (simp add: mux_start_def)
  then have reach: "mux_reaches (?s\<lparr>mux_here := None\<rparr>)" by (rule mux_goes_on) (rule destroyed)
  have "mux_log ?s \<noteq> []"
    using run_log [of "StreamMultiplexer :: unit stream_multiplexer" "[]"] by (simp add: mux_runs_def mux_start_def case_prod_unfold Let_def)
  then show ?thesis
    using multiplexer_never_connects [OF reach, of "Ret (?s\<lparr>mux_here := None\<rparr>)" "Did_receive_connection 7"]
    by (intro exI [of _ "?s\<lparr>mux_here := None\<rparr>"]) simp
qed

end
