(* ===== verification/Bttest.thy ===== *)
theory Bttest
  imports Btle
begin

text \<open>
  The program of \<open>src/test.cpp\<close>, the only executable that \<open>meson.build\<close> makes: it scans with a central
  adapter in a first block and advertises a service with a peripheral adapter in a second one. The main
  thread runs the statements; the queues of CoreBluetooth deliver events in between, on other threads.
\<close>

section \<open>The code\<close>

text \<open>The places between the statements of \<open>main\<close>; the pauses are no statements.\<close>

datatype place =
    Main_begins | Central_made | Callback_set | Scan_started | Scan_stopped
  | Central_gone | Peripheral_made | Service_added | Advertising_started | Advertising_stopped

text \<open>
  What the callback prints: the identifier of the peripheral, kept as the pointer whose identifier it is,
  and the services that were advertised. The adapters are \<open>None\<close> outside their block.
\<close>

type_synonym printed = "(nat \<times> uuid list) list"

record bttest =
  main_at :: place
  bt_central :: "printed central_adapter option"
  bt_peripheral :: "printed peripheral_adapter option"
  bt_log :: "command list"
  bt_objects :: objects
  bt_printed :: printed

definition bttest_start :: bttest where
  "bttest_start = \<lparr>main_at = Main_begins, bt_central = None, bt_peripheral = None, bt_log = [],
     bt_objects = no_objects, bt_printed = []\<rparr>"

definition print_discovered :: "printed discovery_callback" where
  "print_discovered peripheral data out = out @ [(peripheral, service_uuids data)]"

definition bttest_scan_options :: scan_options where
  "bttest_scan_options = \<lparr>allow_dups = False, solicited_services = []\<rparr>"

text \<open>The value of an identifier that is written in the source.\<close>

definition uuid_literal :: "(string \<Rightarrow> string option) \<Rightarrow> string \<Rightarrow> uuid outcome" where
  "uuid_literal HexStringToBytes str = obind (uuid_parse HexStringToBytes str) (\<lambda>u.
     case u of None \<Rightarrow> Throw Bad_optional_access | Some u \<Rightarrow> Ret u)"

definition bttest_service :: "(string \<Rightarrow> string option) \<Rightarrow> objects \<Rightarrow> (nat \<times> objects) outcome" where
  "bttest_service HexStringToBytes h =
     obind (uuid_literal HexStringToBytes ''00001800-0000-1000-8000-00805f9b34fb'') (\<lambda>service_uuid. let
       (builder, h) = ServiceBuilder service_uuid h in
     obind (uuid_literal HexStringToBytes ''00002a00-0000-1000-8000-00805f9b34fb'') (\<lambda>uuid. let
       (chr, h) = build_characteristic (add_property Read (CharacteristicBuilder uuid)) h in
     obind (service_builder_add builder chr h) (\<lambda>h. Ret (build_service builder, h))))"

fun main_statement :: "(string \<Rightarrow> string option) \<Rightarrow> place \<Rightarrow> bttest \<Rightarrow> bttest outcome" where
  "main_statement H Main_begins s = Ret (s\<lparr>main_at := Central_made, bt_central := Some CentralAdapter\<rparr>)"
| "main_statement H Central_made s = Ret (s\<lparr>main_at := Callback_set,
     bt_central := map_option (central_on_discovery (Some print_discovered)) (bt_central s)\<rparr>)"
| "main_statement H Callback_set s = Ret (s\<lparr>main_at := Scan_started,
     bt_log := central_start_scanning bttest_scan_options (bt_log s)\<rparr>)"
| "main_statement H Scan_started s = Ret (s\<lparr>main_at := Scan_stopped, bt_log := central_stop_scanning (bt_log s)\<rparr>)"
| "main_statement H Scan_stopped s = Ret (s\<lparr>main_at := Central_gone, bt_central := None\<rparr>)"
| "main_statement H Central_gone s = Ret (s\<lparr>main_at := Peripheral_made, bt_peripheral := Some PeripheralAdapter\<rparr>)"
| "main_statement H Peripheral_made s = obind (bttest_service H (bt_objects s)) (\<lambda>(service, h).
     Ret (s\<lparr>main_at := Service_added, bt_objects := h, bt_log := adapter_add_service service (bt_log s)\<rparr>))"
| "main_statement H Service_added s = Ret (s\<lparr>main_at := Advertising_started,
     bt_log := adapter_start_advertising (named_advertising_options ''lol'') (bt_log s)\<rparr>)"
| "main_statement H Advertising_started s = Ret (s\<lparr>main_at := Advertising_stopped, bt_peripheral := None,
     bt_log := adapter_stop_advertising (bt_log s)\<rparr>)"
| "main_statement H Advertising_stopped s = Ret s"

text \<open>
  The delegate of the central manager has the address of a member of the adapter, and nothing tells it
  when the adapter is gone. CoreBluetooth delivers a discovery at any time after the scan was started,
  also one that was queued before the scan was stopped. The delegate of the peripheral manager has
  no parent. Its events about services come when one was published; the others come at any time, among
  them the two methods for connections of a central, which the delegate has and CoreBluetooth does not
  document.
\<close>

definition deliver_discovery :: "nat \<Rightarrow> (string \<times> bytes) list \<Rightarrow> bttest \<Rightarrow> bttest outcome" where
  "deliver_discovery peripheral raw_adv s = (case bt_central s of
     None \<Rightarrow> Undef Use_after_free
   | Some a \<Rightarrow> obind (did_discover_peripheral (central_delegate_parent (adapter_central a)) peripheral raw_adv
       (bt_printed s)) (\<lambda>out. Ret (s\<lparr>bt_printed := out\<rparr>)))"

definition deliver_event :: "peripheral_event \<Rightarrow> bttest \<Rightarrow> bttest outcome" where
  "deliver_event event s = obind (handle_peripheral_event
     (peripheral_delegate_parent (adapter_peripheral PeripheralAdapter)) event (bt_printed s)) (\<lambda>out.
       Ret (s\<lparr>bt_printed := out\<rparr>))"

inductive bttest_step :: "(string \<Rightarrow> string option) \<Rightarrow> bttest \<Rightarrow> bttest outcome \<Rightarrow> bool" for H s where
  main_runs: "main_at s \<noteq> Advertising_stopped \<Longrightarrow> bttest_step H s (main_statement H (main_at s) s)"
| discovery: "\<exists>uuids opts. Scan uuids opts \<in> set (bt_log s) \<Longrightarrow> bttest_step H s (deliver_discovery peripheral raw_adv s)"
| event: "main_at s \<in> {Peripheral_made, Service_added, Advertising_started, Advertising_stopped} \<Longrightarrow>
    (needs_service e \<Longrightarrow> \<exists>svc. Add_service svc \<in> set (bt_log s)) \<Longrightarrow> bttest_step H s (deliver_event e s)"

inductive bttest_reaches :: "(string \<Rightarrow> string option) \<Rightarrow> bttest \<Rightarrow> bool" for H where
  bttest_begins: "bttest_reaches H bttest_start"
| bttest_goes_on: "bttest_reaches H s \<Longrightarrow> bttest_step H s (Ret s') \<Longrightarrow> bttest_reaches H s'"

section \<open>The service\<close>

definition gap_service_uuid :: uuid where
  "gap_service_uuid = \<lparr>uuid_bytes = [0x00, 0x00, 0x18, 0x00, 0x00, 0x00, 0x10, 0x00,
                                     0x80, 0x00, 0x00, 0x80, 0x5f, 0x9b, 0x34, 0xfb]\<rparr>"

definition device_name_uuid :: uuid where
  "device_name_uuid = \<lparr>uuid_bytes = [0x00, 0x00, 0x2a, 0x00, 0x00, 0x00, 0x10, 0x00,
                                     0x80, 0x00, 0x00, 0x80, 0x5f, 0x9b, 0x34, 0xfb]\<rparr>"

lemma uuid_literals:
  assumes "hex_api H"
  shows "uuid_literal H ''00001800-0000-1000-8000-00805f9b34fb'' = Ret gap_service_uuid"
    and "uuid_literal H ''00002a00-0000-1000-8000-00805f9b34fb'' = Ret device_name_uuid"
proof -
  have "uuid_to_string hex_byte gap_service_uuid = ''00001800-0000-1000-8000-00805f9b34fb''"
    "uuid_to_string hex_byte device_name_uuid = ''00002a00-0000-1000-8000-00805f9b34fb''" by code_simp+
  moreover have "uuid_wf gap_service_uuid" "uuid_wf device_name_uuid"
    by (simp_all add: uuid_wf_def uuid_kSize_def gap_service_uuid_def device_name_uuid_def)
  moreover have "uuid_text H hex_byte" using assms ref_format.format_api_axioms by (simp add: uuid_text_def)
  ultimately show "uuid_literal H ''00001800-0000-1000-8000-00805f9b34fb'' = Ret gap_service_uuid"
    "uuid_literal H ''00002a00-0000-1000-8000-00805f9b34fb'' = Ret device_name_uuid"
    using uuid_text.uuid_parse_to_string [of H hex_byte] by (auto simp: uuid_literal_def dest: sym)
qed

definition with_service :: "objects \<Rightarrow> objects" where
  "with_service h = h\<lparr>
     svcs := svcs h @ [\<lparr>svc_mutable = True, svc_uuid = gap_service_uuid, svc_primary = True,
       svc_characteristics = [length (chrs h)], svc_included = []\<rparr>],
     chrs := chrs h @ [\<lparr>chr_mutable = True, chr_uuid = device_name_uuid, chr_properties = 4, chr_value = None,
       chr_permissions = 0, chr_descriptors = []\<rparr>]\<rparr>"

lemma bttest_service_built:
  assumes "hex_api H"
  shows "bttest_service H h = Ret (length (svcs h), with_service h)"
  by (simp add: bttest_service_def uuid_literals [OF assms] ServiceBuilder_def managed_service_def
      build_characteristic_def managed_characteristic_def add_property_def CharacteristicBuilder_def
      service_builder_add_def managed_service_add_def build_service_def with_service_def as_int_def Let_def)

section \<open>The states of the program\<close>

text \<open>Everything but the printed lines is known from the place of the main thread.\<close>

abbreviation scan_log :: "command list" where
  "scan_log \<equiv> [Scan [] Map.empty, Stop_scan]"

abbreviation full_log :: "command list" where
  "full_log \<equiv> scan_log @ [Add_service 0, Start_advertising [LocalName \<mapsto> Name ''lol''], Stop_advertising]"

fun log_at :: "place \<Rightarrow> command list" where
  "log_at Main_begins = []"
| "log_at Central_made = []"
| "log_at Callback_set = []"
| "log_at Scan_started = take 1 full_log"
| "log_at Scan_stopped = scan_log"
| "log_at Central_gone = scan_log"
| "log_at Peripheral_made = scan_log"
| "log_at Service_added = take 3 full_log"
| "log_at Advertising_started = take 4 full_log"
| "log_at Advertising_stopped = full_log"

definition listening :: "printed central_adapter" where
  "listening = central_on_discovery (Some print_discovered) CentralAdapter"

fun central_at :: "place \<Rightarrow> printed central_adapter option" where
  "central_at Central_made = Some CentralAdapter"
| "central_at Callback_set = Some listening"
| "central_at Scan_started = Some listening"
| "central_at Scan_stopped = Some listening"
| "central_at _ = None"

fun objects_of_main :: "place \<Rightarrow> objects" where
  "objects_of_main Service_added = with_service no_objects"
| "objects_of_main Advertising_started = with_service no_objects"
| "objects_of_main Advertising_stopped = with_service no_objects"
| "objects_of_main _ = no_objects"

definition on_course :: "bttest \<Rightarrow> bool" where
  "on_course s \<longleftrightarrow> bt_log s = log_at (main_at s) \<and> bt_central s = central_at (main_at s) \<and>
     bt_objects s = objects_of_main (main_at s)"

definition first_block_left :: "place set" where
  "first_block_left = {Central_gone, Peripheral_made, Service_added, Advertising_started, Advertising_stopped}"

lemma scanning_iff: "(\<exists>uuids opts. Scan uuids opts \<in> set (log_at p)) \<longleftrightarrow> p \<in> {Scan_started, Scan_stopped} \<union> first_block_left"
  by (cases p) (auto simp: first_block_left_def)

lemma main_on_course:
  assumes "hex_api H" "on_course s"
  shows "\<exists>s'. main_statement H (main_at s) s = Ret s' \<and> on_course s'"
proof -
  have "no_objects\<lparr>svcs := svcs no_objects\<rparr> = no_objects" "length (svcs no_objects) = 0" by (simp_all add: no_objects_def)
  then show ?thesis
    using assms(2) by (cases "main_at s")
      (simp_all add: on_course_def listening_def bttest_service_built [OF assms(1)] central_start_scanning_def scan_def
        bttest_scan_options_def central_stop_scanning_def stop_scan_def adapter_add_service_def
        peripheral_add_service_def adapter_start_advertising_def start_advertising_def adapter_stop_advertising_def
        stop_advertising_def advertising_dict_def named_advertising_options_def set_if_def Let_def)
qed

lemma discovery_delivered:
  assumes "on_course s"
  shows "main_at s \<in> {Scan_started, Scan_stopped} \<Longrightarrow>
      deliver_discovery p adv s = Ret (s\<lparr>bt_printed := bt_printed s @ [(p, [])]\<rparr>)"
    and "main_at s \<in> first_block_left \<Longrightarrow> deliver_discovery p adv s = Undef Use_after_free"
  using assms by (auto simp: on_course_def listening_def deliver_discovery_def first_block_left_def central_delegate_parent_def
      did_discover_peripheral_def on_discovered_def central_on_discovery_def set_discovered_callback_def
      print_discovered_def CentralAdapter_def)

lemma event_delivered: "deliver_event e s = (if uses_parent e then Undef Null_dereference else Ret s)"
  by (simp add: deliver_event_def events_without_parent)

lemma step_on_course:
  assumes "hex_api H" "on_course s" "bttest_step H s (Ret s')"
  shows "on_course s'"
  using assms(3)
proof (cases rule: bttest_step.cases)
  case main_runs
  then show ?thesis using main_on_course [OF assms(1,2)] by auto
next
  case (discovery p adv)
  then show ?thesis
    using discovery_delivered [OF assms(2), of p adv] scanning_iff [of "main_at s"] assms(2) by (auto simp: on_course_def)
next
  case (event e)
  then show ?thesis using assms(2) by (simp add: event_delivered split: if_splits)
qed

lemma reaches_on_course: "bttest_reaches H s \<Longrightarrow> hex_api H \<Longrightarrow> on_course s"
proof (induction rule: bttest_reaches.induct)
  case bttest_begins
  show ?case by (simp add: on_course_def bttest_start_def)
next
  case (bttest_goes_on s s')
  then show ?case using step_on_course by blast
qed

section \<open>Properties\<close>

text \<open>C27: What the built program asks of CoreBluetooth: however the events of CoreBluetooth are interleaved
  with it, when \<open>main\<close> is at its end it has started and stopped one scan for everything, published one
  service, the primary service 1800 with the characteristic 2A00, and advertised the name. But the
  characteristic it declares readable carries the bit that CoreBluetooth reads as writable without
  response.\<close>

theorem bttest_commands:
  assumes "hex_api H" and "bttest_reaches H s" and "main_at s = Advertising_stopped"
  shows "bt_log s = [Scan [] Map.empty, Stop_scan, Add_service 0,
      Start_advertising [LocalName \<mapsto> Name ''lol''], Stop_advertising] \<and>
    (\<exists>svc chr. svcs (bt_objects s) = [svc] \<and> chrs (bt_objects s) = [chr] \<and>
      svc_uuid svc = gap_service_uuid \<and> svc_primary svc \<and> svc_characteristics svc = [0] \<and>
      chr_uuid chr = device_name_uuid \<and> chr_value chr = None \<and>
      core_bluetooth_value WriteWithoutResponse = Some (chr_properties chr) \<and>
      core_bluetooth_value Read \<noteq> Some (chr_properties chr))"
proof -
  have "on_course s" by (rule reaches_on_course [OF assms(2,1)])
  then show ?thesis using assms(3) by (simp add: on_course_def with_service_def no_objects_def)
qed

lemma main_reaches_end:
  assumes "hex_api H"
  shows "\<exists>s. bttest_reaches H s \<and> main_at s = Advertising_stopped"
proof -
  have next_place: "\<exists>s'. bttest_reaches H s' \<and> main_at s' = q"
    if s: "bttest_reaches H s" "main_at s = p" "p \<noteq> Advertising_stopped"
      and q: "\<And>s s'. main_statement H p s = Ret s' \<Longrightarrow> main_at s' = q" for s p q
  proof -
    obtain s' where "main_statement H p s = Ret s'"
      using main_on_course [OF assms reaches_on_course [OF s(1) assms]] s(2) by auto
    then show ?thesis using bttest_goes_on [OF s(1)] main_runs [of s H] s(2,3) q by auto
  qed
  have "\<exists>s. bttest_reaches H s \<and> main_at s = Main_begins"
    using bttest_begins [of H] by (auto simp: bttest_start_def)
  then have "\<exists>s. bttest_reaches H s \<and> main_at s = Central_made" by (elim exE conjE) (erule next_place, auto)
  then have "\<exists>s. bttest_reaches H s \<and> main_at s = Callback_set" by (elim exE conjE) (erule next_place, auto)
  then have "\<exists>s. bttest_reaches H s \<and> main_at s = Scan_started" by (elim exE conjE) (erule next_place, auto)
  then have "\<exists>s. bttest_reaches H s \<and> main_at s = Scan_stopped" by (elim exE conjE) (erule next_place, auto)
  then have "\<exists>s. bttest_reaches H s \<and> main_at s = Central_gone" by (elim exE conjE) (erule next_place, auto)
  then have "\<exists>s. bttest_reaches H s \<and> main_at s = Peripheral_made" by (elim exE conjE) (erule next_place, auto)
  then have "\<exists>s. bttest_reaches H s \<and> main_at s = Service_added"
    by (elim exE conjE) (erule next_place, auto simp: obind_eq_Ret)
  then have "\<exists>s. bttest_reaches H s \<and> main_at s = Advertising_started" by (elim exE conjE) (erule next_place, auto)
  then show ?thesis by (elim exE conjE) (erule next_place, auto)
qed

theorem bttest_commands_witness:
  "\<exists>s. bttest_reaches ref_HexStringToBytes s \<and> bt_log s = [Scan [] Map.empty, Stop_scan, Add_service 0,
      Start_advertising [LocalName \<mapsto> Name ''lol''], Stop_advertising]"
  using main_reaches_end [OF ref_hex.hex_api_axioms] bttest_commands [OF ref_hex.hex_api_axioms] by blast



end
