(* ===== verification/Bttest_Memory.thy ===== *)
theory Bttest_Memory
  imports Bttest Building
begin

text \<open>
  The service that \<open>src/test.cpp\<close> builds, in the memory of \<open>Lifetime\<close>: the objects behind its builders, while
  the autorelease pool is drained between the calls and after \<open>main\<close> has left its blocks.
\<close>

section \<open>What main does with objects\<close>

definition bttest_operations :: "operation list" where
  "bttest_operations = [
     Make_service gap_service_uuid True,
     Make_managed device_name_uuid 4 \<lparr>perm_read = False, perm_write = False\<rparr> None,
     Add_to_service 0 0,
     Publish 0]"

text \<open>They are the operations of \<open>bttest_service\<close> and of the call that hands the service over.\<close>

lemma bttest_operations_store: "store_run bttest_operations = Ret (with_service no_objects)"
  by (simp add: store_run_def bttest_operations_def managed_service_def managed_characteristic_def
      managed_service_add_def no_objects_def with_service_def as_int_def Let_def)

text \<open>On the plain store a drain of the pool does nothing.\<close>

lemma store_drains: "ofold (\<lambda>h op. store_op op h) h (filter (\<lambda>op. op \<noteq> Drain_pool) ops) = ofold (\<lambda>h op. store_op op h) h ops"
proof (induction ops arbitrary: h)
  case (Cons op ops)
  then show ?case by (cases "op = Drain_pool") (auto intro: obind_cong)
qed simp

lemma store_run_drains: "filter (\<lambda>op. op \<noteq> Drain_pool) ops = xs \<Longrightarrow> store_run ops = store_run xs"
  using store_drains [of no_objects ops] by (simp add: store_run_def)

section \<open>Objects that the program owns\<close>

lemma agree_later:
  assumes "agree A m h" "memory_run m m'" "a \<in> all_names A"
  shows "\<exists>c. lookup (cells m') a = Some c"
proof -
  have "counted (set (program m)) {} {} {#} m" using assms(1) by (simp add: agree_def counted_def)
  then have "counted (set (program m)) {} {} {#} m'" by (rule memory_run_counted [OF assms(2)])
  moreover from this have "a \<in> set (program m')" using assms(1,3) by (auto simp: agree_def counted_def)
  ultimately show ?thesis using program_live by (fastforce simp: body_at_def)
qed

lemma wrapped_not_both: "wrapped_characteristics a m = Ret xs \<Longrightarrow> wrapped_descriptors a m \<noteq> Ret ys"
  unfolding wrapped_characteristics_def wrapped_descriptors_def
  by (cases "cell_at m a") (simp_all split: body.splits)

section \<open>Property\<close>

text \<open>C29: The service of the built program outlives it. However often the pool is drained between the calls of
  \<open>main\<close>, they succeed and leave one service object that holds one characteristic object, those of the plain
  store; and whatever CoreBluetooth and the pools release afterwards, both stay allocated for ever,
  as neither the builders nor the adapter ever gives up the reference it got.\<close>

theorem bttest_service_survives:
  assumes "hex_api H" and "filter (\<lambda>op. op \<noteq> Drain_pool) ops = bttest_operations"
  shows "\<exists>A m svc chr h. bttest_service H no_objects = Ret (0, h) \<and> store_run ops = Ret h \<and>
    memory_run_of ops = Ret (A, m) \<and> svc_at A = [svc] \<and> chr_at A = [chr] \<and> dsc_at A = [] \<and> svc \<noteq> chr \<and>
    wrapped_characteristics svc m = Ret [chr] \<and> wrapped_descriptors chr m = Ret [] \<and>
    (\<forall>m'. memory_run m m' \<longrightarrow>
      (\<exists>c. lookup (cells m') svc = Some c) \<and> (\<exists>c. lookup (cells m') chr = Some c))"
proof -
  have store: "store_run ops = Ret (with_service no_objects)"
    unfolding store_run_drains [OF assms(2)] by (rule bttest_operations_store)
  then obtain A m where run: "memory_run_of ops = Ret (A, m)" and agr: "agree A m (with_service no_objects)"
    using agree_run [OF agree_start, of ops] by (auto simp: store_run_def memory_run_of_def)
  have len: "length (svcs (with_service no_objects)) = 1" "length (chrs (with_service no_objects)) = 1"
    "length (dscs (with_service no_objects)) = 0"
    by (simp_all add: with_service_def no_objects_def)
  then have "length (svc_at A) = 1" "length (chr_at A) = 1" "length (dsc_at A) = 0"
    using agree_lengths [OF agr] by simp_all
  then obtain svc chr where names: "svc_at A = [svc]" "chr_at A = [chr]" "dsc_at A = []"
    by (auto simp: length_Suc_conv)
  have "wrapped_characteristics svc m = Ret [chr]" "wrapped_descriptors chr m = Ret []"
    using agree_characteristics [OF agr, of 0] agree_descriptors [OF agr, of 0] len
    by (simp_all add: names address_of_def service_characteristics_def characteristic_descriptors_def
        with_service_def no_objects_def)
  moreover from this have "svc \<noteq> chr"
    using wrapped_not_both by blast
  moreover have "bttest_service H no_objects = Ret (0, with_service no_objects)"
    using bttest_service_built [OF assms(1), of no_objects] by (simp add: no_objects_def)
  moreover have "\<exists>c. lookup (cells m') svc = Some c" "\<exists>c. lookup (cells m') chr = Some c" if "memory_run m m'" for m'
    using agree_later [OF agr that] names by (simp_all add: all_names_def)
  ultimately show ?thesis using store run names by blast
qed

theorem bttest_service_survives_witness:
  "\<exists>A m svc chr. memory_run_of (Drain_pool # bttest_operations @ [Drain_pool]) = Ret (A, m) \<and>
    svc_at A = [svc] \<and> chr_at A = [chr] \<and> wrapped_characteristics svc m = Ret [chr]"
proof -
  have "filter (\<lambda>op. op \<noteq> Drain_pool) (Drain_pool # bttest_operations @ [Drain_pool]) = bttest_operations"
    by (simp add: bttest_operations_def)
  from bttest_service_survives [OF ref_hex.hex_api_axioms this] show ?thesis by blast
qed

end
