(* ===== verification/Spec2Isabelle.thy ===== *)
theory Spec2Isabelle
  imports Multiaddr Multiaddr_Raw Raw_Cursor Multiaddr_Order Crc64 Bloom_Filter Bloom_Sizing Kdf_Chain Crypto Net Sync Executor
    Runtime Peers Hrafn_Main Gatt Identifiers Lifetime Building Corebluetooth Adapter Btle Multiplexer Bttest Bttest_Memory
    Object_Types Handles
begin

text \<open>
  A verification library for hrafn, a peer-to-peer messenger over Bluetooth in C++ and Objective-C++.

  \<^bold>\<open>The program.\<close> \<open>utils/\<close> holds value types with a text or binary form (varints, UUIDs, semantic
  versions, multiaddresses), a Bloom filter and the macros for \<open>expected\<close> and \<open>optional\<close>; \<open>crypto/\<close> holds
  keys, signatures and peer identifiers over libsodium, a key chain and a CRC-64; \<open>net/net.h\<close> is the
  abstract byte stream; \<open>src/hrafn.cpp\<close> is the program: the handshake, the synchronisation of messages
  and the coroutines that run them on one \<open>asio::io_context\<close>; \<open>btle/\<close> is the Bluetooth layer, a wrapper of
  CoreBluetooth and the packets, builders and stream multiplexer on top.

  \<^bold>\<open>How code is modelled.\<close> Theory \<open>Prelude\<close> has the machine words and the type \<open>outcome\<close>: a call returns,
  throws a standard exception, terminates the process, or has undefined behaviour; the last is a value,
  so that its absence and its presence can be proved. \<open>std::optional\<close> is \<open>option\<close>, \<open>std::expected\<close> a sum.
  Words keep their width; a \<open>size_t\<close> sum that may wrap is written out. Objects that are passed by
  reference are passed and returned. Code outside the repository (Abseil, libsodium, Protocol Buffers,
  \<open>std::hash\<close>, CoreBluetooth, implementations of \<open>Stream\<close>) is a parameter. What the properties use of it
  is a locale (\<open>split_api\<close>, \<open>atoi_api\<close>, \<open>hex_api\<close>, \<open>format_api\<close>, \<open>base64_api\<close>, \<open>sign_api\<close>,
  \<open>sealed_box_api\<close>, \<open>proto_api\<close>, \<open>packet_stream\<close>, \<open>float_api\<close>), which a concrete function satisfies.

  \<^bold>\<open>Theories and code.\<close>
  \<^item> \<open>Strings\<close>, \<open>Abseil\<close>, \<open>Base64\<close>: characters and digits, and the contracts of the library functions
    with their reference functions. They model no code of the repository, except \<open>std::isalnum\<close> and
    \<open>std::to_string\<close> as the code meets them.
  \<^item> \<open>Varint\<close> (\<open>utils/varint.h\<close>): the encoder and the decoder with its shift count. Round trip through
    the locale \<open>prefix_codec\<close>, the exact outcome on every input, shortest encodings.
  \<^item> \<open>Uuid\<close> (\<open>utils/uuid.h\<close>, \<open>uuid.cpp\<close>) and \<open>Semver\<close> (\<open>utils/semantic_version.h\<close>, \<open>.cpp\<close>): text forms
    that round-trip (locale \<open>print_parse\<close>), what is accepted, the order of versions.
  \<^item> \<open>Multiaddr\<close> and \<open>Multiaddr_Raw\<close> (\<open>utils/multiaddr.h\<close>, \<open>.cpp\<close>): tokenizers as records with a
    position, the loops over them, printing. Round trips, normal forms, every outcome, and the
    fixed-width and counted reads of the binary tokenizer; the former access bytes as numbers, which is
    undefined. \<open>Raw_Cursor\<close>: sequences of those reads refine a cursor on the remaining bytes (locale
    \<open>op_refinement\<close>). \<open>Multiaddr_Order\<close>: the defaulted comparison,
    on address objects with the pointers to their components (locale \<open>three_way\<close>, interpreted on the
    comparison of every type involved).
  \<^item> \<open>Crc64\<close> (\<open>crypto/crc64.cpp\<close>): the whole table, which is shown to be the table of the polynomial, so
    that the loop is the bit-serial CRC; checksums in pieces (locale \<open>incremental\<close>), bursts, linearity.
  \<^item> \<open>Bloom_Filter\<close> (\<open>utils/bloom_filter.h\<close>): the probe loops against the set of probed positions; the
    contract of a membership filter (locale \<open>membership_filter\<close>). \<open>Bloom_Sizing\<close>: the sizes and the estimate,
    in floating point with infinities, whose rounding is a parameter; the exact sizes are those of exact
    arithmetic, the corner cases hold for every rounding.
  \<^item> \<open>Kdf_Chain\<close> (\<open>crypto/kdf_chain.h\<close>, \<open>.cpp\<close>): refinement of a hash chain (locale
    \<open>follows_sequence\<close>), and the limits of the chain.
  \<^item> \<open>Crypto\<close> (\<open>crypto/crypto.h\<close>, \<open>.cpp\<close>): keys, signatures, identifiers, with the reads of fixed size
    that the code and libsodium do, and the move constructor of \<open>Privkey\<close>.
  \<^item> \<open>Net\<close> (\<open>net/net.h\<close> and the first half of \<open>src/hrafn.cpp\<close>): streams, typed reads and writes, the
    handshake.
  \<^item> \<open>Sync\<close> (\<open>Syncer\<close>, \<open>handle_messages\<close>, \<open>periodic_sync\<close> of \<open>src/hrafn.cpp\<close>): what is written, and
    loops that need not end as partial functions (locale \<open>guarded_loop\<close>). What one program writes is
    read by the other: the composition of \<open>sync\<close> with \<open>handle_messages\<close> loses every message.
  \<^item> \<open>Executor\<close> (\<open>start_connection\<close>, \<open>ConnectionMultiplexer::run\<close>, \<open>Context\<close>, \<open>main\<close>): which coroutine
    runs on the thread of the executor, as a step relation; starvation and the lifetime of connections.
  \<^item> \<open>Runtime\<close> (the same coroutines, with \<open>negotiate\<close> and \<open>Syncer\<close>): their small steps with the local
    variables in the frames and the packets in the state. The projection to \<open>Executor\<close> is a simulation,
    so what holds of its runs holds here; the packets of a stream are characterised by the \<open>batch\<close> of
    \<open>Sync\<close> for every interleaving, by an invariant that follows the one frame that may write to it.
  \<^item> \<open>Peers\<close>: runs of \<open>Runtime\<close> in which every handshake that is read was sent by a peer that runs the same
    program; an invariant shows that no such run ever has a connection.
  \<^item> \<open>Hrafn_Main\<close> (\<open>main\<close> of \<open>src/hrafn.cpp\<close>): the start of the program, over what it calls.
  \<^item> \<open>Gatt\<close> (\<open>btle/corebluetooth/bt.h\<close>, \<open>types.mm\<close>, \<open>helpers.h\<close> and \<open>PeripheralDelegate\<close> of \<open>bt.mm\<close>): the
    contents of the objects in a store with one list for each class, and what the wrappers that point into
    it and the delegate do to them. The store says what objects hold while they live; it frees none.
  \<^item> \<open>Lifetime\<close> (\<open>types.mm\<close> and \<open>bt.mm\<close> again): the same constructors and setters on memory with retain counts
    and an autorelease pool, and what CoreBluetooth does to it. The counts are exact in every reachable
    state; from that follows which objects leak and which handles dangle. \<open>Building\<close>: for programs that
    only build objects, a simulation shows that this memory implements the store of \<open>Gatt\<close>.
  \<^item> \<open>Object_Types\<close> and \<open>Handles\<close> (\<open>bt.h\<close>, \<open>types.mm\<close>): type soundness of the wrappers on the memory of
    \<open>Lifetime\<close>, for a client that uses the handles it holds while CoreBluetooth makes and frees objects: an
    object that lives is what the C++ type of its handles says, and a handle of a freed one dangles for
    good. \<open>Identifiers\<close>: the getters of the identifiers on this memory, over the text that CoreBluetooth
    shows.
  \<^item> \<open>Corebluetooth\<close> (\<open>bt.h\<close>, \<open>bt.mm\<close>, \<open>cbtle.h\<close>): the managers with their option dictionaries, callbacks and
    three delegate classes, and the adapters. \<open>Adapter\<close> (\<open>cbtle.cpp\<close>): a class that does not compile, over the
    functions it calls. \<open>Btle\<close> (\<open>btle/btle.h\<close>): packets, the stream multiplexer, the builders. \<open>Multiplexer\<close>:
    the stream multiplexer from its construction to its destruction among the events of CoreBluetooth.
  \<^item> \<open>Bttest\<close> (\<open>src/test.cpp\<close>): the one executable that is built, its statements in turn with the events that
    CoreBluetooth delivers on the queues of its managers. \<open>Bttest_Memory\<close>: its service in the memory of
    \<open>Lifetime\<close>, by the simulation of \<open>Building\<close>.

  \<^bold>\<open>Bounds and fuel.\<close> The platform is LP64. No definition uses fuel: loops over data are structural or
  have a measure, and the loops that depend on the other side are \<open>partial_function\<close>s whose value
  \<open>None\<close> stands for not ending, with the exact condition proved. The lengths that occur in hypotheses
  (messages shorter than 2^62 bytes, packets of at most 1024 bytes, keys of 32 bytes) are those of the
  containers and of the buffers in the code.

  \<^bold>\<open>Not modelled.\<close> Mutexes and memory ordering (the executor has one thread, and \<open>connection_output\<close> shows
  that the mutex is never contended); members that are declared and not defined
  (\<open>Peripheral::set_delegate\<close>, \<open>name\<close>, \<open>set_manufacturer_data\<close>); formatters, logging and the pauses of
  \<open>src/test.cpp\<close>; build files and unit tests; an empty file for BlueZ. In \<open>Lifetime\<close> an address is not used
  again, so that a dangling handle is always seen; the wrappers have no destructors. The values that
  CoreBluetooth gives discovered characteristics and descriptors, and included services, are in \<open>Gatt\<close>
  and not in \<open>Lifetime\<close>.

  \<^bold>\<open>Idealised contracts.\<close> Three parameters are taken as better than what a library can promise: a sealed
  box never opens under another key (\<open>sealed_box_api\<close>; in truth but for a negligible probability), a stream
  keeps the boundaries of packets and its writes succeed (\<open>packet_stream\<close>, as the comments of \<open>net/net.h\<close>
  have it), and the message \<open>Handshake\<close> has the
  field \<open>peer_id\<close> that \<open>src/hrafn.cpp\<close> sets and \<open>proto/messages.proto\<close> lacks. In the step relations a use
  after free sets a flag or ends the run; states with the flag lie past undefined behaviour.

  \<^bold>\<open>Plan.\<close> Every component that holds state is modelled. What could be added is the content of received
  data in \<open>Runtime\<close>, which no code uses, and the threads of several dispatch queues at once; in the
  programs that exist their callbacks are never reached or fail at once (\<open>Multiplexer\<close>, \<open>Bttest\<close>).
\<close>

section \<open>Text form and binary form of one address\<close>

lemma pack_length: "list_all uuid_wf us \<Longrightarrow> length (pack us) \<le> 26 * length us"
proof (induction us)
  case Nil
  then show ?case by (simp add: pack_def)
next
  case (Cons u us)
  then show ?case using encode_varuint_at_most_10 [of 150] by (simp add: pack_def uuid_wf_def uuid_kSize_def)
qed

lemma wf_protocols:
  "list_all bluetooth_wf ps \<Longrightarrow> map BluetoothAddress (map address ps) = ps \<and> list_all uuid_wf (map address ps)"
  by (induction ps) (simp_all add: bluetooth_wfD)

text \<open>C12: The two forms of an address agree: when \<open>Multiaddr::parse\<close> accepts a text, \<open>parse_raw\<close> of the
  components of the result in binary form gives the same address but for the version, which the binary
  form has no place for; and the text of that address parses to it again.\<close>

theorem multiaddr_forms_agree:
  assumes "multiaddr_text HexStringToBytes StrFormat_02x StrSplit SimpleAtoi"
    and "multiaddr_parse StrSplit SimpleAtoi HexStringToBytes s = Ret (Some m)"
    and "length (protocols m) < 2 ^ 59"
  shows "multiaddr_parse_raw (pack (map address (protocols m))) = Ret (Some (m\<lparr>version := None\<rparr>)) \<and>
    multiaddr_parse StrSplit SimpleAtoi HexStringToBytes (multiaddr_to_string StrFormat_02x (m\<lparr>version := None\<rparr>)) =
      Ret (Some (m\<lparr>version := None\<rparr>))"
proof
  have wf: "multiaddr_wf m" by (rule multiaddr_text.parse_wf [OF assms(1,2)])
  then have ps: "map BluetoothAddress (map address (protocols m)) = protocols m"
    "list_all uuid_wf (map address (protocols m))"
    using wf_protocols by (simp_all add: multiaddr_wf_def)
  have "length (pack (map address (protocols m))) \<le> 26 * length (map address (protocols m))"
    by (rule pack_length [OF ps(2)])
  then have "length (pack (map address (protocols m))) \<le> size_max - 16" using assms(3) by simp
  moreover have "empty_multiaddr\<lparr>protocols := protocols m\<rparr> = m\<lparr>version := None\<rparr>"
    using wf by (simp add: empty_multiaddr_def multiaddr_wf_def)
  ultimately show "multiaddr_parse_raw (pack (map address (protocols m))) = Ret (Some (m\<lparr>version := None\<rparr>))"
    using multiaddr_parse_raw_packed [OF ps(2)] ps(1) by simp
  have "multiaddr_wf (m\<lparr>version := None\<rparr>)" using wf by (simp add: multiaddr_wf_def)
  then show "multiaddr_parse StrSplit SimpleAtoi HexStringToBytes
      (multiaddr_to_string StrFormat_02x (m\<lparr>version := None\<rparr>)) = Ret (Some (m\<lparr>version := None\<rparr>))"
    by (rule multiaddr_text.parse_to_string [OF assms(1)])
qed

theorem multiaddr_forms_agree_witness:
  "multiaddr_parse_raw (pack [sample_uuid]) = Ret (Some (sample_multiaddr\<lparr>version := None\<rparr>))"
proof -
  have "multiaddr_parse ref_StrSplit ref_SimpleAtoi ref_HexStringToBytes (multiaddr_to_string hex_byte sample_multiaddr)
      = Ret (Some sample_multiaddr)"
    by (rule multiaddr_text.parse_to_string [OF ref_multiaddr.multiaddr_text_axioms sample_multiaddr_wf])
  from multiaddr_forms_agree [OF ref_multiaddr.multiaddr_text_axioms this] show ?thesis
    by (simp add: sample_multiaddr_def BluetoothAddress_def)
qed

section \<open>A signed packet from end to end\<close>

text \<open>C19: A packet that carries the public key of a generated pair and the signature of its data by that
  pair is read by \<open>Packet::from_proto\<close> and verifies under the key it names. Reading it does not depend on
  the signature being right: with any 64 bytes in its place the packet is returned just the same.\<close>

theorem signed_packet_verifies:
  assumes "sign_api seed_keypair sign_detached verify_detached" and "length seed = 32"
    and "ParsePacket bs = (True, \<lparr>proto_from = pubkey_data (keypair_pubkey (keypair_generate_from seed_keypair seed)),
      proto_signature = sig, proto_data = msg, proto_timestamp = time, proto_checksum = chk\<rparr>)"
    and "length sig = 64"
  shows "\<exists>p. packet_from_proto ParsePacket bs = Ret p \<and> packet_data p = msg \<and>
    packet_from p = keypair_pubkey (keypair_generate_from seed_keypair seed) \<and> signature_bytes (packet_signature p) = sig \<and>
    (sig = signature_bytes (privkey_sign sign_detached (keypair_privkey (keypair_generate_from seed_keypair seed)) msg) \<longrightarrow>
      pubkey_verify verify_detached (packet_from p) (packet_data p) (signature_bytes (packet_signature p)) = Ret True)"
proof -
  define pair where "pair = keypair_generate_from seed_keypair seed"
  have "length (pubkey_data (keypair_pubkey pair)) = 32"
    using sign_api.keypair_sizes [OF assms(1,2)]
    by (simp add: pair_def keypair_generate_from_def privkey_from_array_def case_prod_unfold Let_def)
  moreover have "pubkey_verify verify_detached (keypair_pubkey pair) msg
      (signature_bytes (privkey_sign sign_detached (keypair_privkey pair) msg)) = Ret True"
    using sign_api.signs_and_verifies [OF assms(1,2), of msg "[]"] by (simp add: pair_def)
  ultimately show ?thesis
    using assms(3,4) unfolding pair_def [symmetric]
    by (auto simp: packet_from_proto_def pubkey_from_stringbytes_def signature_from_stringbytes_def copy_from_def
        kPubkeySize_def kSignatureSize_def)
qed

definition sample_packet :: "bytes \<Rightarrow> bool \<times> packet_proto" where
  "sample_packet bs = (True, \<lparr>
     proto_from = pubkey_data (keypair_pubkey (keypair_generate_from toy_keypair (replicate 32 1))),
     proto_signature = signature_bytes
       (privkey_sign toy_sign (keypair_privkey (keypair_generate_from toy_keypair (replicate 32 1))) bs),
     proto_data = bs, proto_timestamp = 0, proto_checksum = 0\<rparr>)"

theorem signed_packet_verifies_witness:
  "\<exists>p. packet_from_proto sample_packet [4, 2] = Ret p \<and> packet_data p = [4, 2] \<and>
    pubkey_verify toy_verify (packet_from p) (packet_data p) (signature_bytes (packet_signature p)) = Ret True"
proof -
  define sig where "sig = signature_bytes
    (privkey_sign toy_sign (keypair_privkey (keypair_generate_from toy_keypair (replicate 32 1))) [4, 2])"
  have "length sig = 64" by (simp add: sig_def privkey_sign_def toy_sign.signature_size)
  then show ?thesis
    using signed_packet_verifies [OF toy_sign.sign_api_axioms, of "replicate 32 1" sample_packet "[4, 2]" sig "[4, 2]" 0 0]
    by (auto simp: sample_packet_def sig_def)
qed

end
